(* ===== verification/Prelude.thy ===== *)
theory Prelude
  imports Main "HOL-Library.Word" "HOL-Library.Char_ord" "HOL-Library.List_Lexorder"
    "HOL-Library.Sublist"
begin

unbundle bit_operations_syntax

text \<open>
  The prelude of the development: the machine types of the C++ sources, the
  collections of rewrite rules that the component proofs share, and the generic
  facts on lists, strings and options that more than one component uses.

  Conventions used in every theory. A C++ \<open>int\<close> is modelled by \<^typ>\<open>int\<close> where the
  source relies on it not overflowing (signed overflow is undefined behaviour in
  C++, and the values are token counts, query ids and positions far below
  \<open>2 ^ 31\<close>); unsigned integers whose width matters are words. A \<open>std::vector\<close> is a
  list, a \<open>std::string\<close> a \<^typ>\<open>string\<close> of bytes.
\<close>

section \<open>Machine types\<close>

type_synonym u8 = "8 word"
type_synonym u16 = "16 word"
type_synonym u32 = "32 word"
type_synonym u64 = "64 word"

section \<open>Collections\<close>

named_theorems omap_simps \<open>rewrite rules of the ordered map model\<close>
named_theorems qst_defs \<open>definitions of the query state table\<close>
named_theorems byte_simps \<open>byte and bit level rewrite rules\<close>

section \<open>Lists\<close>

text \<open>
  \<open>std::vector<int> freq(n, 0)\<close> followed by \<open>freq[x]++\<close> per element counts
  occurrences; the lemma turns the loop into \<^const>\<open>count_list\<close>.
\<close>

definition bump_at :: "nat list \<Rightarrow> nat \<Rightarrow> nat list" where
  "bump_at xs i = xs[i := Suc (xs ! i)]"

lemma length_bump_at [simp]: "length (bump_at xs i) = length xs"
  by (simp add: bump_at_def)

lemma length_fold_bump_at [simp]: "length (fold (\<lambda>i f. bump_at f i) is xs) = length xs"
  by (induction "is" arbitrary: xs) simp_all

lemma fold_bump_at_nth:
  assumes "\<forall>i \<in> set is. i < length xs" "k < length xs"
  shows "fold (\<lambda>i f. bump_at f i) is xs ! k = xs ! k + count_list is k"
  using assms
  by (induction "is" arbitrary: xs) (auto simp: bump_at_def nth_list_update)

text \<open>The first index of a list at which a predicate holds, as a search loop finds it.\<close>

fun first_index :: "('a \<Rightarrow> bool) \<Rightarrow> 'a list \<Rightarrow> nat option" where
  "first_index P [] = None"
| "first_index P (x # xs) = (if P x then Some 0 else map_option Suc (first_index P xs))"

lemma first_index_Some_iff:
  "first_index P xs = Some i \<longleftrightarrow> i < length xs \<and> P (xs ! i) \<and> (\<forall>j<i. \<not> P (xs ! j))"
proof (induction xs arbitrary: i)
  case Nil
  then show ?case by simp
next
  case (Cons x xs)
  show ?case
  proof (cases i)
    case 0
    then show ?thesis by (auto simp: option.case_eq_if)
  next
    case (Suc k)
    then show ?thesis using Cons.IH [of k]
      by (cases "P x") (auto simp: less_Suc_eq_0_disj nth_Cons')
  qed
qed

lemma first_index_None_iff: "first_index P xs = None \<longleftrightarrow> (\<forall>x \<in> set xs. \<not> P x)"
  by (induction xs) auto

lemma first_index_cong:
  assumes "length xs = length ys" "\<And>i. i < length xs \<Longrightarrow> P (xs ! i) = Q (ys ! i)"
  shows "first_index P xs = first_index Q ys"
  using assms
proof (induction xs ys rule: list_induct2)
  case (Cons x xs y ys)
  have "P x = Q y" using Cons.prems [of 0] by simp
  moreover have "first_index P xs = first_index Q ys"
    using Cons.prems by (intro Cons.IH) (metis Suc_less_eq length_Cons nth_Cons_Suc)
  ultimately show ?case by simp
qed simp

lemma first_index_length: "first_index P xs = Some i \<Longrightarrow> i < length xs"
  by (simp add: first_index_Some_iff)

lemma in_concat_map_upt: "x \<in> set (concat (map f [0..<n])) \<longleftrightarrow> (\<exists>i < n. x \<in> set (f i))"
  by auto

end
