(* ===== verification/StdMap.thy ===== *)
theory StdMap
  imports Prelude
begin

text \<open>
  \<open>std::map\<close> as the sources use it: an association list kept strictly sorted by
  key, so that iteration visits the keys in increasing order, \<open>operator[]\<close>
  inserts or overwrites, and \<open>erase\<close> removes one key. The locale
  \<open>ordered_map\<close> states what the clients rely on; it is interpreted below on the
  association lists.
\<close>

section \<open>The association list model\<close>

type_synonym ('k, 'v) omap = "('k \<times> 'v) list"

definition omap_find :: "('k, 'v) omap \<Rightarrow> 'k \<Rightarrow> 'v option" where
  "omap_find m k = map_of m k"

fun omap_put :: "'k::linorder \<Rightarrow> 'v \<Rightarrow> ('k, 'v) omap \<Rightarrow> ('k, 'v) omap" where
  "omap_put k v [] = [(k, v)]"
| "omap_put k v ((a, b) # m) =
     (if k < a then (k, v) # (a, b) # m
      else if k = a then (k, v) # m
      else (a, b) # omap_put k v m)"

definition omap_erase :: "'k \<Rightarrow> ('k, 'v) omap \<Rightarrow> ('k, 'v) omap" where
  "omap_erase k m = filter (\<lambda>p. fst p \<noteq> k) m"

definition omap_ok :: "('k::linorder, 'v) omap \<Rightarrow> bool" where
  "omap_ok m = sorted_wrt (<) (map fst m)"

lemma omap_find_Nil [simp, omap_simps]: "omap_find [] k = None"
  by (simp add: omap_find_def)

lemma omap_ok_Nil [simp, omap_simps]: "omap_ok []"
  by (simp add: omap_ok_def)

lemma omap_find_Cons [omap_simps]:
  "omap_find ((a, b) # m) k = (if k = a then Some b else omap_find m k)"
  by (simp add: omap_find_def)

lemma omap_ok_Cons [omap_simps]:
  "omap_ok ((a, b) # m) \<longleftrightarrow> (\<forall>x \<in> fst ` set m. a < x) \<and> omap_ok m"
  by (auto simp: omap_ok_def)

lemma keys_omap_put [simp]: "fst ` set (omap_put k v m) = insert k (fst ` set m)"
  by (induction k v m rule: omap_put.induct) auto

lemma omap_ok_put: "omap_ok m \<Longrightarrow> omap_ok (omap_put k v m)"
proof (induction k v m rule: omap_put.induct)
  case (2 k v a b m)
  then show ?case by (auto simp: omap_ok_Cons)
qed (simp add: omap_ok_def)

lemma omap_find_put:
  "omap_find (omap_put k v m) x = (if x = k then Some v else omap_find m x)"
  by (induction k v m rule: omap_put.induct) (auto simp: omap_find_Cons)

lemma omap_ok_erase: "omap_ok m \<Longrightarrow> omap_ok (omap_erase k m)"
  by (auto simp: omap_ok_def omap_erase_def sorted_wrt_filter sorted_wrt_map)

lemma omap_find_erase:
  "omap_find (omap_erase k m) x = (if x = k then None else omap_find m x)"
  by (induction m) (auto simp: omap_erase_def omap_find_def)

lemma omap_find_None_iff: "omap_find m k = None \<longleftrightarrow> k \<notin> fst ` set m"
  by (simp add: omap_find_def map_of_eq_None_iff)

lemma omap_distinct: "omap_ok m \<Longrightarrow> distinct (map fst m)"
  by (simp add: omap_ok_def strict_sorted_iff)

lemma omap_find_in_set:
  "omap_ok m \<Longrightarrow> omap_find m k = Some v \<longleftrightarrow> (k, v) \<in> set m"
  by (auto simp: omap_find_def dest: map_of_SomeD omap_distinct intro: map_of_is_SomeI)

lemma length_omap_put:
  "omap_ok m \<Longrightarrow> length (omap_put k v m) = (if omap_find m k = None then Suc (length m) else length m)"
proof (induction k v m rule: omap_put.induct)
  case (2 k v a b m)
  then have IH: "\<not> k < a \<Longrightarrow> k \<noteq> a \<Longrightarrow> length (omap_put k v m)
      = (if omap_find m k = None then Suc (length m) else length m)"
    by (simp add: omap_ok_Cons)
  have "k < a \<Longrightarrow> omap_find m k = None"
    using "2.prems" by (force simp: omap_ok_Cons omap_find_None_iff)
  with IH show ?case by (auto simp: omap_find_Cons)
qed simp

lemma length_omap_erase:
  "omap_ok m \<Longrightarrow> omap_find m k \<noteq> None \<Longrightarrow> Suc (length (omap_erase k m)) = length m"
proof (induction m)
  case (Cons p m)
  obtain a b where p: "p = (a, b)" by (cases p)
  show ?case
  proof (cases "a = k")
    case True
    with Cons.prems p have "k \<notin> fst ` set m" by (auto simp: omap_ok_Cons)
    then have "omap_erase k m = m" by (force simp: omap_erase_def filter_id_conv)
    with True p show ?thesis by (simp add: omap_erase_def)
  next
    case False
    with Cons p show ?thesis by (auto simp: omap_ok_Cons omap_find_Cons omap_erase_def)
  qed
qed simp

lemma set_omap_put:
  "omap_ok m \<Longrightarrow> set (omap_put k v m) = insert (k, v) {p \<in> set m. fst p \<noteq> k}"
proof (induction k v m rule: omap_put.induct)
  case (2 k v a b m)
  then show ?case by (auto simp: omap_ok_Cons)
qed simp

lemma set_omap_erase [simp]: "set (omap_erase k m) = {p \<in> set m. fst p \<noteq> k}"
  by (auto simp: omap_erase_def)

section \<open>The interface\<close>

text \<open>
  What a client of \<open>std::map\<close> relies on, with the view of the map as a partial
  function as its specification.
\<close>

locale ordered_map =
  fixes find :: "'m \<Rightarrow> 'k \<Rightarrow> 'v option"
    and put :: "'k \<Rightarrow> 'v \<Rightarrow> 'm \<Rightarrow> 'm"
    and erase :: "'k \<Rightarrow> 'm \<Rightarrow> 'm"
    and size_of :: "'m \<Rightarrow> nat"
    and ok :: "'m \<Rightarrow> bool"
  assumes find_put: "ok m \<Longrightarrow> find (put k v m) = (find m)(k \<mapsto> v)"
    and find_erase: "ok m \<Longrightarrow> find (erase k m) = (find m)(k := None)"
    and size_of: "ok m \<Longrightarrow> size_of m = card (dom (find m))"
    and finite_find: "ok m \<Longrightarrow> finite (dom (find m))"
    and ok_put: "ok m \<Longrightarrow> ok (put k v m)"
    and ok_erase: "ok m \<Longrightarrow> ok (erase k m)"
begin

lemma size_put_fresh:
  assumes "ok m" "find m k = None"
  shows "size_of (put k v m) = Suc (size_of m)"
proof -
  have "k \<notin> dom (find m)" using assms by auto
  then show ?thesis
    using assms by (simp add: size_of ok_put find_put finite_find)
qed

lemma size_put_present:
  assumes "ok m" "find m k = Some w"
  shows "size_of (put k v m) = size_of m"
proof -
  have "insert k (dom (find m)) = dom (find m)" using assms by auto
  then show ?thesis using assms by (simp add: size_of ok_put find_put)
qed

lemma size_erase_present:
  assumes "ok m" "find m k = Some v"
  shows "Suc (size_of (erase k m)) = size_of m"
proof -
  have "k \<in> dom (find m)" using assms by auto
  moreover have "dom (find (erase k m)) = dom (find m) - {k}"
    using assms by (auto simp: find_erase split: if_splits)
  ultimately show ?thesis
    using assms by (simp only: size_of ok_erase finite_find card_Suc_Diff1)
qed

lemma erase_put_fresh:
  assumes "ok m" "find m k = None"
  shows "find (erase k (put k v m)) = find m"
  using assms by (auto simp: find_put find_erase ok_put fun_eq_iff)

lemma put_same_twice:
  assumes "ok m"
  shows "find (put k v (put k w m)) = find (put k v m)"
  using assms by (simp add: find_put ok_put)

end

lemma dom_omap_find: "dom (omap_find m) = fst ` set m"
  by (simp add: omap_find_def [abs_def] dom_map_of_conv_image_fst)

interpretation om: ordered_map omap_find omap_put omap_erase length omap_ok
proof unfold_locales
  fix m :: "('a::linorder \<times> 'b) list"
  assume ok: "omap_ok m"
  have "distinct (map fst m)" using ok by (rule omap_distinct)
  then have "card (fst ` set m) = length m"
    by (metis distinct_card length_map list.set_map)
  then show "length m = card (dom (omap_find m))" by (simp add: dom_omap_find)
qed (auto simp: omap_find_put omap_find_erase omap_ok_put omap_ok_erase dom_omap_find fun_eq_iff)

section \<open>A sequence of assignments\<close>

definition omap_of :: "('k::linorder \<times> 'v) list \<Rightarrow> ('k, 'v) omap" where
  "omap_of kvs = fold (\<lambda>(k, v). omap_put k v) kvs []"

lemma omap_find_fold_put:
  "omap_find (fold (\<lambda>(k, v). omap_put k v) kvs m) x =
    (case map_of (rev kvs) x of Some v \<Rightarrow> Some v | None \<Rightarrow> omap_find m x)"
  by (induction kvs arbitrary: m) (auto simp: omap_find_put map_add_def split: option.splits)

lemma omap_find_of: "omap_find (omap_of kvs) x = map_of (rev kvs) x"
  by (simp add: omap_of_def omap_find_fold_put split: option.split)

lemma omap_ok_of: "omap_ok (omap_of kvs)"
proof -
  have "omap_ok m \<Longrightarrow> omap_ok (fold (\<lambda>(k, v). omap_put k v) kvs m)" for m
    by (induction kvs arbitrary: m) (auto simp: omap_ok_put)
  then show ?thesis by (simp add: omap_of_def)
qed

lemma set_omap_of: "set (omap_of kvs) \<subseteq> set kvs"
proof
  fix p assume "p \<in> set (omap_of kvs)"
  then have "omap_find (omap_of kvs) (fst p) = Some (snd p)"
    by (simp add: omap_find_in_set omap_ok_of)
  then show "p \<in> set kvs" by (auto simp: omap_find_of dest: map_of_SomeD)
qed

end
