(* ===== verification/TensorCommon.thy ===== *)
theory TensorCommon
  imports StdMap
begin

text \<open>
  The element types of tensors (src/src/tensor/tensor_common.h and .cc) and the block
  layouts of the quantized types (src/src/common/quant_types.h): sizes and capacities of
  blocks, the number of bytes of an array of elements, and the two tables between
  element types and their names. The name tables are \<open>std::map\<close>s ordered by
  \<open>StrLessNoCase\<close>, i.e. by \<open>strcasecmp\<close> on the C strings.
\<close>

section \<open>Case-insensitive string keys\<close>

definition to_lower :: "char \<Rightarrow> char" where
  "to_lower c = (if 65 \<le> (of_char c :: nat) \<and> (of_char c :: nat) \<le> 90
     then char_of ((of_char c :: nat) + 32) else c)"

text \<open>\<open>strcasecmp\<close> compares the lower-cased characters up to the terminating zero.\<close>

definition nocase_key :: "string \<Rightarrow> string" where
  "nocase_key s = map to_lower (takeWhile (\<lambda>c. c \<noteq> CHR 0x00) s)"

definition nocase_find :: "(string, 'v) omap \<Rightarrow> string \<Rightarrow> 'v option" where
  "nocase_find m s = omap_find m (nocase_key s)"

definition nocase_put :: "string \<Rightarrow> 'v \<Rightarrow> (string, 'v) omap \<Rightarrow> (string, 'v) omap" where
  "nocase_put s v m = omap_put (nocase_key s) v m"

text \<open>A sequence of \<open>the_map[key] = value\<close> statements.\<close>

definition nocase_table :: "(string \<times> 'v) list \<Rightarrow> (string, 'v) omap" where
  "nocase_table kvs = fold (\<lambda>(k, v). nocase_put k v) kvs []"

section \<open>Element types\<close>

datatype ElementType =
    ET_F32
  | ET_F16
  | ET_BF16
  | ET_I32
  | ET_I16
  | ET_Q8_GL
  | ET_Q8_LOG
  | ET_Q8_B32T1
  | ET_Q8_B32T2
  | ET_Q6_B64T1
  | ET_Q5_B64T1
  | ET_Q5_B32T1
  | ET_Q4_B16
  | ET_Q4_B32T1A
  | ET_Q4_B32T1B
  | ET_Q4_B32T2
  | ET_Q4_B32P8
  | ET_Q4_B64T1
  | ET_Q3H_B64T1
  | ET_Q3_B32T1A
  | ET_Q3_B32T1B
  | ET_Q2_B32T1A
  | ET_Q2_B32T1B
  | ET_Invalid
  | ET_Auto

text \<open>The underlying value of the enumerator (\<open>Auto = 99\<close>).\<close>

fun ElementType_value :: "ElementType \<Rightarrow> int" where
  "ElementType_value ET_F32 = 0"
| "ElementType_value ET_F16 = 1"
| "ElementType_value ET_BF16 = 2"
| "ElementType_value ET_I32 = 3"
| "ElementType_value ET_I16 = 4"
| "ElementType_value ET_Q8_GL = 5"
| "ElementType_value ET_Q8_LOG = 6"
| "ElementType_value ET_Q8_B32T1 = 7"
| "ElementType_value ET_Q8_B32T2 = 8"
| "ElementType_value ET_Q6_B64T1 = 9"
| "ElementType_value ET_Q5_B64T1 = 10"
| "ElementType_value ET_Q5_B32T1 = 11"
| "ElementType_value ET_Q4_B16 = 12"
| "ElementType_value ET_Q4_B32T1A = 13"
| "ElementType_value ET_Q4_B32T1B = 14"
| "ElementType_value ET_Q4_B32T2 = 15"
| "ElementType_value ET_Q4_B32P8 = 16"
| "ElementType_value ET_Q4_B64T1 = 17"
| "ElementType_value ET_Q3H_B64T1 = 18"
| "ElementType_value ET_Q3_B32T1A = 19"
| "ElementType_value ET_Q3_B32T1B = 20"
| "ElementType_value ET_Q2_B32T1A = 21"
| "ElementType_value ET_Q2_B32T1B = 22"
| "ElementType_value ET_Invalid = 23"
| "ElementType_value ET_Auto = 99"

definition IsQuantType :: "ElementType \<Rightarrow> bool" where
  "IsQuantType etype \<longleftrightarrow> ElementType_value ET_Q8_GL \<le> ElementType_value etype
     \<and> ElementType_value etype < ElementType_value ET_Invalid"

section \<open>Block layouts\<close>

text \<open>
  A block is a C struct of unsigned integer fields and arrays of them: (element size,
  element count) in declaration order. \<^term>\<open>sizeof_struct\<close> is the size the C++ ABI gives it: every field
  aligned to its element size, the whole rounded up to the largest alignment.
\<close>

type_synonym struct_fields = "(nat \<times> nat) list"

definition align_up :: "nat \<Rightarrow> nat \<Rightarrow> nat" where
  "align_up n a = (n + (a - 1)) div a * a"

fun struct_end :: "nat \<Rightarrow> struct_fields \<Rightarrow> nat" where
  "struct_end off [] = off"
| "struct_end off ((sz, cnt) # fs) = struct_end (align_up off sz + sz * cnt) fs"

definition sizeof_struct :: "struct_fields \<Rightarrow> nat" where
  "sizeof_struct fs = align_up (struct_end 0 fs) (fold max (map fst fs) 1)"

definition Q8B32_CAPACITY :: nat where "Q8B32_CAPACITY = 32"
definition Q6_B64_CAPACITY :: nat where "Q6_B64_CAPACITY = 64"
definition Q5_B64_CAPACITY :: nat where "Q5_B64_CAPACITY = 64"
definition Q5B32_CAPACITY :: nat where "Q5B32_CAPACITY = 32"
definition Q4_B64_CAPACITY :: nat where "Q4_B64_CAPACITY = 64"
definition Q4B32_CAPACITY :: nat where "Q4B32_CAPACITY = 32"
definition Q4B16_CAPACITY :: nat where "Q4B16_CAPACITY = 16"
definition Q3H_B64_CAPACITY :: nat where "Q3H_B64_CAPACITY = 64"
definition Q3B32_CAPACITY :: nat where "Q3B32_CAPACITY = 32"
definition Q2B32_CAPACITY :: nat where "Q2B32_CAPACITY = 32"

lemmas capacity_defs =
  Q8B32_CAPACITY_def Q6_B64_CAPACITY_def Q5_B64_CAPACITY_def Q5B32_CAPACITY_def
  Q4_B64_CAPACITY_def Q4B32_CAPACITY_def Q4B16_CAPACITY_def Q3H_B64_CAPACITY_def
  Q3B32_CAPACITY_def Q2B32_CAPACITY_def

definition BlockQ8_B32T1 :: struct_fields where
  "BlockQ8_B32T1 = [(2, 1), (2, 1), (1, Q8B32_CAPACITY)]"

definition BlockQ8_B32T2 :: struct_fields where
  "BlockQ8_B32T2 = [(2, 1), (1, Q8B32_CAPACITY)]"

definition BlockQ6_B64T1 :: struct_fields where
  "BlockQ6_B64T1 = [(2, 1), (2, 1), (1, Q6_B64_CAPACITY div 4), (1, Q6_B64_CAPACITY div 2)]"

definition BlockQ5_B64T1 :: struct_fields where
  "BlockQ5_B64T1 = [(2, 1), (2, 1), (1, Q5_B64_CAPACITY div 8), (1, Q5_B64_CAPACITY div 2)]"

definition BlockQ5_B32T1 :: struct_fields where
  "BlockQ5_B32T1 = [(1, 2), (1, 2), (1, Q5B32_CAPACITY div 8), (1, Q5B32_CAPACITY div 2)]"

definition BlockQ4_B64T1 :: struct_fields where
  "BlockQ4_B64T1 = [(2, 1), (2, 1), (1, Q4_B64_CAPACITY div 2)]"

definition BlockQ4_B32T1 :: struct_fields where
  "BlockQ4_B32T1 = [(2, 1), (2, 1), (1, Q4B32_CAPACITY div 2)]"

definition BlockQ4_B32T2 :: struct_fields where
  "BlockQ4_B32T2 = [(1, 1), (1, 1), (1, Q4B32_CAPACITY div 2)]"

definition BlockQ4_B16 :: struct_fields where
  "BlockQ4_B16 = [(1, 1), (1, 1), (1, Q4B16_CAPACITY div 2)]"

definition BlockQ3H_B64T1 :: struct_fields where
  "BlockQ3H_B64T1 = [(2, 1), (2, 1), (1, Q3H_B64_CAPACITY div 16), (1, Q3H_B64_CAPACITY div 8),
     (1, Q3H_B64_CAPACITY div 4)]"

definition BlockQ3_B32T1 :: struct_fields where
  "BlockQ3_B32T1 = [(2, 1), (2, 1), (1, Q3B32_CAPACITY div 8), (1, Q3B32_CAPACITY div 4)]"

definition BlockQ2_B32T1 :: struct_fields where
  "BlockQ2_B32T1 = [(2, 1), (2, 1), (1, Q2B32_CAPACITY div 4)]"

lemmas block_defs =
  BlockQ8_B32T1_def BlockQ8_B32T2_def BlockQ6_B64T1_def BlockQ5_B64T1_def BlockQ5_B32T1_def
  BlockQ4_B64T1_def BlockQ4_B32T1_def BlockQ4_B32T2_def BlockQ4_B16_def BlockQ3H_B64T1_def
  BlockQ3_B32T1_def BlockQ2_B32T1_def

section \<open>Sizes\<close>

text \<open>Bytes per element; 0 for the element types the switch does not list.\<close>

definition ElementSize :: "ElementType \<Rightarrow> int" where
  "ElementSize etype = (case etype of
       ET_F32 \<Rightarrow> 4 | ET_I32 \<Rightarrow> 4
     | ET_F16 \<Rightarrow> 2 | ET_BF16 \<Rightarrow> 2 | ET_I16 \<Rightarrow> 2
     | ET_Q8_GL \<Rightarrow> 1 | ET_Q8_LOG \<Rightarrow> 1 | ET_Q8_B32T1 \<Rightarrow> 1 | ET_Q8_B32T2 \<Rightarrow> 1
     | _ \<Rightarrow> 0)"

text \<open>Bytes per block.\<close>

definition BlockSize :: "ElementType \<Rightarrow> nat" where
  "BlockSize etype = (case etype of
       ET_F32 \<Rightarrow> 4 | ET_I32 \<Rightarrow> 4
     | ET_F16 \<Rightarrow> 2 | ET_BF16 \<Rightarrow> 2 | ET_I16 \<Rightarrow> 2
     | ET_Q8_GL \<Rightarrow> 1 | ET_Q8_LOG \<Rightarrow> 1
     | ET_Q8_B32T1 \<Rightarrow> sizeof_struct BlockQ8_B32T1
     | ET_Q8_B32T2 \<Rightarrow> sizeof_struct BlockQ8_B32T2
     | ET_Q6_B64T1 \<Rightarrow> sizeof_struct BlockQ6_B64T1
     | ET_Q5_B32T1 \<Rightarrow> sizeof_struct BlockQ5_B32T1
     | ET_Q5_B64T1 \<Rightarrow> sizeof_struct BlockQ5_B64T1
     | ET_Q4_B16 \<Rightarrow> sizeof_struct BlockQ4_B16
     | ET_Q4_B32T1A \<Rightarrow> sizeof_struct BlockQ4_B32T1
     | ET_Q4_B32T1B \<Rightarrow> sizeof_struct BlockQ4_B32T1
     | ET_Q4_B32T2 \<Rightarrow> sizeof_struct BlockQ4_B32T2
     | ET_Q4_B64T1 \<Rightarrow> sizeof_struct BlockQ4_B64T1
     | ET_Q3H_B64T1 \<Rightarrow> sizeof_struct BlockQ3H_B64T1
     | ET_Q3_B32T1A \<Rightarrow> sizeof_struct BlockQ3_B32T1
     | ET_Q3_B32T1B \<Rightarrow> sizeof_struct BlockQ3_B32T1
     | ET_Q2_B32T1A \<Rightarrow> sizeof_struct BlockQ2_B32T1
     | ET_Q2_B32T1B \<Rightarrow> sizeof_struct BlockQ2_B32T1
     | _ \<Rightarrow> 1)"

text \<open>Number of elements per block; 32 for the element types the switch does not list.\<close>

definition BlockCapacity :: "ElementType \<Rightarrow> nat" where
  "BlockCapacity etype = (case etype of
       ET_F32 \<Rightarrow> 1 | ET_F16 \<Rightarrow> 1 | ET_BF16 \<Rightarrow> 1 | ET_I32 \<Rightarrow> 1 | ET_I16 \<Rightarrow> 1
     | ET_Q8_GL \<Rightarrow> 1 | ET_Q8_LOG \<Rightarrow> 1
     | ET_Q8_B32T1 \<Rightarrow> Q8B32_CAPACITY | ET_Q8_B32T2 \<Rightarrow> Q8B32_CAPACITY
     | ET_Q6_B64T1 \<Rightarrow> Q6_B64_CAPACITY
     | ET_Q5_B32T1 \<Rightarrow> Q5B32_CAPACITY
     | ET_Q5_B64T1 \<Rightarrow> Q5_B64_CAPACITY
     | ET_Q4_B16 \<Rightarrow> Q4B16_CAPACITY
     | ET_Q4_B32T1A \<Rightarrow> Q4B32_CAPACITY | ET_Q4_B32T1B \<Rightarrow> Q4B32_CAPACITY
     | ET_Q4_B32T2 \<Rightarrow> Q4B32_CAPACITY
     | ET_Q4_B64T1 \<Rightarrow> Q4_B64_CAPACITY
     | ET_Q3H_B64T1 \<Rightarrow> Q3H_B64_CAPACITY
     | ET_Q3_B32T1A \<Rightarrow> Q3B32_CAPACITY | ET_Q3_B32T1B \<Rightarrow> Q3B32_CAPACITY
     | ET_Q2_B32T1A \<Rightarrow> Q2B32_CAPACITY | ET_Q2_B32T1B \<Rightarrow> Q2B32_CAPACITY
     | _ \<Rightarrow> 32)"

text \<open>The bytes of \<open>element_num\<close> elements, in 64-bit unsigned arithmetic.\<close>

definition ByteCount :: "ElementType \<Rightarrow> u64 \<Rightarrow> u64" where
  "ByteCount etype element_num =
     (let c = BlockCapacity etype; b = BlockSize etype
      in (element_num + of_nat (c - 1)) div of_nat c * of_nat b)"

section \<open>Names\<close>

text \<open>The assignments of \<open>InitElementTypeMap\<close>, in the order of the code.\<close>

definition element_type_assignments :: "(string \<times> ElementType) list" where
  "element_type_assignments =
    [(''fp32'', ET_F32),
     (''f32'', ET_F32),
     (''fp16'', ET_F16),
     (''f16'', ET_F16),
     (''q8'', ET_Q8_B32T2),
     (''q6'', ET_Q6_B64T1),
     (''q5'', ET_Q5_B64T1),
     (''q4'', ET_Q4_B32T1A),
     (''q3h'', ET_Q3H_B64T1),
     (''q3'', ET_Q3_B32T1B),
     (''q2'', ET_Q2_B32T1B),
     (''q8_gl'', ET_Q8_GL),
     (''q8_log'', ET_Q8_LOG),
     (''q8_b32t1'', ET_Q8_B32T1),
     (''q8_b32t2'', ET_Q8_B32T2),
     (''q6_b64t1'', ET_Q6_B64T1),
     (''q5_b32t1'', ET_Q5_B32T1),
     (''q5_b64t1'', ET_Q5_B64T1),
     (''q4_b16'', ET_Q4_B16),
     (''q4_b32t1a'', ET_Q4_B32T1A),
     (''q4_b32t1b'', ET_Q4_B32T1B),
     (''q4_b32t1'', ET_Q4_B32T1A),
     (''q4_b32t2'', ET_Q4_B32T2),
     (''q4_b64t1'', ET_Q4_B64T1),
     (''q3h_b64t1'', ET_Q3H_B64T1),
     (''q3_b32t1a'', ET_Q3_B32T1A),
     (''q3_b32t1b'', ET_Q3_B32T1B),
     (''q3_b32t1'', ET_Q3_B32T1B),
     (''q2_b32t1a'', ET_Q2_B32T1A),
     (''q2_b32t1b'', ET_Q2_B32T1B),
     (''q2_b32t1'', ET_Q2_B32T1B)]"

definition InitElementTypeMap :: "(string, ElementType) omap" where
  "InitElementTypeMap = nocase_table element_type_assignments"

definition ElementTypeNameMap :: "ElementType \<rightharpoonup> string" where
  "ElementTypeNameMap = map_of
    [(ET_F32, ''fp32''),
     (ET_F16, ''fp16''),
     (ET_BF16, ''bf16''),
     (ET_I32, ''i32''),
     (ET_I16, ''i16''),
     (ET_Q8_GL, ''q8_gl''),
     (ET_Q8_LOG, ''q8_log''),
     (ET_Q8_B32T1, ''q8_b32t1''),
     (ET_Q8_B32T2, ''q8_b32t2''),
     (ET_Q6_B64T1, ''q6_b64t1''),
     (ET_Q5_B32T1, ''q5_b32t1''),
     (ET_Q5_B64T1, ''q5_b64t1''),
     (ET_Q4_B16, ''q4_b16''),
     (ET_Q4_B32P8, ''q4_b32p8''),
     (ET_Q4_B32T1A, ''q4_b32t1a''),
     (ET_Q4_B32T1B, ''q4_b32t1b''),
     (ET_Q4_B32T2, ''q4_b32t2''),
     (ET_Q4_B64T1, ''q4_b64t1''),
     (ET_Q3H_B64T1, ''q3h_b64t1''),
     (ET_Q3_B32T1A, ''q3_b32t1a''),
     (ET_Q3_B32T1B, ''q3_b32t1b''),
     (ET_Q2_B32T1A, ''q2_b32t1a''),
     (ET_Q2_B32T1B, ''q2_b32t1b'')]"

section \<open>Lemmas\<close>

lemma BlockSize_values [simp]:
  "BlockSize ET_Q8_B32T1 = 36" "BlockSize ET_Q8_B32T2 = 34" "BlockSize ET_Q6_B64T1 = 52"
  "BlockSize ET_Q5_B64T1 = 44" "BlockSize ET_Q5_B32T1 = 24" "BlockSize ET_Q4_B64T1 = 36"
  "BlockSize ET_Q4_B32T1A = 20" "BlockSize ET_Q4_B32T1B = 20" "BlockSize ET_Q4_B32T2 = 18"
  "BlockSize ET_Q4_B16 = 10" "BlockSize ET_Q3H_B64T1 = 32" "BlockSize ET_Q3_B32T1A = 16"
  "BlockSize ET_Q3_B32T1B = 16" "BlockSize ET_Q2_B32T1A = 12" "BlockSize ET_Q2_B32T1B = 12"
  by code_simp+

lemma BlockSize_bounds: "0 < BlockSize etype" "BlockSize etype \<le> 52"
proof -
  show "0 < BlockSize etype" by (cases etype) (simp_all, simp_all add: BlockSize_def)
  show "BlockSize etype \<le> 52" by (cases etype) (simp_all, simp_all add: BlockSize_def)
qed

lemma BlockCapacity_bounds: "0 < BlockCapacity etype" "BlockCapacity etype \<le> 64"
proof -
  show "0 < BlockCapacity etype" by (cases etype) (simp_all add: BlockCapacity_def capacity_defs)
  show "BlockCapacity etype \<le> 64" by (cases etype) (simp_all add: BlockCapacity_def capacity_defs)
qed

lemma ceil_div_upper: "0 < c \<Longrightarrow> (n + (c - 1)) div c \<le> (n::nat)"
proof (cases n)
  case (Suc m)
  assume "0 < c"
  then have "m * 1 \<le> m * c" by (intro mult_le_mono) auto
  with \<open>0 < c\<close> have "m + c < Suc (Suc m) * c" by (simp only: mult_Suc)
  then have "(m + c) div c < Suc (Suc m)" by (rule less_mult_imp_div_less)
  with Suc \<open>0 < c\<close> show ?thesis by simp
qed simp

lemma ByteCount_nat:
  assumes "n < 2 ^ 57"
  shows "unat (ByteCount etype (of_nat n)) =
    (n + (BlockCapacity etype - 1)) div BlockCapacity etype * BlockSize etype"
proof -
  let ?c = "BlockCapacity etype" and ?b = "BlockSize etype"
  note c = BlockCapacity_bounds [of etype] and b = BlockSize_bounds [of etype]
  have sum: "unat (of_nat n + of_nat (?c - 1) :: u64) = n + (?c - 1)"
    using assms c by (subst of_nat_add [symmetric], subst unat_of_nat) simp
  have "unat (of_nat ?c :: u64) = ?c" "unat (of_nat ?b :: u64) = ?b"
    using c b by (simp_all add: unat_of_nat)
  moreover have "(n + (?c - 1)) div ?c * ?b < 2 ^ 64"
  proof -
    have "(n + (?c - 1)) div ?c * ?b \<le> n * 52" using ceil_div_upper c b by (intro mult_mono) auto
    also have "\<dots> < 2 ^ 64" using assms by simp
    finally show ?thesis .
  qed
  ultimately show ?thesis
    using sum by (simp add: ByteCount_def Let_def unat_div unat_word_ariths)
qed

lemma ByteCount_rows_nat:
  assumes "BlockCapacity etype dvd cols" "rows * cols < 2 ^ 57"
  shows "unat (ByteCount etype (of_nat (rows * cols))) = rows * unat (ByteCount etype (of_nat cols))"
proof (cases "rows = 0")
  case True
  then show ?thesis using ByteCount_nat [of 0 etype] BlockCapacity_bounds [of etype] by simp
next
  case False
  obtain k where k: "cols = BlockCapacity etype * k" using assms(1) by blast
  have ceil: "(BlockCapacity etype * m + (BlockCapacity etype - 1)) div BlockCapacity etype = m" for m
    using BlockCapacity_bounds(1) [of etype] by (intro div_nat_eqI) auto
  have "cols < 2 ^ 57" using assms(2) False by (metis le_less_trans mult_le_mono1 nat_mult_1 not_gr_zero Suc_leI One_nat_def)
  with ByteCount_nat [OF assms(2), of etype] ByteCount_nat [of cols etype] ceil [of k] ceil [of "rows * k"]
  show ?thesis by (simp add: k ac_simps)
qed

text \<open>A lookup in a table finds the last assignment to the key.\<close>

lemma nocase_find_table:
  "nocase_find (nocase_table kvs) s = map_of (rev (map (\<lambda>(k, v). (nocase_key k, v)) kvs)) (nocase_key s)"
proof -
  have "omap_find (fold (\<lambda>(k, v). nocase_put k v) kvs m) x =
      (map_of m ++ map_of (rev (map (\<lambda>(k, v). (nocase_key k, v)) kvs))) x" for m x
    by (induction kvs arbitrary: m)
      (auto simp: nocase_put_def omap_find_def [symmetric] omap_find_put map_add_def split: option.splits)
  then show ?thesis by (simp add: nocase_find_def nocase_table_def)
qed

lemma element_type_keys:
  "map (\<lambda>(k, v). (nocase_key k, v)) element_type_assignments = element_type_assignments"
  by (simp add: element_type_assignments_def nocase_key_def to_lower_def)

lemma find_element_type:
  "nocase_find InitElementTypeMap s = map_of (rev element_type_assignments) (nocase_key s)"
  by (simp add: InitElementTypeMap_def nocase_find_table element_type_keys)

section \<open>Properties\<close>

text \<open>
  C19. The byte count of an array of fewer than 2^57 elements is the size of a block times the
  least number of blocks that hold the elements: the unsigned 64-bit computation does not wrap.
\<close>

theorem ByteCount_exact:
  assumes "n < 2 ^ 57"
  shows "\<exists>blocks. unat (ByteCount etype (of_nat n)) = blocks * BlockSize etype
    \<and> n \<le> blocks * BlockCapacity etype \<and> blocks * BlockCapacity etype < n + BlockCapacity etype"
proof -
  let ?c = "BlockCapacity etype"
  have c: "0 < ?c" by (rule BlockCapacity_bounds)
  have "n \<le> (n + (?c - 1)) div ?c * ?c"
    using c div_mult_mod_eq [of "n + (?c - 1)" ?c] mod_less_divisor [OF c, of "n + (?c - 1)"] by linarith
  moreover have "(n + (?c - 1)) div ?c * ?c < n + ?c"
    using c div_times_less_eq_dividend [of "n + (?c - 1)" ?c] by linarith
  ultimately show ?thesis using ByteCount_nat [OF assms] by blast
qed

theorem ByteCount_exact_witness:
  "\<exists>blocks. unat (ByteCount ET_Q4_B32T1A (of_nat 33)) = blocks * 20 \<and> 33 \<le> blocks * 32 \<and> blocks * 32 < 65"
  using ByteCount_exact [of 33 ET_Q4_B32T1A] by (simp add: BlockCapacity_def capacity_defs)

text \<open>
  A tensor may be stored row by row: when a row is a whole number of blocks, the bytes of
  the tensor are the bytes of one row times the number of rows.
\<close>

lemma ByteCount_rows:
  assumes "BlockCapacity etype dvd cols" and "rows * cols < 2 ^ 57"
  shows "unat (ByteCount etype (of_nat (rows * cols))) = rows * unat (ByteCount etype (of_nat cols))"
  using assms by (rule ByteCount_rows_nat)

lemma ByteCount_rows_witness:
  "unat (ByteCount ET_Q4_B64T1 (of_nat (3 * 128))) = 3 * unat (ByteCount ET_Q4_B64T1 (of_nat 128))"
  by (rule ByteCount_rows [of ET_Q4_B64T1 128 3]) (simp_all add: BlockCapacity_def capacity_defs)

text \<open>
  The block layouts take the bits per element that their comments announce (the second list
  holds twice that number, 17 for 8.5 bits): the struct sizes include no padding.
\<close>

lemma effective_bits:
  "list_all2 (\<lambda>etype bits2. 16 * BlockSize etype = bits2 * BlockCapacity etype)
     [ET_Q8_B32T1, ET_Q8_B32T2, ET_Q6_B64T1, ET_Q5_B64T1, ET_Q5_B32T1, ET_Q4_B64T1, ET_Q4_B32T1A,
      ET_Q4_B32T1B, ET_Q4_B32T2, ET_Q4_B16, ET_Q3H_B64T1, ET_Q3_B32T1A, ET_Q3_B32T1B,
      ET_Q2_B32T1A, ET_Q2_B32T1B]
     [18, 17, 13, 11, 12, 9, 10, 10, 9, 10, 8, 8, 8, 6, 6]"
  by (simp add: BlockCapacity_def capacity_defs)

text \<open>
  C25. Names: every element type but the two pseudo types has a name, and the name is parsed
  back to the type, except for the four types whose name the parsing table does not know.
\<close>

theorem element_type_name_roundtrip:
  "case ElementTypeNameMap etype of
     None \<Rightarrow> etype \<in> {ET_Invalid, ET_Auto}
   | Some name \<Rightarrow> nocase_find InitElementTypeMap name =
       (if etype \<in> {ET_BF16, ET_I32, ET_I16, ET_Q4_B32P8} then None else Some etype)"
  by (cases etype) (simp_all add: ElementTypeNameMap_def find_element_type
      element_type_assignments_def nocase_key_def to_lower_def)

end
