(* ===== verification/CppString.thy ===== *)
theory CppString
  imports TensorCommon
begin

text \<open>
  Strings as the sources use them: \<open>std::string\<close> searches (\<open>npos\<close> is \<open>None\<close>), the helpers of
  src/3rd_party/sslib/string.cc (\<open>ReplaceAll\<close>, \<open>Split\<close>, \<open>Trim\<close>, \<open>CaseCmp\<close>) and the C
  function \<open>atoi\<close>. A \<open>std::string\<close> is a list of bytes; the helpers that take \<open>c_str()\<close> see
  the bytes before the first zero.
\<close>

section \<open>Searching\<close>

definition c_str :: "string \<Rightarrow> string" where
  "c_str s = takeWhile (\<lambda>c. c \<noteq> CHR 0x00) s"

primrec find_at :: "string \<Rightarrow> string \<Rightarrow> nat \<Rightarrow> nat option" where
  "find_at pat [] i = (if pat = [] then Some i else None)"
| "find_at pat (x # xs) i = (if prefix pat (x # xs) then Some i else find_at pat xs (Suc i))"

text \<open>\<open>text.find(pat, pos)\<close>.\<close>

definition str_find :: "string \<Rightarrow> string \<Rightarrow> nat \<Rightarrow> nat option" where
  "str_find text pat pos = (if length text < pos then None else find_at pat (drop pos text) pos)"

text \<open>\<open>text.substr(pos, n)\<close> for a position inside the text.\<close>

definition substr :: "string \<Rightarrow> nat \<Rightarrow> nat \<Rightarrow> string" where
  "substr text pos n = take n (drop pos text)"

lemma find_at_Some:
  "find_at pat s i = Some j \<longleftrightarrow>
    i \<le> j \<and> j - i \<le> length s \<and> prefix pat (drop (j - i) s) \<and> (\<forall>k < j - i. \<not> prefix pat (drop k s))"
proof (induction s arbitrary: i)
  case (Cons x xs)
  show ?case
  proof (cases "prefix pat (x # xs)")
    case True
    then have "(\<forall>k < j - i. \<not> prefix pat (drop k (x # xs))) \<longleftrightarrow> j - i = 0" by (metis drop0 gr0I not_less0)
    with True show ?thesis by auto
  next
    case False
    have "(\<forall>k < j - i. \<not> prefix pat (drop k (x # xs))) \<longleftrightarrow> (\<forall>k < j - Suc i. \<not> prefix pat (drop k xs))"
      if "Suc i \<le> j"
    proof -
      have "j - i = Suc (j - Suc i)" using that by simp
      then show ?thesis using False by (simp add: All_less_Suc2)
    qed
    moreover have "prefix pat (drop (j - i) (x # xs)) \<longleftrightarrow> prefix pat (drop (j - Suc i) xs)" if "Suc i \<le> j"
      using that by (metis Suc_diff_Suc Suc_le_lessD drop_Suc_Cons)
    ultimately show ?thesis using False Cons.IH [of "Suc i"]
      by (cases "i = j") (auto simp: Suc_le_eq)
  qed
qed auto

lemma find_at_None: "find_at pat s i = None \<longleftrightarrow> \<not> sublist pat s"
  by (induction s arbitrary: i) (auto simp: sublist_Cons_right)

lemma find_at_shift: "find_at pat s i = map_option (\<lambda>j. j + i) (find_at pat s 0)"
proof (induction s arbitrary: i)
  case (Cons x xs)
  show ?case using Cons.IH [of "Suc i"] Cons.IH [of "Suc 0"]
    by (auto simp: option.map_comp o_def)
qed simp

lemma str_find_Some:
  "str_find text pat pos = Some j \<Longrightarrow> pos \<le> j \<and> j + length pat \<le> length text \<and> prefix pat (drop j text)"
  using prefix_length_le [of pat "drop j text"]
  by (auto simp: str_find_def find_at_Some split: if_splits)

section \<open>Replacing\<close>

text \<open>
  The loop of \<open>ReplaceAll\<close>: it searches again behind the inserted text. With an empty search
  string it never returns, which is the value \<open>None\<close>.
\<close>

partial_function (option) ReplaceAll_loop :: "string \<Rightarrow> string \<Rightarrow> string \<Rightarrow> nat \<Rightarrow> string option" where
  "ReplaceAll_loop str src tgt begin_pos =
     (case str_find str src begin_pos of
        None \<Rightarrow> Some str
      | Some idx \<Rightarrow> ReplaceAll_loop (take idx str @ tgt @ drop (idx + length src) str) src tgt
          (idx + length tgt))"

declare ReplaceAll_loop.simps [code]

definition ReplaceAll :: "string \<Rightarrow> string \<Rightarrow> string \<Rightarrow> string option" where
  "ReplaceAll str src tgt = ReplaceAll_loop str (c_str src) (c_str tgt) 0"

text \<open>Left to right replacement of the non-overlapping occurrences, as a function on lists.\<close>

function replace_rest :: "string \<Rightarrow> string \<Rightarrow> string \<Rightarrow> string" where
  "replace_rest src tgt [] = []"
| "replace_rest src tgt (x # xs) =
     (if src \<noteq> [] \<and> prefix src (x # xs)
      then tgt @ replace_rest src tgt (drop (length src) (x # xs))
      else x # replace_rest src tgt xs)"
  by pat_completeness auto
termination
  by (relation "measure (\<lambda>(f, t, s). length s)") auto

lemma replace_rest_find:
  assumes "f \<noteq> []"
  shows "replace_rest f t s = (case find_at f s 0 of None \<Rightarrow> s
    | Some i \<Rightarrow> take i s @ t @ replace_rest f t (drop (i + length f) s))"
proof (induction s)
  case (Cons x xs)
  show ?case
  proof (cases "prefix f (x # xs)")
    case True
    then show ?thesis using assms by simp
  next
    case False
    then show ?thesis using Cons.IH by (auto simp: find_at_shift [of f xs "Suc 0"] split: option.splits)
  qed
qed (use assms in simp)

lemma ReplaceAll_loop_returns:
  assumes "f \<noteq> []"
  shows "ReplaceAll_loop (pre @ s) f t (length pre) = Some (pre @ replace_rest f t s)"
proof (induction s arbitrary: pre rule: length_induct)
  case (1 s)
  have find: "str_find (pre @ s) f (length pre) = map_option (\<lambda>j. j + length pre) (find_at f s 0)"
    by (simp add: str_find_def find_at_shift [of f s "length pre"])
  show ?case
  proof (cases "find_at f s 0")
    case None
    then show ?thesis using find assms
      by (subst ReplaceAll_loop.simps) (simp add: replace_rest_find [of f t s])
  next
    case (Some i)
    then have pr: "prefix f (drop i s)" "i \<le> length s" by (simp_all add: find_at_Some)
    then have "s \<noteq> []" using assms by auto
    let ?s = "drop (i + length f) s"
    have "length ?s < length s" using assms \<open>s \<noteq> []\<close> by simp
    with 1 have IH: "ReplaceAll_loop ((pre @ take i s @ t) @ ?s) f t (length (pre @ take i s @ t))
        = Some ((pre @ take i s @ t) @ replace_rest f t ?s)" by blast
    have "ReplaceAll_loop (pre @ s) f t (length pre)
        = ReplaceAll_loop ((pre @ take i s @ t) @ ?s) f t (length (pre @ take i s @ t))"
      using find Some pr(2) by (subst ReplaceAll_loop.simps) (simp add: ac_simps min_def)
    with IH Some assms show ?thesis by (simp add: replace_rest_find [of f t s])
  qed
qed

lemma ReplaceAll_eq:
  "c_str f \<noteq> [] \<Longrightarrow> ReplaceAll s f t = Some (replace_rest (c_str f) (c_str t) s)"
  using ReplaceAll_loop_returns [of "c_str f" "[]" s "c_str t"] by (simp add: ReplaceAll_def)

lemma replace_rest_absent: "\<not> sublist f s \<Longrightarrow> replace_rest f t s = s"
  by (cases "f = []") (auto simp: replace_rest_find [of f t s] find_at_None [of f s 0, symmetric])

lemma c_str_id: "CHR 0x00 \<notin> set s \<Longrightarrow> c_str s = s"
  by (auto simp: c_str_def takeWhile_eq_all_conv)

section \<open>Splitting and trimming\<close>

text \<open>The loop of \<open>Split\<close> keeps empty items: one item per delimiter, and the last one.\<close>

primrec split_items :: "string \<Rightarrow> string \<Rightarrow> string \<Rightarrow> string list" where
  "split_items delims [] item = [item]"
| "split_items delims (ch # rest) item =
     (if ch \<in> set delims then item # split_items delims rest [] else split_items delims rest (item @ [ch]))"

definition Split :: "string \<Rightarrow> string \<Rightarrow> string list" where
  "Split str delims = (if str = [] then [] else split_items delims str [])"

definition trim_chars :: string where
  "trim_chars = '' '' @ [CHR 0x0D, CHR 0x0A, CHR 0x09]"

definition TrimLeft :: "string \<Rightarrow> string \<Rightarrow> string" where
  "TrimLeft str target = dropWhile (\<lambda>c. c \<in> set target) str"

definition TrimRight :: "string \<Rightarrow> string \<Rightarrow> string" where
  "TrimRight str target = rev (dropWhile (\<lambda>c. c \<in> set target) (rev str))"

definition Trim :: "string \<Rightarrow> string" where
  "Trim str = TrimRight (TrimLeft str trim_chars) trim_chars"

definition CaseCmp_eq :: "string \<Rightarrow> string \<Rightarrow> bool" where
  "CaseCmp_eq s t \<longleftrightarrow> nocase_key s = nocase_key t"

lemma split_items_length:
  "length (split_items delims s item) = Suc (length (filter (\<lambda>c. c \<in> set delims) s))"
  by (induction s arbitrary: item) auto

lemma split_items_no_delim:
  "set item \<inter> set delims = {} \<Longrightarrow> it \<in> set (split_items delims s item) \<Longrightarrow> set it \<inter> set delims = {}"
proof (induction s arbitrary: item)
  case (Cons ch s)
  then show ?case
    using Cons.IH [of "[]"] Cons.IH [of "item @ [ch]"] by (auto split: if_splits)
qed simp

lemma split_items_concat:
  "concat (split_items delims s item) = item @ filter (\<lambda>c. c \<notin> set delims) s"
  by (induction s arbitrary: item) auto

section \<open>Numbers\<close>

definition is_digit :: "char \<Rightarrow> bool" where
  "is_digit c \<longleftrightarrow> 48 \<le> (of_char c :: nat) \<and> (of_char c :: nat) \<le> 57"

definition is_space :: "char \<Rightarrow> bool" where
  "is_space c \<longleftrightarrow> (of_char c :: nat) = 32 \<or> 9 \<le> (of_char c :: nat) \<and> (of_char c :: nat) \<le> 13"

definition digits_value :: "string \<Rightarrow> int" where
  "digits_value s = fold (\<lambda>c v. 10 * v + ((of_char c :: int) - 48)) (takeWhile is_digit s) 0"

text \<open>\<open>atoi\<close> is \<open>(int)strtol(s, NULL, 10)\<close>: the value is clamped to 64 bits, then cut to 32.\<close>

definition atoi :: "string \<Rightarrow> int" where
  "atoi s =
     (let r = dropWhile is_space s;
          v = (case r of
                 [] \<Rightarrow> 0
               | c # cs \<Rightarrow> if c = CHR ''-'' then - digits_value cs
                           else if c = CHR ''+'' then digits_value cs else digits_value r);
          l = max (- (2 ^ 63)) (min (2 ^ 63 - 1) v)
      in (l + 2 ^ 31) mod 2 ^ 32 - 2 ^ 31)"

end
