(* ===== verification/ConfigData.thy ===== *)
theory ConfigData
  imports CppString "HOL-Library.Monad_Syntax"
begin

text \<open>
  The configuration reader (src/3rd_party/sslib/config_data.h and .cc): an INI-like file of
  sections and items whose values may refer to macros as \<open>${name}\<close> or \<open>$(name)\<close>. The input of
  \<open>Load\<close> is the list of lines the stream delivers. The comments and the order numbers, which
  only \<open>Store\<close> reads, are left out. A value whose macro expansion does not end is \<open>None\<close>.
\<close>

section \<open>State\<close>

text \<open>A section maps case-insensitive keys to values.\<close>

type_synonym cfg_items = "(string, string) omap"

record CfgData =
  cfg_groups :: "(string, cfg_items) omap"
  cfg_enable_explicit_macros :: bool
  cfg_macros :: "(string, string) omap"

definition new_CfgData :: CfgData where
  "new_CfgData = \<lparr>cfg_groups = [], cfg_enable_explicit_macros = True, cfg_macros = []\<rparr>"

section \<open>Loading\<close>

definition IsGroupNameLine :: "string \<Rightarrow> bool" where
  "IsGroupNameLine line \<longleftrightarrow> (case line of [] \<Rightarrow> False | c # _ \<Rightarrow> c = CHR ''['') \<and> str_find line '']'' 0 \<noteq> None"

text \<open>The name between the brackets; the previous name when the brackets do not match.\<close>

definition ParseGroupLine :: "string \<Rightarrow> string \<Rightarrow> string" where
  "ParseGroupLine line name =
     (case (str_find line ''['' 0, str_find line '']'' 0) of
        (Some b, Some e) \<Rightarrow> if e > b then substr line (b + 1) (e - b - 1) else name
      | _ \<Rightarrow> name)"

text \<open>Success, and the item: without \<open>=\<close> the item of the previous line is kept.\<close>

definition ParseItemLine :: "string \<Rightarrow> string \<times> string \<Rightarrow> bool \<times> (string \<times> string)" where
  "ParseItemLine line item =
     (case str_find line ''='' 0 of
        None \<Rightarrow> (False, item)
      | Some pos \<Rightarrow>
          let key = Trim (take pos line); value = Trim (drop (pos + 1) line)
          in (key \<noteq> [], (key, value)))"

primrec Load_loop :: "string list \<Rightarrow> string \<Rightarrow> cfg_items \<Rightarrow> string \<times> string \<Rightarrow> CfgData \<Rightarrow> bool \<times> CfgData" where
  "Load_loop [] name items item cfg =
     (True, if items \<noteq> [] then cfg\<lparr>cfg_groups := nocase_put name items (cfg_groups cfg)\<rparr> else cfg)"
| "Load_loop (raw # lines) name items item cfg =
     (let line = Trim raw
      in if line = [] \<or> hd line = CHR ''#'' \<or> hd line = CHR '';''
         then Load_loop lines name items item cfg
         else if IsGroupNameLine line
         then Load_loop lines (ParseGroupLine line name) [] item
                (if items \<noteq> [] then cfg\<lparr>cfg_groups := nocase_put name items (cfg_groups cfg)\<rparr> else cfg)
         else
           let (ok, item') = ParseItemLine line item;
               items' = nocase_put (fst item') (snd item') items;
               cfg' = cfg\<lparr>cfg_macros := nocase_put (name @ ''/'' @ fst item') (snd item') (cfg_macros cfg)\<rparr>
           in if ok then Load_loop lines name items' item' cfg'
              else (False, cfg'\<lparr>cfg_groups := nocase_put name items' (cfg_groups cfg')\<rparr>))"

definition Load :: "CfgData \<Rightarrow> string list \<Rightarrow> bool \<times> CfgData" where
  "Load cfg lines = Load_loop lines [] [] ([], []) (cfg\<lparr>cfg_groups := []\<rparr>)"

definition AddMacro :: "CfgData \<Rightarrow> string \<Rightarrow> string \<Rightarrow> bool \<times> CfgData" where
  "AddMacro cfg name value =
     (if name = [] then (False, cfg)
      else (True, cfg\<lparr>cfg_macros := nocase_put name value (cfg_macros cfg)\<rparr>))"

section \<open>Macro expansion\<close>

definition find_macro :: "(string, string) omap \<Rightarrow> string \<Rightarrow> string \<Rightarrow> string option" where
  "find_macro macros grp name =
     (case nocase_find macros name of
        Some v \<Rightarrow> Some v
      | None \<Rightarrow> nocase_find macros (grp @ ''/'' @ name))"

text \<open>
  The character loop of \<open>TransItemValue\<close>. A macro value is expanded with the depth before the
  increment (\<open>depth++\<close>), and the increment only counts the macros of the current value.
\<close>

partial_function (option) TransItemValue_loop ::
  "(string, string) omap \<Rightarrow> string \<Rightarrow> string \<Rightarrow> bool \<Rightarrow> string \<Rightarrow> string \<Rightarrow> int \<Rightarrow> string option" where
  "TransItemValue_loop macros grp rest is_in_macro cur ret_str depth =
     (case rest of
        [] \<Rightarrow> Some ret_str
      | ch # rest' \<Rightarrow>
          if is_in_macro then
            (if ch = CHR '')'' \<or> ch = CHR ''}'' then
               (case find_macro macros grp cur of
                  Some v \<Rightarrow>
                    if depth < 10 then
                      Option.bind (TransItemValue_loop macros grp v False [] [] depth) (\<lambda>r.
                        TransItemValue_loop macros grp rest' False [] (ret_str @ r) (depth + 1))
                    else TransItemValue_loop macros grp rest' False [] (ret_str @ v) depth
                | None \<Rightarrow> TransItemValue_loop macros grp rest' False [] (ret_str @ cur) depth)
             else TransItemValue_loop macros grp rest' True (cur @ [ch]) ret_str depth)
          else if ch = CHR ''$'' \<and> (case rest' of [] \<Rightarrow> False | c # _ \<Rightarrow> c = CHR ''('' \<or> c = CHR ''{'')
            then TransItemValue_loop macros grp (tl rest') True cur ret_str depth
            else TransItemValue_loop macros grp rest' False cur (ret_str @ [ch]) depth)"

declare TransItemValue_loop.simps [code]

definition TransItemValue :: "CfgData \<Rightarrow> string \<Rightarrow> string \<Rightarrow> string option" where
  "TransItemValue cfg value grp =
     (if cfg_enable_explicit_macros cfg \<and> cfg_macros cfg \<noteq> []
      then TransItemValue_loop (cfg_macros cfg) grp value False [] [] 0
      else Some value)"

section \<open>Reading items\<close>

definition GetItemInner :: "CfgData \<Rightarrow> string \<Rightarrow> string \<Rightarrow> string option" where
  "GetItemInner cfg sect key =
     (case nocase_find (cfg_groups cfg) sect of
        None \<Rightarrow> None
      | Some items \<Rightarrow> nocase_find items key)"

text \<open>
  \<open>GetItem\<close> returns the flag and the value the output argument has afterwards: the old one
  when the item does not exist.
\<close>

definition GetItem_str :: "CfgData \<Rightarrow> string \<Rightarrow> string \<Rightarrow> string \<Rightarrow> (bool \<times> string) option" where
  "GetItem_str cfg sect key old =
     (case GetItemInner cfg sect key of
        None \<Rightarrow> Some (False, old)
      | Some v \<Rightarrow> map_option (Pair True) (TransItemValue cfg v sect))"

definition GetItem_int :: "CfgData \<Rightarrow> string \<Rightarrow> string \<Rightarrow> int \<Rightarrow> (bool \<times> int) option" where
  "GetItem_int cfg sect key old =
     (case GetItemInner cfg sect key of
        None \<Rightarrow> Some (False, old)
      | Some v \<Rightarrow> map_option (\<lambda>s. (True, atoi (c_str s))) (TransItemValue cfg v sect))"

definition GetItem_bool :: "CfgData \<Rightarrow> string \<Rightarrow> string \<Rightarrow> bool \<Rightarrow> (bool \<times> bool) option" where
  "GetItem_bool cfg sect key old =
     (case GetItemInner cfg sect key of
        None \<Rightarrow> Some (False, old)
      | Some v \<Rightarrow> map_option (\<lambda>s. (True,
          CaseCmp_eq s ''true'' \<or> CaseCmp_eq s ''yes'' \<or> atoi (c_str s) \<noteq> 0)) (TransItemValue cfg v sect))"

text \<open>The decimal text \<open>snprintf\<close> writes for the index.\<close>

fun nat_to_str :: "nat \<Rightarrow> string" where
  "nat_to_str n = (if n < 10 then [char_of (48 + n)] else nat_to_str (n div 10) @ [char_of (48 + n mod 10)])"

definition int_to_str :: "int \<Rightarrow> string" where
  "int_to_str i = (if i < 0 then CHR ''-'' # nat_to_str (nat (- i)) else nat_to_str (nat i))"

text \<open>
  \<open>GetItems\<close>: the values of the items \<open>key_base<idx>\<close>. With a bound all indices up to it are
  tried and the flag tells whether all exist; with a negative bound the first missing item ends
  the list. The key is cut to the 254 characters of the buffer.
\<close>

partial_function (option) GetItems_loop ::
  "CfgData \<Rightarrow> string \<Rightarrow> string \<Rightarrow> int \<Rightarrow> int \<Rightarrow> bool \<Rightarrow> string list \<Rightarrow> (bool \<times> string list) option" where
  "GetItems_loop cfg sect key_base to_idx idx ret value_list =
     (if to_idx < 0 \<or> idx \<le> to_idx then
        (case GetItemInner cfg sect (take 254 (key_base @ int_to_str idx)) of
           Some v \<Rightarrow> Option.bind (TransItemValue cfg v sect) (\<lambda>s.
             GetItems_loop cfg sect key_base to_idx (idx + 1) ret (value_list @ [s]))
         | None \<Rightarrow> if to_idx < 0 then Some (ret, value_list)
             else GetItems_loop cfg sect key_base to_idx (idx + 1) False value_list)
      else Some (ret, value_list))"

declare GetItems_loop.simps [code]

definition GetItems :: "CfgData \<Rightarrow> string \<Rightarrow> string \<Rightarrow> int \<Rightarrow> int \<Rightarrow> (bool \<times> string list) option" where
  "GetItems cfg sect key_base from_idx to_idx =
     GetItems_loop cfg sect key_base to_idx from_idx True []"

section \<open>Expansion ends when macro values hold no macro\<close>

lemma TransItemValue_loop_plain:
  "CHR ''$'' \<notin> set rest \<Longrightarrow> TransItemValue_loop macros grp rest False cur acc depth = Some (acc @ rest)"
proof (induction rest arbitrary: acc)
  case Nil
  show ?case by (subst TransItemValue_loop.simps) simp
next
  case (Cons ch rest)
  then show ?case by (subst TransItemValue_loop.simps) auto
qed

text \<open>What the loop computes on flat macros: every reference replaced by its value, or by its name.\<close>

fun expand_flat :: "(string \<Rightarrow> string) \<Rightarrow> string \<Rightarrow> bool \<Rightarrow> string \<Rightarrow> string" where
  "expand_flat val [] in_macro cur = []"
| "expand_flat val (ch # rest) True cur =
     (if ch = CHR '')'' \<or> ch = CHR ''}'' then val cur @ expand_flat val rest False []
      else expand_flat val rest True (cur @ [ch]))"
| "expand_flat val [ch] False cur = [ch]"
| "expand_flat val (ch # c # rest) False cur =
     (if ch = CHR ''$'' \<and> (c = CHR ''('' \<or> c = CHR ''{'') then expand_flat val rest True cur
      else ch # expand_flat val (c # rest) False cur)"

text \<open>The names a value refers to.\<close>

fun macro_refs :: "string \<Rightarrow> bool \<Rightarrow> string \<Rightarrow> string list" where
  "macro_refs [] in_macro cur = []"
| "macro_refs (ch # rest) True cur =
     (if ch = CHR '')'' \<or> ch = CHR ''}'' then cur # macro_refs rest False []
      else macro_refs rest True (cur @ [ch]))"
| "macro_refs [ch] False cur = []"
| "macro_refs (ch # c # rest) False cur =
     (if ch = CHR ''$'' \<and> (c = CHR ''('' \<or> c = CHR ''{'') then macro_refs rest True cur
      else macro_refs (c # rest) False cur)"

definition macro_value :: "(string, string) omap \<Rightarrow> string \<Rightarrow> string \<Rightarrow> string" where
  "macro_value macros grp name = (case find_macro macros grp name of Some v \<Rightarrow> v | None \<Rightarrow> name)"

text \<open>One step of the loop, for the four shapes of its state.\<close>

lemma TransItemValue_loop_Nil: "TransItemValue_loop macros grp [] in_macro cur acc depth = Some acc"
  by (subst TransItemValue_loop.simps) simp

lemma TransItemValue_loop_in_macro:
  "TransItemValue_loop macros grp (ch # rest) True cur acc depth =
     (if ch = CHR '')'' \<or> ch = CHR ''}'' then
        (case find_macro macros grp cur of
           Some v \<Rightarrow>
             if depth < 10 then
               Option.bind (TransItemValue_loop macros grp v False [] [] depth) (\<lambda>r.
                 TransItemValue_loop macros grp rest False [] (acc @ r) (depth + 1))
             else TransItemValue_loop macros grp rest False [] (acc @ v) depth
         | None \<Rightarrow> TransItemValue_loop macros grp rest False [] (acc @ cur) depth)
      else TransItemValue_loop macros grp rest True (cur @ [ch]) acc depth)"
  by (subst TransItemValue_loop.simps) simp

lemma TransItemValue_loop_outside:
  "TransItemValue_loop macros grp [ch] False cur acc depth = Some (acc @ [ch])"
  "TransItemValue_loop macros grp (ch # c # rest) False cur acc depth =
     (if ch = CHR ''$'' \<and> (c = CHR ''('' \<or> c = CHR ''{'')
      then TransItemValue_loop macros grp rest True cur acc depth
      else TransItemValue_loop macros grp (c # rest) False cur (acc @ [ch]) depth)"
  by (subst TransItemValue_loop.simps, simp add: TransItemValue_loop_Nil)
    (subst TransItemValue_loop.simps, auto)

lemmas TransItemValue_steps =
  TransItemValue_loop_Nil TransItemValue_loop_in_macro TransItemValue_loop_outside

lemma TransItemValue_loop_returns:
  assumes "\<And>name v d. name \<in> set (macro_refs rest in_macro cur) \<Longrightarrow> find_macro macros grp name = Some v \<Longrightarrow>
    \<exists>r. TransItemValue_loop macros grp v False [] [] d = Some r"
  shows "\<exists>r. TransItemValue_loop macros grp rest in_macro cur acc depth = Some r"
  using assms
proof (induction rest in_macro cur arbitrary: acc depth rule: macro_refs.induct)
  case (2 ch rest cur)
  show ?case
  proof (cases "ch = CHR '')'' \<or> ch = CHR ''}''")
    case True
    have rest: "\<exists>r. TransItemValue_loop macros grp rest False [] a d = Some r" for a d
      by (rule 2(1) [OF True]) (use 2(3) True in auto)
    show ?thesis
    proof (cases "find_macro macros grp cur")
      case (Some v)
      have "\<exists>r. TransItemValue_loop macros grp v False [] [] depth = Some r"
        using 2(3) [of cur v] True Some by simp
      then show ?thesis using True Some rest by (auto simp: TransItemValue_loop_in_macro)
    qed (use True rest in \<open>simp add: TransItemValue_loop_in_macro\<close>)
  next
    case False
    then show ?thesis using 2(2) [OF False] 2(3) by (simp add: TransItemValue_loop_in_macro)
  qed
next
  case (4 ch c rest cur)
  then show ?case
    by (cases "ch = CHR ''$'' \<and> (c = CHR ''('' \<or> c = CHR ''{'')") (auto simp: TransItemValue_loop_outside)
qed (simp_all add: TransItemValue_steps)

text \<open>A value can be expanded when the references form no cycle.\<close>

inductive expandable :: "(string, string) omap \<Rightarrow> string \<Rightarrow> string \<Rightarrow> bool"
  for macros :: "(string, string) omap" and grp :: string where
  "(\<And>name w. name \<in> set (macro_refs v False []) \<Longrightarrow> find_macro macros grp name = Some w \<Longrightarrow>
      expandable macros grp w) \<Longrightarrow> expandable macros grp v"

lemma expandable_returns:
  "expandable macros grp v \<Longrightarrow> \<exists>r. TransItemValue_loop macros grp v False [] acc depth = Some r"
  by (induction arbitrary: acc depth rule: expandable.induct) (rule TransItemValue_loop_returns, blast)

lemma TransItemValue_loop_flat:
  assumes "\<And>name v. name \<in> set (macro_refs rest in_macro cur) \<Longrightarrow> find_macro macros grp name = Some v \<Longrightarrow>
    CHR ''$'' \<notin> set v"
  shows "TransItemValue_loop macros grp rest in_macro cur acc depth
    = Some (acc @ expand_flat (macro_value macros grp) rest in_macro cur)"
  using assms
proof (induction rest in_macro cur arbitrary: acc depth rule: macro_refs.induct)
  case (2 ch rest cur)
  show ?case
  proof (cases "ch = CHR '')'' \<or> ch = CHR ''}''")
    case True
    have rest: "TransItemValue_loop macros grp rest False [] a d
        = Some (a @ expand_flat (macro_value macros grp) rest False [])" for a d
      by (rule 2(1) [OF True]) (use 2(3) True in auto)
    show ?thesis
    proof (cases "find_macro macros grp cur")
      case (Some v)
      have "CHR ''$'' \<notin> set v" "macro_value macros grp cur = v"
        using 2(3) [of cur v] True Some by (simp_all add: macro_value_def)
      then show ?thesis using True Some rest
        by (simp add: TransItemValue_loop_in_macro TransItemValue_loop_plain)
    next
      case None
      then have "macro_value macros grp cur = cur" by (simp add: macro_value_def)
      with None True rest show ?thesis by (simp add: TransItemValue_loop_in_macro)
    qed
  next
    case False
    then show ?thesis using 2(2) [OF False] 2(3) by (simp add: TransItemValue_loop_in_macro)
  qed
next
  case (4 ch c rest cur)
  then show ?case
    by (cases "ch = CHR ''$'' \<and> (c = CHR ''('' \<or> c = CHR ''{'')") (auto simp: TransItemValue_loop_outside)
qed (simp_all add: TransItemValue_steps)

section \<open>A macro that refers to itself\<close>

text \<open>The states the loop passes through while it expands the reference.\<close>

definition self_cycle :: "string \<Rightarrow> bool \<Rightarrow> string \<Rightarrow> bool" where
  "self_cycle rest in_macro cur \<longleftrightarrow>
     rest = ''${a}'' \<and> \<not> in_macro \<and> cur = [] \<or> rest = ''a}'' \<and> in_macro \<and> cur = []
     \<or> rest = ''}'' \<and> in_macro \<and> cur = ''a''"

lemma self_macro_not_Some:
  assumes "TransItemValue_loop m g rest in_macro cur acc d = Some r"
  shows "find_macro m g ''a'' = Some ''${a}'' \<longrightarrow> d = 0 \<longrightarrow> \<not> self_cycle rest in_macro cur"
proof (rule TransItemValue_loop.raw_induct [OF _ assms, where P = "\<lambda>m g rest in_macro cur acc d r.
    find_macro m g ''a'' = Some ''${a}'' \<longrightarrow> d = 0 \<longrightarrow> \<not> self_cycle rest in_macro cur"], intro impI)
  fix loop m g rest in_macro cur acc and d :: int and r
  assume IH: "\<And>m g rest in_macro cur acc d r. loop m g rest in_macro cur acc d = Some r \<Longrightarrow>
      find_macro m g ''a'' = Some ''${a}'' \<longrightarrow> d = 0 \<longrightarrow> \<not> self_cycle rest in_macro cur"
    and find: "find_macro m g ''a'' = Some ''${a}''" "d = 0"
    and body: "(case rest of [] \<Rightarrow> Some acc
      | ch # rest' \<Rightarrow>
          if in_macro then
            (if ch = CHR '')'' \<or> ch = CHR ''}'' then
               (case find_macro m g cur of
                  None \<Rightarrow> loop m g rest' False [] (acc @ cur) d
                | Some v \<Rightarrow>
                    if d < 10 then
                      Option.bind (loop m g v False [] [] d) (\<lambda>r. loop m g rest' False [] (acc @ r) (d + 1))
                    else loop m g rest' False [] (acc @ v) d)
             else loop m g rest' True (cur @ [ch]) acc d)
          else if ch = CHR ''$'' \<and> (case rest' of [] \<Rightarrow> False | c # _ \<Rightarrow> c = CHR ''('' \<or> c = CHR ''{'')
            then loop m g (tl rest') True cur acc d
            else loop m g rest' False cur (acc @ [ch]) d) = Some r"
  have "loop m g ''a}'' True [] a 0 \<noteq> Some x" "loop m g ''}'' True ''a'' a 0 \<noteq> Some x"
    "loop m g ''${a}'' False [] a 0 \<noteq> Some x" for a x
    using IH [of m g _ _ _ a 0 x] find(1) by (fastforce simp: self_cycle_def)+
  then show "\<not> self_cycle rest in_macro cur"
    using body find unfolding self_cycle_def by (auto simp: bind_eq_Some_conv)
qed

lemma self_macro_diverges:
  "find_macro m g ''a'' = Some ''${a}'' \<Longrightarrow> TransItemValue_loop m g ''${a}'' False [] acc 0 = None"
  using self_macro_not_Some [of m g "''${a}''" False "[]" acc 0]
  by (cases "TransItemValue_loop m g ''${a}'' False [] acc 0") (auto simp: self_cycle_def)

section \<open>Properties\<close>

text \<open>
  C20. Reading an item always ends when its macro references form no cycle; with flat macros
  (no referenced value refers on) it yields the value with every reference replaced by the
  macro's value, or by the bare name when there is no such macro.
\<close>

theorem GetItem_expands:
  assumes "GetItemInner cfg sect key = Some v"
    and "cfg_enable_explicit_macros cfg" and "cfg_macros cfg \<noteq> []"
    and "expandable (cfg_macros cfg) sect v"
  shows "(\<exists>r. GetItem_str cfg sect key old = Some (True, r))
    \<and> ((\<forall>name \<in> set (macro_refs v False []). CHR ''$'' \<notin> set (macro_value (cfg_macros cfg) sect name)) \<longrightarrow>
       GetItem_str cfg sect key old = Some (True, expand_flat (macro_value (cfg_macros cfg) sect) v False []))"
proof -
  have "GetItem_str cfg sect key old = map_option (Pair True) (TransItemValue_loop (cfg_macros cfg) sect v False [] [] 0)"
    using assms(1-3) by (simp add: GetItem_str_def TransItemValue_def)
  moreover have "TransItemValue_loop (cfg_macros cfg) sect v False [] [] 0
      = Some ([] @ expand_flat (macro_value (cfg_macros cfg) sect) v False [])"
    if "\<forall>name \<in> set (macro_refs v False []). CHR ''$'' \<notin> set (macro_value (cfg_macros cfg) sect name)"
    using that by (intro TransItemValue_loop_flat) (auto simp: macro_value_def)
  ultimately show ?thesis using expandable_returns [OF assms(4), of "[]" 0] by auto
qed

definition sample_cfg :: CfgData where
  "sample_cfg = \<lparr>cfg_groups = [(''m.x'', [(''path'', ''$(dir)/m${nr}'')])],
     cfg_enable_explicit_macros = True,
     cfg_macros = [(''dir'', ''/data''), (''m.x/path'', ''$(dir)/m${nr}'')]\<rparr>"

lemma sample_cfg_macro: "find_macro (cfg_macros sample_cfg) ''m.x'' ''dir'' = Some ''/data''"
  "find_macro (cfg_macros sample_cfg) ''m.x'' ''nr'' = None"
  by (simp_all add: sample_cfg_def find_macro_def nocase_find_def omap_find_Cons nocase_key_def to_lower_def)

lemma sample_cfg_expandable: "expandable (cfg_macros sample_cfg) ''m.x'' ''$(dir)/m${nr}''"
proof (rule expandable.intros)
  fix name w
  assume "name \<in> set (macro_refs ''$(dir)/m${nr}'' False [])"
    and found: "find_macro (cfg_macros sample_cfg) ''m.x'' name = Some w"
  then have "name = ''dir'' \<or> name = ''nr''" by auto
  with found have "w = ''/data''" by (auto simp: sample_cfg_macro)
  moreover have "macro_refs ''/data'' False [] = []" by simp
  ultimately show "expandable (cfg_macros sample_cfg) ''m.x'' w" by (metis expandable.intros empty_iff list.set(1))
qed

theorem GetItem_expands_witness:
  "GetItem_str sample_cfg ''m.x'' ''path'' [] = Some (True, ''/data/mnr'')"
proof -
  have "GetItemInner sample_cfg ''m.x'' ''path'' = Some ''$(dir)/m${nr}''"
    "cfg_enable_explicit_macros sample_cfg" "cfg_macros sample_cfg \<noteq> []"
    by (simp_all add: sample_cfg_def GetItemInner_def nocase_find_def omap_find_Cons nocase_key_def to_lower_def)
  from GetItem_expands [OF this sample_cfg_expandable, of "[]"]
  show ?thesis by (simp add: macro_value_def sample_cfg_macro)
qed

text \<open>
  C27. The depth limit of macro expansion does not stop a macro that refers to itself: for the
  configuration file with section s and the item a = ${a}, reading that item never returns.
\<close>

theorem self_reference_never_returns:
  "GetItem_str (snd (Load new_CfgData [''[s]'', ''a = ${a}''])) ''s'' ''a'' old = None"
proof -
  let ?cfg = "\<lparr>cfg_groups = [(''s'', [(''a'', ''${a}'')])], cfg_enable_explicit_macros = True,
     cfg_macros = [(''s/a'', ''${a}'')]\<rparr>"
  have "snd (Load new_CfgData [''[s]'', ''a = ${a}'']) = ?cfg" by code_simp
  moreover have "GetItemInner ?cfg ''s'' ''a'' = Some ''${a}''"
    "find_macro (cfg_macros ?cfg) ''s'' ''a'' = Some ''${a}''" by code_simp+
  ultimately show ?thesis by (simp add: GetItem_str_def TransItemValue_def self_macro_diverges)
qed

end
