(* ===== verification/ModelTypes.thy ===== *)
theory ModelTypes
  imports TensorCommon
begin

text \<open>
  Types of the model description: network types with their classification
  (src/src/transformer/network_structure.h and .cc), hyper-parameters and the part of
  the model specification that the engine reads (src/src/transformer/model.h), and the
  enumerations the specification refers to.
\<close>

section \<open>Network types\<close>

datatype NetworkType =
    NT_General
  | NT_Transformer
  | NT_EncoderDecoder_Transformer
  | NT_EncoderOnly_Transformer
  | NT_BERT
  | NT_DecoderOnly_Transformer
  | NT_BLOOM
  | NT_LLAMA
  | NT_SparseMoe_DecoderOnly_Transformer

text \<open>The enumerators are numbered in declaration order; the predicates compare numbers.\<close>

fun NetworkType_value :: "NetworkType \<Rightarrow> int" where
  "NetworkType_value NT_General = 0"
| "NetworkType_value NT_Transformer = 1"
| "NetworkType_value NT_EncoderDecoder_Transformer = 2"
| "NetworkType_value NT_EncoderOnly_Transformer = 3"
| "NetworkType_value NT_BERT = 4"
| "NetworkType_value NT_DecoderOnly_Transformer = 5"
| "NetworkType_value NT_BLOOM = 6"
| "NetworkType_value NT_LLAMA = 7"
| "NetworkType_value NT_SparseMoe_DecoderOnly_Transformer = 8"

definition IsEncoderDecoderTransformer :: "NetworkType \<Rightarrow> bool" where
  "IsEncoderDecoderTransformer t \<longleftrightarrow>
     NetworkType_value NT_EncoderDecoder_Transformer \<le> NetworkType_value t
     \<and> NetworkType_value t < NetworkType_value NT_EncoderOnly_Transformer"

definition IsEncoderOnlyTransformer :: "NetworkType \<Rightarrow> bool" where
  "IsEncoderOnlyTransformer t \<longleftrightarrow>
     NetworkType_value NT_EncoderOnly_Transformer \<le> NetworkType_value t
     \<and> NetworkType_value t < NetworkType_value NT_DecoderOnly_Transformer"

definition IsDecoderOnlyTransformer :: "NetworkType \<Rightarrow> bool" where
  "IsDecoderOnlyTransformer t \<longleftrightarrow>
     NetworkType_value NT_DecoderOnly_Transformer \<le> NetworkType_value t"

lemma network_kinds_disjoint:
  "\<not> (IsEncoderOnlyTransformer t \<and> IsDecoderOnlyTransformer t)"
  "\<not> (IsEncoderDecoderTransformer t \<and> IsDecoderOnlyTransformer t)"
  "\<not> (IsEncoderDecoderTransformer t \<and> IsEncoderOnlyTransformer t)"
  by (auto simp: IsEncoderOnlyTransformer_def IsDecoderOnlyTransformer_def
      IsEncoderDecoderTransformer_def)

section \<open>Enumerations of the model specification\<close>

datatype MultiGpuStrategy = MGS_BY_LAYER | MGS_BY_TENSOR | MGS_HYBRID

datatype TokenizationAlg =
    TA_Auto | TA_Std | TA_FMM | TA_FMM2 | TA_BPE | TA_ULM

section \<open>Hyper-parameters and the model specification\<close>

record ModelHyperParams =
  hp_vocab_size :: int
  hp_padded_vocab_size :: int
  hp_output_vocab_size :: int
  hp_embd_dims :: int
  hp_encoder_layers :: int
  hp_encoder_heads :: int
  hp_encoder_kv_heads :: int
  hp_decoder_layers :: int
  hp_decoder_heads :: int
  hp_hidden_dim :: int
  hp_decoder_kv_heads :: int
  hp_decoder_intermediate_size :: int
  hp_training_context_len :: int
  hp_experts :: int
  hp_in_use_experts :: int
  hp_moe_top_k :: int
  hp_moe_norm_top_k_prob :: bool
  hp_moe_layer_start :: int
  hp_moe_layer_end :: int
  hp_has_shared_expert :: bool

definition default_hparams :: ModelHyperParams where
  "default_hparams = \<lparr>hp_vocab_size = 0, hp_padded_vocab_size = 0, hp_output_vocab_size = 0,
     hp_embd_dims = 4096, hp_encoder_layers = 0, hp_encoder_heads = 0, hp_encoder_kv_heads = 0,
     hp_decoder_layers = 0, hp_decoder_heads = 0, hp_hidden_dim = 0, hp_decoder_kv_heads = 0,
     hp_decoder_intermediate_size = 0, hp_training_context_len = -1, hp_experts = 0,
     hp_in_use_experts = 0, hp_moe_top_k = 0, hp_moe_norm_top_k_prob = True, hp_moe_layer_start = 0,
     hp_moe_layer_end = -1, hp_has_shared_expert = False\<rparr>"

text \<open>
  The fields of \<open>ModelSpec\<close> that the modelled operations read or write: its identity, the default
  strategy and templates, the data types of the weights, and the placement on devices. The
  \<open>device_weight_data_types\<close> array is a list indexed by \<open>LayerTensorId\<close>.
\<close>

record ModelSpec =
  ms_sid :: string
  ms_hyper_params :: ModelHyperParams
  ms_dir :: string
  ms_spec_file :: string
  ms_tokenization_algorithm :: TokenizationAlg
  ms_network_structure :: NetworkType
  ms_decoding_strategy :: string
  ms_decoding_strategy_config :: string
  ms_encoder_input_template :: string
  ms_decoder_input_template :: string
  ms_be_host_embeddings :: bool
  ms_device_weight_data_type :: ElementType
  ms_device_weight_data_types :: "ElementType list"
  ms_device_kv_cache_data_type :: ElementType
  ms_host_weight_data_type :: ElementType
  ms_tensor_quant_threshold :: int
  ms_host_kv_cache_percent :: int
  ms_max_context_len :: int
  ms_multi_gpu_strategy :: MultiGpuStrategy
  ms_device_groups :: "int list list"
  ms_encoder_cpu_layer_count :: int
  ms_decoder_cpu_layer_count :: int

definition DEFAULT_MAX_CONTEXT_LEN :: int where
  "DEFAULT_MAX_CONTEXT_LEN = 1024"

definition default_ModelSpec :: ModelSpec where
  "default_ModelSpec = \<lparr>ms_sid = [], ms_hyper_params = default_hparams, ms_dir = [], ms_spec_file = [],
     ms_tokenization_algorithm = TA_BPE, ms_network_structure = NT_General,
     ms_decoding_strategy = [], ms_decoding_strategy_config = [],
     ms_encoder_input_template = [], ms_decoder_input_template = [], ms_be_host_embeddings = True,
     ms_device_weight_data_type = ET_F16, ms_device_weight_data_types = [],
     ms_device_kv_cache_data_type = ET_Q8_B32T2, ms_host_weight_data_type = ET_F16,
     ms_tensor_quant_threshold = 2000 * 2000, ms_host_kv_cache_percent = 0,
     ms_max_context_len = -1, ms_multi_gpu_strategy = MGS_BY_LAYER, ms_device_groups = [],
     ms_encoder_cpu_layer_count = -1, ms_decoder_cpu_layer_count = -1\<rparr>"

end
