(* ===== verification/NetworkStructure.thy ===== *)
theory NetworkStructure
  imports CppString ModelTypes ConfigData
begin

text \<open>
  Tensor names (src/src/transformer/network_structure.h and .cc): the table of tensor
  specifications, the maps from the tensor names of the model families to the standard names,
  their expansion for layers and experts, and the renaming of a loaded table. A function that
  fills a \<open>map\<close> by assignments is the list of its assignments, in the order of the code.
\<close>

section \<open>Tensor specifications\<close>

text \<open>The fields that identify a tensor; the rest of \<open>TensorSpec\<close> describes its storage.\<close>

record TensorSpec =
  ts_id :: int
  ts_name :: string
  ts_dims :: int
  ts_ne :: "int list"
  ts_data_type :: int
  ts_size :: u32
  ts_file_idx :: int
  ts_offset_in_file :: u64
  ts_flag :: int
  ts_data_type_host :: ElementType
  ts_data_type_device :: ElementType
  ts_data_source :: int
  ts_offset_in_data_source :: int
  ts_has_start_offset :: bool

definition new_TensorSpec :: TensorSpec where
  "new_TensorSpec = \<lparr>ts_id = 0, ts_name = [], ts_dims = 0, ts_ne = [0, 0, 0], ts_data_type = 0, ts_size = 0,
     ts_file_idx = 0, ts_offset_in_file = 0, ts_flag = 0, ts_data_type_host = ET_Auto,
     ts_data_type_device = ET_Auto, ts_data_source = -1, ts_offset_in_data_source = 0,
     ts_has_start_offset = False\<rparr>"

record TensorSpecTable =
  tensor_array_of :: "TensorSpec list"
  name2idx :: "(string, int) omap"

definition TST_Size :: "TensorSpecTable \<Rightarrow> int" where
  "TST_Size t = int (length (tensor_array_of t))"

definition TST_Add :: "TensorSpecTable \<Rightarrow> TensorSpec \<Rightarrow> int \<times> TensorSpecTable" where
  "TST_Add t spec =
     (case omap_find (name2idx t) (ts_name spec) of
        None \<Rightarrow>
          let ret_idx = int (length (tensor_array_of t))
          in (ret_idx, t\<lparr>tensor_array_of := tensor_array_of t @ [spec],
                name2idx := omap_put (ts_name spec) ret_idx (name2idx t)\<rparr>)
      | Some idx \<Rightarrow> (idx, t))"

definition TST_GetIndex :: "TensorSpecTable \<Rightarrow> string \<Rightarrow> int" where
  "TST_GetIndex t tensor_name = (case omap_find (name2idx t) tensor_name of None \<Rightarrow> -1 | Some idx \<Rightarrow> idx)"

section \<open>Identifiers of layer tensors\<close>

datatype LayerType = LT_SELF_ATTN | LT_CROSS_ATTN | LT_FFN | LT_MOE

datatype LayerTensorId =
    LTI_ATTN_PRE_NORM
  | LTI_ATTN_PRE_NORM_B
  | LTI_ATTN_POST_NORM
  | LTI_ATTN_POST_NORM_B
  | LTI_QKV
  | LTI_QKV_B
  | LTI_WQ
  | LTI_WQ_B
  | LTI_WK
  | LTI_WK_B
  | LTI_WV
  | LTI_WV_B
  | LTI_WO
  | LTI_WO_B
  | LTI_FFN_PRE_NORM
  | LTI_FFN_PRE_NORM_B
  | LTI_FFN_POST_NORM
  | LTI_FFN_POST_NORM_B
  | LTI_W1
  | LTI_W1_B
  | LTI_W2
  | LTI_W2_B
  | LTI_W3
  | LTI_W3_B
  | LTI_W1N3
  | LTI_W1N3_B
  | LTI_MOE_GATE
  | LTI_MOE_GATE_B
  | LTI_COUNT

definition BuildLayerTensorIdMap :: "(string, LayerTensorId) omap" where
  "BuildLayerTensorIdMap = nocase_table
     [(''attn_wq'', LTI_WQ), (''attn_wk'', LTI_WK), (''attn_wv'', LTI_WV), (''attn_wo'', LTI_WO),
      (''attn_wo'', LTI_WO), (''ffn_w1'', LTI_W1), (''ffn_w2'', LTI_W2), (''ffn_w3'', LTI_W3)]"

definition tensor_id_assignments :: "(string \<times> LayerType \<times> LayerTensorId) list" where
  "tensor_id_assignments =
    concat (map (\<lambda>(prefix, ty).
      [(prefix @ ''pre_norm.weight'', ty, LTI_ATTN_PRE_NORM),
       (prefix @ ''pre_norm.bias'', ty, LTI_ATTN_PRE_NORM_B),
       (prefix @ ''post_norm.weight'', ty, LTI_ATTN_POST_NORM),
       (prefix @ ''post_norm.bias'', ty, LTI_ATTN_POST_NORM_B),
       (prefix @ ''qkv.weight'', ty, LTI_QKV),
       (prefix @ ''qkv.bias'', ty, LTI_QKV_B),
       (prefix @ ''wq.weight'', ty, LTI_WQ),
       (prefix @ ''wq.bias'', ty, LTI_WQ_B),
       (prefix @ ''wk.weight'', ty, LTI_WK),
       (prefix @ ''wk.bias'', ty, LTI_WK_B),
       (prefix @ ''wv.weight'', ty, LTI_WV),
       (prefix @ ''wv.bias'', ty, LTI_WV_B),
       (prefix @ ''wo.weight'', ty, LTI_WO),
       (prefix @ ''wo.bias'', ty, LTI_WO_B)]) [(''self_attn.'', LT_SELF_ATTN), (''cross_attn.'', LT_CROSS_ATTN)]) @
    [(''feed_forward.pre_norm.weight'', LT_FFN, LTI_FFN_PRE_NORM),
     (''feed_forward.pre_norm.bias'', LT_FFN, LTI_FFN_PRE_NORM_B),
     (''feed_forward.post_norm.weight'', LT_FFN, LTI_FFN_POST_NORM),
     (''feed_forward.post_norm.bias'', LT_FFN, LTI_FFN_POST_NORM_B),
     (''feed_forward.w1.weight'', LT_FFN, LTI_W1),
     (''feed_forward.w1.bias'', LT_FFN, LTI_W1_B),
     (''feed_forward.w2.weight'', LT_FFN, LTI_W2),
     (''feed_forward.w2.bias'', LT_FFN, LTI_W2_B),
     (''feed_forward.w3.weight'', LT_FFN, LTI_W3),
     (''feed_forward.w3.bias'', LT_FFN, LTI_W3_B),
     (''feed_forward.w1n3.weight'', LT_FFN, LTI_W1N3),
     (''feed_forward.w1n3.bias'', LT_FFN, LTI_W1N3_B)] @
    [(''moe.gate.weight'', LT_MOE, LTI_MOE_GATE),
     (''moe.gate.bias'', LT_MOE, LTI_MOE_GATE_B)]"

definition BuildTensorNameToIdMap :: "(string, LayerType \<times> LayerTensorId) omap" where
  "BuildTensorNameToIdMap = omap_of tensor_id_assignments"

section \<open>Names of the model families\<close>

definition BuildTensorNameMap_TransformerEncoder :: "string \<Rightarrow> (string \<times> string) list" where
  "BuildTensorNameMap_TransformerEncoder tensor_name_prefix =
    (let pre = tensor_name_prefix @ ''encoder.''
     in [(pre @ ''embed_tokens.weight'', ''enc.token_embeddings.weight'')]) @
    (let pre = tensor_name_prefix @ ''encoder.layers.{i}.''
     in concat (map (\<lambda>suffix.
       [(pre @ ''self_attn_layer_norm'' @ suffix, ''enc.{i}.self_attn.pre_norm'' @ suffix),
        (pre @ ''self_attn.qkv'' @ suffix, ''enc.{i}.self_attn.qkv'' @ suffix),
        (pre @ ''self_attn.q_proj'' @ suffix, ''enc.{i}.self_attn.wq'' @ suffix),
        (pre @ ''self_attn.k_proj'' @ suffix, ''enc.{i}.self_attn.wk'' @ suffix),
        (pre @ ''self_attn.v_proj'' @ suffix, ''enc.{i}.self_attn.wv'' @ suffix),
        (pre @ ''self_attn.out_proj'' @ suffix, ''enc.{i}.self_attn.wo'' @ suffix)]) [''.weight'', ''.bias'']))"

definition BuildTensorNameMap_TransformerDecoder :: "string \<Rightarrow> (string \<times> string) list" where
  "BuildTensorNameMap_TransformerDecoder tensor_name_prefix =
    (let pre = tensor_name_prefix @ ''decoder.''
     in [(pre @ ''embed_tokens.weight'', ''dec.token_embeddings.weight'')]) @
    (let pre = tensor_name_prefix
     in [(pre @ ''lm_head.weight'', ''output.weight''),
         (pre @ ''output.weight'', ''output.weight''),
         (''lm_head.weight'', ''output.weight''),
         (''output.weight'', ''output.weight''),
         (pre @ ''lm_head.bias'', ''output.bias''),
         (pre @ ''output.bias'', ''output.bias''),
         (''lm_head.bias'', ''output.bias''),
         (''output.bias'', ''output.bias'')]) @
    (let pre = tensor_name_prefix @ ''decoder.layers.{i}.''
     in concat (map (\<lambda>suffix.
       [(pre @ ''self_attn_layer_norm'' @ suffix, ''dec.{i}.self_attn.pre_norm'' @ suffix),
        (pre @ ''self_attn.qkv'' @ suffix, ''dec.{i}.self_attn.qkv'' @ suffix),
        (pre @ ''self_attn.q_proj'' @ suffix, ''dec.{i}.self_attn.wq'' @ suffix),
        (pre @ ''self_attn.k_proj'' @ suffix, ''dec.{i}.self_attn.wk'' @ suffix),
        (pre @ ''self_attn.v_proj'' @ suffix, ''dec.{i}.self_attn.wv'' @ suffix),
        (pre @ ''self_attn.out_proj'' @ suffix, ''dec.{i}.self_attn.wo'' @ suffix),
        (pre @ ''encoder_attn_layer_norm'' @ suffix, ''dec.{i}.cross_attn.pre_norm'' @ suffix),
        (pre @ ''encoder_attn.qkv'' @ suffix, ''dec.{i}.cross_attn.qkv'' @ suffix),
        (pre @ ''encoder_attn.q_proj'' @ suffix, ''dec.{i}.cross_attn.wq'' @ suffix),
        (pre @ ''encoder_attn.k_proj'' @ suffix, ''dec.{i}.cross_attn.wk'' @ suffix),
        (pre @ ''encoder_attn.v_proj'' @ suffix, ''dec.{i}.cross_attn.wv'' @ suffix),
        (pre @ ''encoder_attn.out_proj'' @ suffix, ''dec.{i}.cross_attn.wo'' @ suffix)]) [''.weight'', ''.bias'']))"

definition BuildTensorNameMap_TransformerDecoderOnly :: "string \<Rightarrow> (string \<times> string) list" where
  "BuildTensorNameMap_TransformerDecoderOnly tensor_name_prefix =
    (let pre = tensor_name_prefix
     in [(pre @ ''embed_tokens.weight'', ''dec.token_embeddings.weight''),
         (pre @ ''lm_head.weight'', ''output.weight''),
         (pre @ ''output.weight'', ''output.weight''),
         (''lm_head.weight'', ''output.weight''),
         (''output.weight'', ''output.weight''),
         (pre @ ''lm_head.bias'', ''output.bias''),
         (pre @ ''output.bias'', ''output.bias''),
         (''lm_head.bias'', ''output.bais''),
         (''output.bias'', ''output.bias'')]) @
    (let pre = tensor_name_prefix @ ''layers.{i}.''
     in concat (map (\<lambda>suffix.
       [(pre @ ''self_attn.qkv'' @ suffix, ''dec.{i}.self_attn.qkv'' @ suffix),
        (pre @ ''self_attn.q_proj'' @ suffix, ''dec.{i}.self_attn.wq'' @ suffix),
        (pre @ ''self_attn.k_proj'' @ suffix, ''dec.{i}.self_attn.wk'' @ suffix),
        (pre @ ''self_attn.v_proj'' @ suffix, ''dec.{i}.self_attn.wv'' @ suffix),
        (pre @ ''self_attn.o_proj'' @ suffix, ''dec.{i}.self_attn.wo'' @ suffix),
        (pre @ ''self_attn.out_proj'' @ suffix, ''dec.{i}.self_attn.wo'' @ suffix),
        (pre @ ''mlp.gate_proj'' @ suffix, ''dec.{i}.feed_forward.w1'' @ suffix),
        (pre @ ''mlp.down_proj'' @ suffix, ''dec.{i}.feed_forward.w2'' @ suffix),
        (pre @ ''mlp.up_proj'' @ suffix, ''dec.{i}.feed_forward.w3'' @ suffix),
        (pre @ ''input_layernorm'' @ suffix, ''dec.{i}.self_attn.pre_norm'' @ suffix),
        (pre @ ''post_attention_layernorm'' @ suffix, ''dec.{i}.feed_forward.pre_norm'' @ suffix)]) [''.weight'', ''.bias'']))"

definition BuildTensorNameMap_Llama :: "string \<Rightarrow> (string \<times> string) list" where
  "BuildTensorNameMap_Llama tensor_name_prefix =
    (let pre = tensor_name_prefix
     in [(pre @ ''embed_tokens.weight'', ''token_embeddings.weight''),
         (pre @ ''tok_embeddings.weight'', ''token_embeddings.weight''),
         (pre @ ''lm_head.weight'', ''output.weight''),
         (pre @ ''output.weight'', ''output.weight''),
         (''token_embd.weight'', ''token_embeddings.weight''),
         (''lm_head.weight'', ''output.weight''),
         (''output.weight'', ''output.weight''),
         (pre @ ''norm.weight'', ''dec.output_norm.weight''),
         (''output_norm.weight'', ''dec.output_norm.weight''),
         (pre @ ''layers.{i}.self_attn.q_proj.weight'', ''dec.{i}.self_attn.wq.weight''),
         (pre @ ''layers.{i}.self_attn.k_proj.weight'', ''dec.{i}.self_attn.wk.weight''),
         (pre @ ''layers.{i}.self_attn.v_proj.weight'', ''dec.{i}.self_attn.wv.weight''),
         (pre @ ''layers.{i}.self_attn.o_proj.weight'', ''dec.{i}.self_attn.wo.weight''),
         (pre @ ''layers.{i}.attention.wq.weight'', ''dec.{i}.self_attn.wq.weight''),
         (pre @ ''layers.{i}.attention.wk.weight'', ''dec.{i}.self_attn.wk.weight''),
         (pre @ ''layers.{i}.attention.wv.weight'', ''dec.{i}.self_attn.wv.weight''),
         (pre @ ''layers.{i}.attention.wo.weight'', ''dec.{i}.self_attn.wo.weight''),
         (pre @ ''layers.{i}.self_attn.W_pack.weight'', ''dec.{i}.self_attn.qkv.weight''),
         (pre @ ''{i}.attn_q.weight'', ''dec.{i}.self_attn.wq.weight''),
         (pre @ ''{i}.attn_k.weight'', ''dec.{i}.self_attn.wk.weight''),
         (pre @ ''{i}.attn_v.weight'', ''dec.{i}.self_attn.wv.weight''),
         (pre @ ''{i}.attn_output.weight'', ''dec.{i}.self_attn.wo.weight''),
         (pre @ ''layers.{i}.mlp.gate_proj.weight'', ''dec.{i}.feed_forward.w1.weight''),
         (pre @ ''layers.{i}.mlp.down_proj.weight'', ''dec.{i}.feed_forward.w2.weight''),
         (pre @ ''layers.{i}.mlp.up_proj.weight'', ''dec.{i}.feed_forward.w3.weight''),
         (pre @ ''layers.{i}.feed_forward.w1.weight'', ''dec.{i}.feed_forward.w1.weight''),
         (pre @ ''layers.{i}.feed_forward.w2.weight'', ''dec.{i}.feed_forward.w2.weight''),
         (pre @ ''layers.{i}.feed_forward.w3.weight'', ''dec.{i}.feed_forward.w3.weight''),
         (pre @ ''{i}.ffn_gate.weight'', ''dec.{i}.feed_forward.w1.weight''),
         (pre @ ''{i}.ffn_down.weight'', ''dec.{i}.feed_forward.w2.weight''),
         (pre @ ''{i}.ffn_up.weight'', ''dec.{i}.feed_forward.w3.weight''),
         (pre @ ''layers.{i}.input_layernorm.weight'', ''dec.{i}.self_attn.pre_norm.weight''),
         (pre @ ''layers.{i}.attention_norm.weight'', ''dec.{i}.self_attn.pre_norm.weight''),
         (pre @ ''{i}.attn_norm.weight'', ''dec.{i}.self_attn.pre_norm.weight''),
         (pre @ ''layers.{i}.post_attention_layernorm.weight'', ''dec.{i}.feed_forward.pre_norm.weight''),
         (pre @ ''layers.{i}.ffn_norm.weight'', ''dec.{i}.feed_forward.pre_norm.weight''),
         (pre @ ''{i}.ffn_norm.weight'', ''dec.{i}.feed_forward.pre_norm.weight'')])"

definition BuildTensorNameMap_Bloom :: "string \<Rightarrow> (string \<times> string) list" where
  "BuildTensorNameMap_Bloom tensor_name_prefix =
    (let pre = tensor_name_prefix
     in [(pre @ ''word_embeddings.weight'', ''token_embeddings.weight''),
         (pre @ ''tok_embeddings.weight'', ''token_embeddings.weight''),
         (pre @ ''word_embeddings_layernorm.weight'', ''dec.input_norm.weight''),
         (pre @ ''norm.weight'', ''dec.input_norm.weight''),
         (pre @ ''word_embeddings_layernorm.bias'', ''dec.input_norm.bias''),
         (pre @ ''norm.bias'', ''dec.input_norm.bias''),
         (pre @ ''lm_head.weight'', ''output.weight''),
         (''lm_head.weight'', ''output.weight''),
         (pre @ ''output.weight'', ''output.weight''),
         (pre @ ''ln_f.weight'', ''dec.output_norm.weight''),
         (pre @ ''output_norm.weight'', ''dec.output_norm.weight''),
         (pre @ ''ln_f.bias'', ''dec.output_norm.bias''),
         (pre @ ''output_norm.bias'', ''dec.output_norm.bias''),
         (pre @ ''h.{i}.self_attention.query_key_value.weight'', ''dec.{i}.self_attn.qkv.weight''),
         (pre @ ''h.{i}.self_attention.query_key_value.bias'', ''dec.{i}.self_attn.qkv.bias''),
         (pre @ ''h.{i}.self_attention.dense.weight'', ''dec.{i}.self_attn.wo.weight''),
         (pre @ ''h.{i}.self_attention.dense.bias'', ''dec.{i}.self_attn.wo.bias''),
         (pre @ ''h.{i}.mlp.dense_h_to_4h.weight'', ''dec.{i}.feed_forward.w1.weight''),
         (pre @ ''h.{i}.mlp.dense_h_to_4h.bias'', ''dec.{i}.feed_forward.w1.bias''),
         (pre @ ''h.{i}.mlp.dense_4h_to_h.weight'', ''dec.{i}.feed_forward.w2.weight''),
         (pre @ ''h.{i}.mlp.dense_4h_to_h.bias'', ''dec.{i}.feed_forward.w2.bias''),
         (pre @ ''h.{i}.input_layernorm.weight'', ''dec.{i}.self_attn.pre_norm.weight''),
         (pre @ ''h.{i}.input_layernorm.bias'', ''dec.{i}.self_attn.pre_norm.bias''),
         (pre @ ''h.{i}.post_attention_layernorm.weight'', ''dec.{i}.feed_forward.pre_norm.weight''),
         (pre @ ''h.{i}.post_attention_layernorm.bias'', ''dec.{i}.feed_forward.pre_norm.bias''),
         (pre @ ''layers.{i}.attention.query_key_value.weight'', ''dec.{i}.self_attn.qkv.weight''),
         (pre @ ''layers.{i}.attention.query_key_value.bias'', ''dec.{i}.self_attn.qkv.bias''),
         (pre @ ''layers.{i}.attention.wo.weight'', ''dec.{i}.self_attn.wo.weight''),
         (pre @ ''layers.{i}.attention.wo.bias'', ''dec.{i}.self_attn.wo.bias''),
         (pre @ ''layers.{i}.feed_forward.w1.weight'', ''dec.{i}.feed_forward.w1.weight''),
         (pre @ ''layers.{i}.feed_forward.w1.bias'', ''dec.{i}.feed_forward.w1.bias''),
         (pre @ ''layers.{i}.feed_forward.w2.weight'', ''dec.{i}.feed_forward.w2.weight''),
         (pre @ ''layers.{i}.feed_forward.w2.bias'', ''dec.{i}.feed_forward.w2.bias''),
         (pre @ ''layers.{i}.attention_norm.weight'', ''dec.{i}.self_attn.pre_norm.weight''),
         (pre @ ''layers.{i}.attention_norm.bias'', ''dec.{i}.self_attn.pre_norm.bias''),
         (pre @ ''layers.{i}.ffn_norm.weight'', ''dec.{i}.feed_forward.pre_norm.weight''),
         (pre @ ''layers.{i}.ffn_norm.bias'', ''dec.{i}.feed_forward.pre_norm.bias'')])"

definition BuildTensorNameMap :: "NetworkType \<Rightarrow> string \<Rightarrow> (string \<times> string) list" where
  "BuildTensorNameMap net_type tensor_name_prefix =
     [(tensor_name_prefix @ ''shared.weight'', ''shared.weight'')] @
     (if \<not> IsDecoderOnlyTransformer net_type
      then BuildTensorNameMap_TransformerEncoder tensor_name_prefix else []) @
     (if \<not> IsEncoderOnlyTransformer net_type then
        (case net_type of
           NT_LLAMA \<Rightarrow> BuildTensorNameMap_Llama tensor_name_prefix
         | NT_BLOOM \<Rightarrow> BuildTensorNameMap_Bloom tensor_name_prefix
         | NT_DecoderOnly_Transformer \<Rightarrow> BuildTensorNameMap_TransformerDecoderOnly tensor_name_prefix
         | NT_SparseMoe_DecoderOnly_Transformer \<Rightarrow> BuildTensorNameMap_TransformerDecoderOnly tensor_name_prefix
         | _ \<Rightarrow> BuildTensorNameMap_TransformerDecoder tensor_name_prefix)
      else [])"

section \<open>Expansion and translation\<close>

text \<open>\<open>ReplaceAll\<close> with a non-empty key, which always returns.\<close>

definition subst_key :: "string \<Rightarrow> string \<Rightarrow> string \<Rightarrow> string" where
  "subst_key s key t = (case ReplaceAll s key t of Some r \<Rightarrow> r | None \<Rightarrow> s)"

lemma subst_key_eq [simp]: "c_str key \<noteq> [] \<Longrightarrow> subst_key s key t = replace_rest (c_str key) (c_str t) s"
  by (simp add: subst_key_def ReplaceAll_eq)

definition expand_entry :: "int \<Rightarrow> int \<Rightarrow> string \<times> string \<Rightarrow> (string \<times> string) list" where
  "expand_entry layers experts e =
     (if str_find (fst e) ''{i}'' 0 = None then [e]
      else concat (map (\<lambda>layer_id.
        let source_str = subst_key (fst e) ''{i}'' (nat_to_str layer_id);
            target_str = subst_key (snd e) ''{i}'' (nat_to_str layer_id)
        in if str_find source_str ''{j}'' 0 = None then [(source_str, target_str)]
           else map (\<lambda>expert_id. (subst_key source_str ''{j}'' (nat_to_str expert_id),
                                  subst_key target_str ''{j}'' (nat_to_str expert_id))) [0..<nat experts])
        [0..<nat layers]))"

definition ExpandTensorNameMap :: "(string, string) omap \<Rightarrow> int \<Rightarrow> int \<Rightarrow> (string, string) omap" where
  "ExpandTensorNameMap tensor_map layers experts = omap_of (concat (map (expand_entry layers experts) tensor_map))"

text \<open>\<open>Init\<close>: the family's names, then the additional names of the model, bare and with the prefix.\<close>

definition NS_Init :: "NetworkType \<Rightarrow> int \<Rightarrow> int \<Rightarrow> int \<Rightarrow> string \<Rightarrow> (string, string) omap option
    \<Rightarrow> (string, string) omap" where
  "NS_Init network_type encoder_layer_count decoder_layer_count expert_count tensor_name_prefix tensor_map_ptr =
     (let extra = (case tensor_map_ptr of None \<Rightarrow> []
            | Some m \<Rightarrow> concat (map (\<lambda>(k, v). (k, v) #
                (if tensor_name_prefix \<noteq> [] then [(tensor_name_prefix @ k, v)] else [])) m));
          tensor_map = omap_of (BuildTensorNameMap network_type tensor_name_prefix @ extra)
      in ExpandTensorNameMap tensor_map (max encoder_layer_count decoder_layer_count) expert_count)"

definition TransTensorName :: "(string, string) omap \<Rightarrow> string \<Rightarrow> string option" where
  "TransTensorName tensor_map_ex src_name = omap_find tensor_map_ex src_name"

definition UpdateTensorSpec :: "(string, string) omap \<Rightarrow> nat \<Rightarrow> TensorSpecTable \<Rightarrow> TensorSpecTable" where
  "UpdateTensorSpec tensor_map_ex tensor_idx t =
     (case omap_find tensor_map_ex (ts_name (tensor_array_of t ! tensor_idx)) of
        None \<Rightarrow> t
      | Some target_name \<Rightarrow>
          t\<lparr>name2idx := omap_put target_name (int tensor_idx) (name2idx t),
            tensor_array_of := (tensor_array_of t)[tensor_idx := (tensor_array_of t ! tensor_idx)\<lparr>ts_name := target_name\<rparr>]\<rparr>)"

definition UpdateTensorSpecTable :: "(string, string) omap \<Rightarrow> TensorSpecTable \<Rightarrow> TensorSpecTable" where
  "UpdateTensorSpecTable tensor_map_ex t =
     fold (UpdateTensorSpec tensor_map_ex) [0..<length (tensor_array_of t)] t"

section \<open>Lemmas\<close>

text \<open>The names of the layer tensors, written out.\<close>

lemma tensor_id_names:
  "map fst tensor_id_assignments =
    [''self_attn.pre_norm.weight'',
     ''self_attn.pre_norm.bias'',
     ''self_attn.post_norm.weight'',
     ''self_attn.post_norm.bias'',
     ''self_attn.qkv.weight'',
     ''self_attn.qkv.bias'',
     ''self_attn.wq.weight'',
     ''self_attn.wq.bias'',
     ''self_attn.wk.weight'',
     ''self_attn.wk.bias'',
     ''self_attn.wv.weight'',
     ''self_attn.wv.bias'',
     ''self_attn.wo.weight'',
     ''self_attn.wo.bias'',
     ''cross_attn.pre_norm.weight'',
     ''cross_attn.pre_norm.bias'',
     ''cross_attn.post_norm.weight'',
     ''cross_attn.post_norm.bias'',
     ''cross_attn.qkv.weight'',
     ''cross_attn.qkv.bias'',
     ''cross_attn.wq.weight'',
     ''cross_attn.wq.bias'',
     ''cross_attn.wk.weight'',
     ''cross_attn.wk.bias'',
     ''cross_attn.wv.weight'',
     ''cross_attn.wv.bias'',
     ''cross_attn.wo.weight'',
     ''cross_attn.wo.bias'',
     ''feed_forward.pre_norm.weight'',
     ''feed_forward.pre_norm.bias'',
     ''feed_forward.post_norm.weight'',
     ''feed_forward.post_norm.bias'',
     ''feed_forward.w1.weight'',
     ''feed_forward.w1.bias'',
     ''feed_forward.w2.weight'',
     ''feed_forward.w2.bias'',
     ''feed_forward.w3.weight'',
     ''feed_forward.w3.bias'',
     ''feed_forward.w1n3.weight'',
     ''feed_forward.w1n3.bias'',
     ''moe.gate.weight'',
     ''moe.gate.bias'']"
  by (simp add: tensor_id_assignments_def)

text \<open>A target with a layer number is a known tensor of an encoder or decoder layer.\<close>

definition layer_target_ok :: "string \<Rightarrow> bool" where
  "layer_target_ok t \<longleftrightarrow> CHR ''{'' \<notin> set t \<or>
     (prefix ''dec.{i}.'' t \<or> prefix ''enc.{i}.'' t) \<and> drop 8 t \<in> set (map fst tensor_id_assignments)"

lemma llama_targets: "list_all layer_target_ok (map snd (BuildTensorNameMap_Llama pre))"
  by (simp add: BuildTensorNameMap_Llama_def layer_target_ok_def tensor_id_names del: map_map set_map)

lemma bloom_targets: "list_all layer_target_ok (map snd (BuildTensorNameMap_Bloom pre))"
  by (simp add: BuildTensorNameMap_Bloom_def layer_target_ok_def tensor_id_names del: map_map set_map)

lemma decoder_only_targets: "list_all layer_target_ok (map snd (BuildTensorNameMap_TransformerDecoderOnly pre))"
  by (simp add: BuildTensorNameMap_TransformerDecoderOnly_def layer_target_ok_def tensor_id_names del: map_map set_map)

lemma decoder_targets: "list_all layer_target_ok (map snd (BuildTensorNameMap_TransformerDecoder pre))"
  by (simp add: BuildTensorNameMap_TransformerDecoder_def layer_target_ok_def tensor_id_names del: map_map set_map)

lemma encoder_targets: "list_all layer_target_ok (map snd (BuildTensorNameMap_TransformerEncoder pre))"
  by (simp add: BuildTensorNameMap_TransformerEncoder_def layer_target_ok_def tensor_id_names del: map_map set_map)

text \<open>Instances of a pattern: the layer number, or layer and expert number, in both names.\<close>

definition layer_instance :: "nat \<Rightarrow> string \<times> string \<Rightarrow> string \<times> string" where
  "layer_instance i e = (replace_rest ''{i}'' (nat_to_str i) (fst e), replace_rest ''{i}'' (nat_to_str i) (snd e))"

definition expert_instance :: "nat \<Rightarrow> string \<times> string \<Rightarrow> string \<times> string" where
  "expert_instance j e = (replace_rest ''{j}'' (nat_to_str j) (fst e), replace_rest ''{j}'' (nat_to_str j) (snd e))"

lemma nat_to_str_not_zero: "CHR 0x00 \<notin> set (nat_to_str n)"
proof (induction n rule: nat_to_str.induct)
  case (1 n)
  have "CHR 0x00 \<noteq> char_of (48 + m)" if "m < 10" for m :: nat
  proof
    assume "CHR 0x00 = char_of (48 + m)"
    then have "(of_char (char_of (48 + m)) :: nat) = of_char (CHR 0x00)" by simp
    then show False using that by simp
  qed
  then have "n < 10 \<Longrightarrow> CHR 0x00 \<noteq> char_of (48 + n)" "CHR 0x00 \<noteq> char_of (48 + n mod 10)" by simp_all
  then show ?case using 1 by (subst nat_to_str.simps) (simp del: nat_to_str.simps char_of_eq_iff)
qed

lemma c_str_nat_to_str [simp]: "c_str (nat_to_str n) = nat_to_str n"
  by (rule c_str_id [OF nat_to_str_not_zero])

lemma c_str_keys [simp]: "c_str ''{i}'' = ''{i}''" "c_str ''{j}'' = ''{j}''"
  by (simp_all add: c_str_def)

lemma expand_entry_instances:
  "expand_entry layers experts e =
    (if \<not> sublist ''{i}'' (fst e) then [e]
     else concat (map (\<lambda>i.
       if \<not> sublist ''{j}'' (fst (layer_instance i e)) then [layer_instance i e]
       else map (\<lambda>j. expert_instance j (layer_instance i e)) [0..<nat experts]) [0..<nat layers]))"
  by (simp add: expand_entry_def str_find_def find_at_None layer_instance_def expert_instance_def Let_def
      del: nat_to_str.simps cong: if_cong)

text \<open>
  What the pairs of names are that an entry of a name map stands for: an entry without a layer
  number stands for itself, the others for their instances with every layer number below
  \<open>layers\<close> and, where the source has an expert number, every expert number below \<open>experts\<close>.
\<close>

definition is_instance :: "int \<Rightarrow> int \<Rightarrow> string \<times> string \<Rightarrow> string \<times> string \<Rightarrow> bool" where
  "is_instance layers experts e x \<longleftrightarrow>
    \<not> sublist ''{i}'' (fst e) \<and> x = e
    \<or> sublist ''{i}'' (fst e) \<and> (\<exists>i < nat layers.
        \<not> sublist ''{j}'' (fst (layer_instance i e)) \<and> x = layer_instance i e
        \<or> sublist ''{j}'' (fst (layer_instance i e)) \<and> (\<exists>j < nat experts. x = expert_instance j (layer_instance i e)))"

lemma expand_entry_cases: "x \<in> set (expand_entry layers experts e) \<longleftrightarrow> is_instance layers experts e x"
proof (cases "sublist ''{i}'' (fst e)")
  case True
  let ?f = "\<lambda>i. if \<not> sublist ''{j}'' (fst (layer_instance i e)) then [layer_instance i e]
       else map (\<lambda>j. expert_instance j (layer_instance i e)) [0..<nat experts]"
  have "expand_entry layers experts e = concat (map ?f [0..<nat layers])"
    using True by (simp add: expand_entry_instances)
  then have "x \<in> set (expand_entry layers experts e) \<longleftrightarrow> (\<exists>i < nat layers. x \<in> set (?f i))"
    by (simp only: in_concat_map_upt)
  moreover have "x \<in> set (?f i) \<longleftrightarrow>
        \<not> sublist ''{j}'' (fst (layer_instance i e)) \<and> x = layer_instance i e
        \<or> sublist ''{j}'' (fst (layer_instance i e)) \<and> (\<exists>j < nat experts. x = expert_instance j (layer_instance i e))" for i
    by auto
  ultimately show ?thesis using True by (simp add: is_instance_def)
qed (simp add: expand_entry_instances is_instance_def)

lemma UpdateTensorSpec_fold:
  fixes m :: "(string, string) omap" and t :: TensorSpecTable and n :: nat
  assumes "n \<le> length (tensor_array_of t)"
  defines "u \<equiv> fold (UpdateTensorSpec m) [0..<n] t"
  shows "length (tensor_array_of u) = length (tensor_array_of t)
    \<and> (\<forall>i < length (tensor_array_of t). tensor_array_of u ! i =
        (let s = tensor_array_of t ! i in if i < n then
          (case omap_find m (ts_name s) of None \<Rightarrow> s | Some x \<Rightarrow> s\<lparr>ts_name := x\<rparr>) else s))
    \<and> (\<forall>x. omap_find (name2idx u) x =
        (case find (\<lambda>i. omap_find m (ts_name (tensor_array_of t ! i)) = Some x) (rev [0..<n]) of
           Some i \<Rightarrow> Some (int i) | None \<Rightarrow> omap_find (name2idx t) x))"
  using assms(1) unfolding u_def
proof (induction n)
  case (Suc n)
  let ?u = "fold (UpdateTensorSpec m) [0..<n] t"
  have IH: "length (tensor_array_of ?u) = length (tensor_array_of t)"
    "\<forall>i < length (tensor_array_of t). tensor_array_of ?u ! i =
        (let s = tensor_array_of t ! i in if i < n then
          (case omap_find m (ts_name s) of None \<Rightarrow> s | Some x \<Rightarrow> s\<lparr>ts_name := x\<rparr>) else s)"
    "\<forall>x. omap_find (name2idx ?u) x =
        (case find (\<lambda>i. omap_find m (ts_name (tensor_array_of t ! i)) = Some x) (rev [0..<n]) of
           Some i \<Rightarrow> Some (int i) | None \<Rightarrow> omap_find (name2idx t) x)"
    using Suc by simp_all
  have n: "tensor_array_of ?u ! n = tensor_array_of t ! n" using IH(2) Suc.prems by (simp add: Let_def)
  have step: "fold (UpdateTensorSpec m) [0..<Suc n] t = UpdateTensorSpec m n ?u" by simp
  show ?case
  proof (cases "omap_find m (ts_name (tensor_array_of t ! n))")
    case None
    then have "UpdateTensorSpec m n ?u = ?u" by (simp add: UpdateTensorSpec_def n)
    then show ?thesis unfolding step using IH None by (auto simp: Let_def less_Suc_eq)
  next
    case (Some x)
    then have u: "UpdateTensorSpec m n ?u = ?u\<lparr>name2idx := omap_put x (int n) (name2idx ?u),
        tensor_array_of := (tensor_array_of ?u)[n := (tensor_array_of t ! n)\<lparr>ts_name := x\<rparr>]\<rparr>"
      by (simp add: UpdateTensorSpec_def n)
    show ?thesis unfolding step u using IH Some Suc.prems
      by (auto simp: Let_def less_Suc_eq nth_list_update omap_find_put)
  qed
qed (simp add: Let_def)

lemma neq_longer_append: "length s < length ys \<Longrightarrow> (pre @ ys = s) = False" "length s < length ys \<Longrightarrow> (s = pre @ ys) = False"
  by auto

section \<open>Properties\<close>

text \<open>
  C21. Translation of tensor names never mixes layers or experts: a source name is translated
  exactly when it is an instance of an entry of the map with layer and expert numbers in range (or
  the source of an entry without layer number), and the target is the target of an entry with this
  source name, with the same numbers in both names.
\<close>

theorem TransTensorName_instances:
  "(case TransTensorName (ExpandTensorNameMap tensor_map layers experts) s of
      None \<Rightarrow> \<not> (\<exists>e \<in> set tensor_map. \<exists>t. is_instance layers experts e (s, t))
    | Some t \<Rightarrow> \<exists>e \<in> set tensor_map. is_instance layers experts e (s, t))"
proof -
  let ?es = "concat (map (expand_entry layers experts) tensor_map)"
  have tr: "TransTensorName (ExpandTensorNameMap tensor_map layers experts) s = map_of (rev ?es) s"
    by (simp add: TransTensorName_def ExpandTensorNameMap_def omap_find_of)
  show ?thesis
  proof (cases "map_of (rev ?es) s")
    case None
    then have "s \<notin> fst ` set ?es" by (simp add: map_of_eq_None_iff)
    then have "(s, t) \<notin> set ?es" for t by force
    then show ?thesis unfolding tr None by (simp add: expand_entry_cases)
  next
    case (Some t)
    then have "(s, t) \<in> set ?es" by (metis map_of_SomeD set_rev)
    then obtain e where "e \<in> set tensor_map" "(s, t) \<in> set (expand_entry layers experts e)" by auto
    then show ?thesis unfolding tr Some by (auto simp: expand_entry_cases)
  qed
qed

text \<open>
  C24. The name maps of all model families agree with the layer tensors the engine knows: every
  target with a layer number is a known tensor name after the prefix of a decoder or encoder layer.
\<close>

theorem name_map_targets_known:
  "list_all layer_target_ok (map snd (BuildTensorNameMap net_type tensor_name_prefix))"
  using llama_targets bloom_targets decoder_only_targets decoder_targets encoder_targets
  by (cases net_type) (simp_all add: BuildTensorNameMap_def layer_target_ok_def)

text \<open>
  In decoder-only networks the bias of the output layer, when stored under its bare name, is
  renamed to "output.bais", whatever the prefix.
\<close>

lemma lm_head_bias_misspelled:
  "omap_find (omap_of (BuildTensorNameMap NT_DecoderOnly_Transformer tensor_name_prefix)) ''lm_head.bias''
    = Some ''output.bais''"
  by (simp add: BuildTensorNameMap_def BuildTensorNameMap_TransformerDecoderOnly_def omap_find_of
      IsDecoderOnlyTransformer_def IsEncoderOnlyTransformer_def neq_longer_append)

text \<open>
  C22. Renaming a table of tensors: afterwards every tensor with a translation has the target name,
  the others keep their names, and when no two tensors have the same target, looking up a target
  name yields the index of its tensor.
\<close>

theorem UpdateTensorSpecTable_renames:
  assumes "i < length (tensor_array_of t)"
    and "omap_find m (ts_name (tensor_array_of t ! i)) = Some x"
    and "\<And>j. j < length (tensor_array_of t) \<Longrightarrow> omap_find m (ts_name (tensor_array_of t ! j)) = Some x \<Longrightarrow> j = i"
  shows "ts_name (tensor_array_of (UpdateTensorSpecTable m t) ! i) = x
    \<and> TST_GetIndex (UpdateTensorSpecTable m t) x = int i
    \<and> (\<forall>j < length (tensor_array_of t). omap_find m (ts_name (tensor_array_of t ! j)) = None \<longrightarrow>
        tensor_array_of (UpdateTensorSpecTable m t) ! j = tensor_array_of t ! j)"
proof -
  let ?P = "\<lambda>i. omap_find m (ts_name (tensor_array_of t ! i)) = Some x" and ?n = "length (tensor_array_of t)"
  note fold = UpdateTensorSpec_fold [of ?n t m, folded UpdateTensorSpecTable_def]
  have "find ?P (rev [0..<?n]) = Some i"
  proof (cases "find ?P (rev [0..<?n])")
    case None
    then show ?thesis using assms(1,2) by (simp add: find_None_iff)
  next
    case (Some j)
    then have "j < ?n" "?P j" by (auto simp: find_Some_iff rev_nth dest: nth_mem)
    then show ?thesis using assms(3) Some by simp
  qed
  then show ?thesis using fold assms(1,2) by (auto simp: TST_GetIndex_def Let_def)
qed

definition sample_specs :: TensorSpecTable where
  "sample_specs = snd (TST_Add \<lparr>tensor_array_of = [], name2idx = []\<rparr> (new_TensorSpec\<lparr>ts_name := ''lm_head.weight''\<rparr>))"

theorem UpdateTensorSpecTable_renames_witness:
  "ts_name (tensor_array_of (UpdateTensorSpecTable [(''lm_head.weight'', ''output.weight'')] sample_specs) ! 0) = ''output.weight''
    \<and> TST_GetIndex (UpdateTensorSpecTable [(''lm_head.weight'', ''output.weight'')] sample_specs) ''output.weight'' = 0"
  using UpdateTensorSpecTable_renames [of 0 sample_specs "[(''lm_head.weight'', ''output.weight'')]" "''output.weight''"]
  by (simp add: sample_specs_def TST_Add_def omap_find_Cons)

end
