(* ===== verification/QueryTable.thy ===== *)
theory QueryTable
  imports ModelTypes
begin

text \<open>
  The table of live queries (src/src/transformer/query_state_table.h and .cc). The
  engine keeps one \<open>QueryState\<close> per accepted query, in a \<open>std::map\<close> ordered by query id;
  every state holds a process id, the slot of the key-value cache the query owns.

  The map never stores a null pointer (\<open>Add\<close>, the only writer, stores the result of
  \<open>new\<close>), so the null tests of the code have no branch here. Device memory is
  represented by the type parameter \<open>'t\<close>: the encoder output is absent until
  \<open>UpdateEncoderEnd\<close> fills it with the rows that the parameter \<open>copy_rows\<close> (the device
  copy) takes from the output tensor.
\<close>

section \<open>State\<close>

definition MAX_PROC_ID :: nat where "MAX_PROC_ID = 63"

definition MAX_QUERY_ID :: int where "MAX_QUERY_ID = 10000"

record 't QueryState =
  qs_query_id :: int
  qs_proc_id :: int
  qs_encoder_input_tokens :: "int list"
  qs_decoder_tokens :: "int list"
  qs_prefix_tokens :: "int list"
  qs_prefix_len :: int
  qs_initial_prefix_len :: int
  qs_max_output_tokens :: int
  qs_sampling_strategy :: int
  qs_is_encoder_only :: bool
  qs_next_net :: int
  qs_next_layer :: int
  qs_encoder_output :: "'t option"

definition new_QueryState :: "int \<Rightarrow> 't QueryState" where
  "new_QueryState qid = \<lparr>qs_query_id = qid, qs_proc_id = 0, qs_encoder_input_tokens = [],
     qs_decoder_tokens = [], qs_prefix_tokens = [], qs_prefix_len = 0,
     qs_initial_prefix_len = 0, qs_max_output_tokens = -1, qs_sampling_strategy = 0,
     qs_is_encoder_only = False, qs_next_net = 0, qs_next_layer = 0,
     qs_encoder_output = None\<rparr>"

record 't QueryStateTable =
  query_map :: "(int, 't QueryState) omap"
  next_query_id :: int

definition new_QueryStateTable :: "'t QueryStateTable" where
  "new_QueryStateTable = \<lparr>query_map = [], next_query_id = 1\<rparr>"

section \<open>Operations\<close>

definition QST_Clear :: "'t QueryStateTable \<Rightarrow> 't QueryStateTable" where
  "QST_Clear t = t\<lparr>query_map := [], next_query_id := 1\<rparr>"

definition QST_Size :: "'t QueryStateTable \<Rightarrow> int" where
  "QST_Size t = int (length (query_map t))"

text \<open>
  \<open>Get\<close>: one pass over the map in key order with two early exits. The flag
  \<open>is_encoder\<close> is computed from \<open>next_net\<close> before the first query sets it.
\<close>

primrec QST_Get_loop ::
  "bool \<Rightarrow> bool \<Rightarrow> int \<Rightarrow> int \<Rightarrow> (int \<times> 't QueryState) list \<Rightarrow> (int, 't QueryState) omap
     \<Rightarrow> int \<Rightarrow> int \<Rightarrow> (int, 't QueryState) omap" where
  "QST_Get_loop enc_only dec_only max_query_num max_token_num [] qmap next_net token_num = qmap"
| "QST_Get_loop enc_only dec_only max_query_num max_token_num (p # rest) qmap next_net token_num =
     (let (k, q) = p in
      if \<not> (next_net < 0 \<or> enc_only \<or> dec_only \<or> next_net = qs_next_net q)
      then QST_Get_loop enc_only dec_only max_query_num max_token_num rest qmap next_net token_num
      else
        let is_encoder = (\<not> dec_only \<and> next_net = 0);
            qmap' = omap_put k q qmap;
            next_net' = (if next_net < 0 then qs_next_net q else next_net);
            token_num' = token_num + (if is_encoder then int (length (qs_encoder_input_tokens q))
                                      else int (length (qs_decoder_tokens q)))
        in if max_token_num > 0 \<and> token_num' \<ge> max_token_num then qmap'
           else if max_query_num > 0 \<and> int (length qmap') \<ge> max_query_num then qmap'
           else QST_Get_loop enc_only dec_only max_query_num max_token_num rest qmap' next_net' token_num')"

definition QST_Get :: "'t QueryStateTable \<Rightarrow> NetworkType \<Rightarrow> int \<Rightarrow> int \<Rightarrow> int
    \<Rightarrow> (int, 't QueryState) omap" where
  "QST_Get t net_type max_context_len max_query_num max_token_num =
     QST_Get_loop (IsEncoderOnlyTransformer net_type) (IsDecoderOnlyTransformer net_type)
       max_query_num max_token_num (query_map t) [] (-1) 0"

definition FindFreeProcId :: "'t QueryStateTable \<Rightarrow> int" where
  "FindFreeProcId t =
     (let freq_list = fold (\<lambda>i f. bump_at f i) (map (\<lambda>p. nat (qs_proc_id (snd p))) (query_map t))
            (replicate (1 + MAX_PROC_ID) 0)
      in case first_index (\<lambda>n. n = 0) freq_list of Some idx \<Rightarrow> int idx | None \<Rightarrow> -1)"

definition QST_Add :: "'t QueryStateTable \<Rightarrow> int list \<Rightarrow> int list \<Rightarrow> ModelSpec \<Rightarrow> int \<Rightarrow> int
    \<Rightarrow> int \<times> 't QueryStateTable" where
  "QST_Add t encoder_input_tokens decoder_prefix_tokens model_spec sampling_strategy max_output_tokens =
     (let hparams = ms_hyper_params model_spec;
          proc_id = FindFreeProcId t
      in if proc_id < 0 \<or> proc_id > int MAX_PROC_ID then (-1, t)
         else
           let query_id = next_query_id t;
               state = (new_QueryState query_id)
                 \<lparr>qs_proc_id := proc_id,
                  qs_encoder_input_tokens := encoder_input_tokens,
                  qs_decoder_tokens := decoder_prefix_tokens,
                  qs_prefix_len := 0,
                  qs_initial_prefix_len := int (length decoder_prefix_tokens),
                  qs_sampling_strategy := sampling_strategy,
                  qs_max_output_tokens := max_output_tokens,
                  qs_is_encoder_only := (hp_decoder_layers hparams \<le> 0)\<rparr>
           in (query_id,
               t\<lparr>query_map := omap_put query_id state (query_map t),
                 next_query_id := (if next_query_id t < MAX_QUERY_ID then next_query_id t + 1 else 1)\<rparr>))"

definition QST_Remove :: "'t QueryStateTable \<Rightarrow> int \<Rightarrow> bool \<times> 't QueryStateTable" where
  "QST_Remove t query_id =
     (case omap_find (query_map t) query_id of
        None \<Rightarrow> (False, t)
      | Some _ \<Rightarrow> (True, t\<lparr>query_map := omap_erase query_id (query_map t)\<rparr>))"

definition QST_UpdateEncoderEnd :: "('o \<Rightarrow> int \<Rightarrow> int \<Rightarrow> 't) \<Rightarrow> 't QueryStateTable \<Rightarrow> int \<Rightarrow> 'o
    \<Rightarrow> int \<Rightarrow> int \<Rightarrow> bool \<times> 't QueryStateTable" where
  "QST_UpdateEncoderEnd copy_rows t query_id output_tensor start_row row_num =
     (case omap_find (query_map t) query_id of
        None \<Rightarrow> (False, t)
      | Some state \<Rightarrow>
          let state' = state\<lparr>qs_next_net := 1,
                qs_encoder_output := Some (copy_rows output_tensor start_row row_num),
                qs_prefix_tokens := [], qs_prefix_len := 0\<rparr>;
              t' = t\<lparr>query_map := omap_put query_id state' (query_map t)\<rparr>
          in if qs_is_encoder_only state' then QST_Remove t' query_id else (True, t'))"

definition QST_Update :: "'t QueryStateTable \<Rightarrow> int \<Rightarrow> int \<Rightarrow> bool \<Rightarrow> bool \<times> 't QueryStateTable" where
  "QST_Update t query_id next_token_id is_end =
     (case omap_find (query_map t) query_id of
        None \<Rightarrow> (False, t)
      | Some state \<Rightarrow>
          let prefix = qs_prefix_tokens state @ qs_decoder_tokens state;
              state' = state\<lparr>qs_prefix_tokens := prefix, qs_prefix_len := int (length prefix),
                qs_decoder_tokens := [next_token_id]\<rparr>;
              t' = t\<lparr>query_map := omap_put query_id state' (query_map t)\<rparr>
          in if is_end then QST_Remove t' query_id else (True, t'))"

definition GetQueryState :: "'t QueryStateTable \<Rightarrow> int \<Rightarrow> 't QueryState option" where
  "GetQueryState t query_id = omap_find (query_map t) query_id"

lemmas qst_op_defs [qst_defs] = QST_Add_def QST_Remove_def QST_UpdateEncoderEnd_def QST_Update_def
  QST_Clear_def GetQueryState_def Let_def

section \<open>Invariant\<close>

definition qs_ok :: "int \<Rightarrow> 't QueryState \<Rightarrow> bool" where
  "qs_ok k q \<longleftrightarrow> qs_query_id q = k \<and> 1 \<le> k \<and> k \<le> MAX_QUERY_ID
     \<and> 0 \<le> qs_proc_id q \<and> qs_proc_id q \<le> int MAX_PROC_ID
     \<and> qs_next_net q \<in> {0, 1}
     \<and> qs_prefix_len q = int (length (qs_prefix_tokens q))"

definition table_ok :: "'t QueryStateTable \<Rightarrow> bool" where
  "table_ok t \<longleftrightarrow> omap_ok (query_map t)
     \<and> 1 \<le> next_query_id t \<and> next_query_id t \<le> MAX_QUERY_ID
     \<and> (\<forall>p \<in> set (query_map t). qs_ok (fst p) (snd p))
     \<and> inj_on (\<lambda>p. qs_proc_id (snd p)) (set (query_map t))"

definition procs_used :: "'t QueryStateTable \<Rightarrow> nat set" where
  "procs_used t = (\<lambda>p. nat (qs_proc_id (snd p))) ` set (query_map t)"

lemma table_okD:
  assumes "table_ok t"
  shows "omap_ok (query_map t)" "1 \<le> next_query_id t" "next_query_id t \<le> MAX_QUERY_ID"
    "p \<in> set (query_map t) \<Longrightarrow> qs_ok (fst p) (snd p)"
    "inj_on (\<lambda>p. qs_proc_id (snd p)) (set (query_map t))"
  using assms by (auto simp: table_ok_def)

lemma procs_used_bound: "table_ok t \<Longrightarrow> procs_used t \<subseteq> {..MAX_PROC_ID}"
  by (force simp: procs_used_def table_ok_def qs_ok_def)

lemma card_procs_used:
  assumes "table_ok t"
  shows "card (procs_used t) = length (query_map t)"
proof -
  have "inj_on (\<lambda>p. nat (qs_proc_id (snd p))) (set (query_map t))"
    using table_okD(4,5) [OF assms]
    by (auto simp: inj_on_def qs_ok_def eq_nat_nat_iff)
  then have "card (procs_used t) = card (set (query_map t))"
    unfolding procs_used_def by (rule card_image)
  also have "\<dots> = length (query_map t)"
    using omap_distinct [OF table_okD(1) [OF assms]] by (simp add: distinct_card distinct_map)
  finally show ?thesis .
qed

text \<open>The search for a free slot, over the set of used ones.\<close>

lemma FindFreeProcId_eq:
  assumes "table_ok t"
  shows "FindFreeProcId t =
    (case first_index (\<lambda>i. i \<notin> procs_used t) [0..<Suc MAX_PROC_ID] of Some i \<Rightarrow> int i | None \<Rightarrow> -1)"
proof -
  let ?ps = "map (\<lambda>p. nat (qs_proc_id (snd p))) (query_map t)"
  let ?f = "fold (\<lambda>i f. bump_at f i) ?ps (replicate (1 + MAX_PROC_ID) 0)"
  have ps: "set ?ps = procs_used t" by (simp add: procs_used_def)
  have "?f ! k = 0 \<longleftrightarrow> k \<notin> procs_used t" if "k \<le> MAX_PROC_ID" for k
  proof -
    have "\<forall>i \<in> set ?ps. i < length (replicate (1 + MAX_PROC_ID) (0::nat))"
      using procs_used_bound [OF assms] ps by auto
    from fold_bump_at_nth [OF this, of k] that have "?f ! k = count_list ?ps k"
      by (simp add: less_Suc_eq_le del: replicate_Suc)
    then show ?thesis using ps by (metis count_list_0_iff)
  qed
  then have "first_index (\<lambda>n. n = 0) ?f = first_index (\<lambda>i. i \<notin> procs_used t) [0..<Suc MAX_PROC_ID]"
    by (intro first_index_cong) (simp_all del: replicate_Suc upt_Suc)
  then show ?thesis by (simp add: FindFreeProcId_def)
qed

lemma FindFreeProcId_range:
  assumes "table_ok t" "FindFreeProcId t \<noteq> -1"
  shows "0 \<le> FindFreeProcId t" "FindFreeProcId t \<le> int MAX_PROC_ID"
    "nat (FindFreeProcId t) \<notin> procs_used t"
proof -
  from assms obtain i where i: "first_index (\<lambda>i. i \<notin> procs_used t) [0..<Suc MAX_PROC_ID] = Some i"
    by (auto simp: FindFreeProcId_eq split: option.splits)
  then have "i < Suc MAX_PROC_ID" "i \<notin> procs_used t"
    by (auto simp: first_index_Some_iff simp del: upt_Suc)
  with i assms(1) show "0 \<le> FindFreeProcId t" "FindFreeProcId t \<le> int MAX_PROC_ID"
    "nat (FindFreeProcId t) \<notin> procs_used t"
    by (simp_all add: FindFreeProcId_eq del: upt_Suc)
qed

lemma FindFreeProcId_full:
  assumes "table_ok t"
  shows "FindFreeProcId t = -1 \<longleftrightarrow> length (query_map t) = Suc MAX_PROC_ID"
proof -
  have "FindFreeProcId t = -1 \<longleftrightarrow> first_index (\<lambda>i. i \<notin> procs_used t) [0..<Suc MAX_PROC_ID] = None"
    by (simp add: FindFreeProcId_eq assms split: option.split)
  also have "\<dots> \<longleftrightarrow> {..MAX_PROC_ID} \<subseteq> procs_used t"
    by (auto simp: first_index_None_iff less_Suc_eq_le simp del: upt_Suc)
  also have "\<dots> \<longleftrightarrow> procs_used t = {..MAX_PROC_ID}"
    using procs_used_bound [OF assms] by auto
  also have "\<dots> \<longleftrightarrow> card (procs_used t) = Suc MAX_PROC_ID"
    using procs_used_bound [OF assms] by (metis card_atMost card_subset_eq finite_atMost)
  finally show ?thesis by (simp add: card_procs_used assms)
qed

lemma length_query_map_le: "table_ok t \<Longrightarrow> length (query_map t) \<le> Suc MAX_PROC_ID"
  using card_mono [OF _ procs_used_bound, of t] by (simp add: card_procs_used)

section \<open>Every operation keeps the invariant\<close>

lemma table_ok_new [simp]: "table_ok new_QueryStateTable"
  by (simp add: table_ok_def new_QueryStateTable_def MAX_QUERY_ID_def)

lemma table_ok_put_new:
  assumes "table_ok t" "qs_ok k q" "nat (qs_proc_id q) \<notin> procs_used t" "1 \<le> n" "n \<le> MAX_QUERY_ID"
  shows "table_ok (t\<lparr>query_map := omap_put k q (query_map t), next_query_id := n\<rparr>)"
proof -
  have "qs_proc_id (snd p) \<noteq> qs_proc_id q" if "p \<in> set (query_map t)" for p
    using assms(3) that by (fastforce simp: procs_used_def image_iff)
  then have "inj_on (\<lambda>p. qs_proc_id (snd p)) (insert (k, q) {p \<in> set (query_map t). fst p \<noteq> k})"
    using table_okD(5) [OF assms(1)] by (force simp: inj_on_def)
  with assms show ?thesis
    by (auto simp: table_ok_def omap_ok_put set_omap_put)
qed

lemma table_ok_put_same:
  assumes "table_ok t" "omap_find (query_map t) k = Some q" "qs_ok k q'"
    "qs_proc_id q' = qs_proc_id q"
  shows "table_ok (t\<lparr>query_map := omap_put k q' (query_map t)\<rparr>)"
proof -
  have mem: "(k, q) \<in> set (query_map t)"
    using assms(1,2) by (simp add: omap_find_in_set table_ok_def)
  have "inj_on (\<lambda>p. qs_proc_id (snd p)) (insert (k, q') {p \<in> set (query_map t). fst p \<noteq> k})"
    using table_okD(5) [OF assms(1)] mem assms(4) by (force simp: inj_on_def)
  with assms show ?thesis
    by (auto simp: table_ok_def omap_ok_put set_omap_put)
qed

lemma table_ok_erase:
  "table_ok t \<Longrightarrow> table_ok (t\<lparr>query_map := omap_erase k (query_map t)\<rparr>)"
  by (auto simp: table_ok_def omap_ok_erase inj_on_def)

lemma table_ok_find: "table_ok t \<Longrightarrow> omap_find (query_map t) k = Some q \<Longrightarrow> qs_ok k q"
  by (metis fst_conv omap_find_in_set snd_conv table_ok_def)

lemma table_ok_Remove: "table_ok t \<Longrightarrow> table_ok (snd (QST_Remove t k))"
  by (auto simp: QST_Remove_def table_ok_erase split: option.splits)

lemma table_ok_Update: "table_ok t \<Longrightarrow> table_ok (snd (QST_Update t k tok is_end))"
  by (auto simp: QST_Update_def Let_def split: option.splits
      intro!: table_ok_Remove table_ok_put_same dest: table_ok_find simp: qs_ok_def)

lemma table_ok_UpdateEncoderEnd:
  "table_ok t \<Longrightarrow> table_ok (snd (QST_UpdateEncoderEnd copy_rows t k out r n))"
  by (auto simp: QST_UpdateEncoderEnd_def Let_def split: option.splits
      intro!: table_ok_Remove table_ok_put_same dest: table_ok_find simp: qs_ok_def)

lemma table_ok_Add: 
  assumes "table_ok t"
  shows "table_ok (snd (QST_Add t enc dec spec strat mx))"
proof (cases "FindFreeProcId t < 0 \<or> FindFreeProcId t > int MAX_PROC_ID")
  case True
  then show ?thesis using assms by (simp add: QST_Add_def)
next
  case False
  then have "FindFreeProcId t \<noteq> -1" by auto
  note free = FindFreeProcId_range [OF assms this]
  show ?thesis using False free table_okD(2,3) [OF assms]
    by (auto simp: QST_Add_def Let_def qs_ok_def new_QueryState_def MAX_QUERY_ID_def
        intro!: table_ok_put_new [OF assms])
qed

lemma table_ok_Clear: "table_ok (QST_Clear t)"
  by (simp add: QST_Clear_def table_ok_def MAX_QUERY_ID_def)

text \<open>The tables the engine can hold: any sequence of operations from the empty one.\<close>

inductive qst_reach :: "('o \<Rightarrow> int \<Rightarrow> int \<Rightarrow> 't) \<Rightarrow> 't QueryStateTable \<Rightarrow> bool"
  for copy_rows :: "'o \<Rightarrow> int \<Rightarrow> int \<Rightarrow> 't" where
  reach_new: "qst_reach copy_rows new_QueryStateTable"
| reach_Add: "qst_reach copy_rows t \<Longrightarrow> qst_reach copy_rows (snd (QST_Add t enc dec spec strat mx))"
| reach_Update: "qst_reach copy_rows t \<Longrightarrow> qst_reach copy_rows (snd (QST_Update t k tok is_end))"
| reach_EncoderEnd: "qst_reach copy_rows t \<Longrightarrow>
    qst_reach copy_rows (snd (QST_UpdateEncoderEnd copy_rows t k out r n))"
| reach_Remove: "qst_reach copy_rows t \<Longrightarrow> qst_reach copy_rows (snd (QST_Remove t k))"
| reach_Clear: "qst_reach copy_rows t \<Longrightarrow> qst_reach copy_rows (QST_Clear t)"

lemma qst_reach_table_ok: "qst_reach copy_rows t \<Longrightarrow> table_ok t"
  by (induction rule: qst_reach.induct)
    (simp_all add: table_ok_Add table_ok_Update table_ok_UpdateEncoderEnd table_ok_Remove table_ok_Clear)

section \<open>Refinement: sessions and their token histories\<close>

text \<open>
  What a client of the table sees: a partial map from live query ids to the tokens the
  model has been given so far (prefix first, then the tokens of the next step).
\<close>

definition history :: "'t QueryState \<Rightarrow> int list" where
  "history q = qs_prefix_tokens q @ qs_decoder_tokens q"

definition abs_table :: "'t QueryStateTable \<Rightarrow> (int \<rightharpoonup> int list)" where
  "abs_table t = (\<lambda>k. map_option history (omap_find (query_map t) k))"

definition spec_Remove :: "(int \<rightharpoonup> int list) \<Rightarrow> int \<Rightarrow> bool \<times> (int \<rightharpoonup> int list)" where
  "spec_Remove m k = (m k \<noteq> None, m(k := None))"

definition spec_Update :: "(int \<rightharpoonup> int list) \<Rightarrow> int \<Rightarrow> int \<Rightarrow> bool \<Rightarrow> bool \<times> (int \<rightharpoonup> int list)" where
  "spec_Update m k tok is_end = (m k \<noteq> None,
     (case m k of None \<Rightarrow> m | Some h \<Rightarrow> m(k := (if is_end then None else Some (h @ [tok])))))"

lemma abs_table_new [simp]: "abs_table new_QueryStateTable = Map.empty"
  by (simp add: abs_table_def new_QueryStateTable_def)

lemma abs_Remove:
  "table_ok t \<Longrightarrow> map_prod id abs_table (QST_Remove t k) = spec_Remove (abs_table t) k"
  by (auto simp: QST_Remove_def spec_Remove_def abs_table_def omap_find_erase fun_eq_iff
      split: option.splits)

lemma abs_Update:
  "table_ok t \<Longrightarrow> map_prod id abs_table (QST_Update t k tok is_end) = spec_Update (abs_table t) k tok is_end"
  by (auto simp: QST_Update_def QST_Remove_def spec_Update_def abs_table_def history_def
      omap_find_put omap_find_erase fun_eq_iff split: option.splits)

lemma QST_Add_cases:
  assumes "table_ok t"
  shows "length (query_map t) = Suc MAX_PROC_ID \<Longrightarrow> QST_Add t enc dec spec strat mx = (-1, t)"
    and "length (query_map t) \<noteq> Suc MAX_PROC_ID \<Longrightarrow> fst (QST_Add t enc dec spec strat mx) = next_query_id t"
    and "length (query_map t) \<noteq> Suc MAX_PROC_ID \<Longrightarrow>
      abs_table (snd (QST_Add t enc dec spec strat mx)) = (abs_table t)(next_query_id t \<mapsto> dec)"
proof -
  show "length (query_map t) = Suc MAX_PROC_ID \<Longrightarrow> QST_Add t enc dec spec strat mx = (-1, t)"
    using FindFreeProcId_full [OF assms] by (simp add: QST_Add_def Let_def)
next
  assume "length (query_map t) \<noteq> Suc MAX_PROC_ID"
  then have "FindFreeProcId t \<noteq> -1" using FindFreeProcId_full [OF assms] by simp
  then have "\<not> (FindFreeProcId t < 0 \<or> FindFreeProcId t > int MAX_PROC_ID)"
    using FindFreeProcId_range [OF assms] by fastforce
  then show "fst (QST_Add t enc dec spec strat mx) = next_query_id t"
    and "abs_table (snd (QST_Add t enc dec spec strat mx)) = (abs_table t)(next_query_id t \<mapsto> dec)"
    by (auto simp: QST_Add_def Let_def abs_table_def omap_find_put history_def new_QueryState_def)
qed

text \<open>
  A store of sessions as the engine uses it: one update per query and token. The
  client runs a whole batch of updates and learns the history of every session.
\<close>

fun run_updates :: "('s \<Rightarrow> int \<Rightarrow> int \<Rightarrow> bool \<Rightarrow> bool \<times> 's) \<Rightarrow> 's \<Rightarrow> (int \<times> int \<times> bool) list \<Rightarrow> bool \<times> 's" where
  "run_updates upd s [] = (True, s)"
| "run_updates upd s ((k, tok, is_end) # xs) =
     (let (r1, s1) = upd s k tok is_end; (r2, s2) = run_updates upd s1 xs in (r1 \<and> r2, s2))"

locale session_store =
  fixes upd :: "'s \<Rightarrow> int \<Rightarrow> int \<Rightarrow> bool \<Rightarrow> bool \<times> 's"
    and view :: "'s \<Rightarrow> (int \<rightharpoonup> int list)"
    and ok :: "'s \<Rightarrow> bool"
  assumes upd_view: "ok s \<Longrightarrow> map_prod id view (upd s k tok is_end) = spec_Update (view s) k tok is_end"
    and upd_ok: "ok s \<Longrightarrow> ok (snd (upd s k tok is_end))"
begin

lemma upd_fst: "ok s \<Longrightarrow> fst (upd s k tok is_end) = (view s k \<noteq> None)"
  using upd_view [of s k tok is_end] by (cases "upd s k tok is_end") (simp add: spec_Update_def)

lemma upd_snd: "ok s \<Longrightarrow> view (snd (upd s k tok is_end)) = snd (spec_Update (view s) k tok is_end)"
  by (metis id_apply map_prod_def snd_map_prod upd_view)

lemma run_updates_ok: "ok s \<Longrightarrow> ok (snd (run_updates upd s xs))"
proof (induction xs arbitrary: s)
  case (Cons x xs)
  then show ?case by (cases x) (auto simp: split_beta dest: upd_ok)
qed simp

lemma run_updates_view:
  assumes "ok s" "distinct (map fst xs)"
  shows "view (snd (run_updates upd s xs)) k =
    (case map_of xs k of None \<Rightarrow> view s k
     | Some (tok, is_end) \<Rightarrow>
         (case view s k of None \<Rightarrow> None | Some h \<Rightarrow> if is_end then None else Some (h @ [tok])))"
  using assms
proof (induction xs arbitrary: s)
  case (Cons x xs)
  obtain j tok e where x: "x = (j, tok, e)" by (cases x)
  let ?s = "snd (upd s j tok e)"
  have IH: "view (snd (run_updates upd ?s xs)) k =
    (case map_of xs k of None \<Rightarrow> view ?s k
     | Some (tok, is_end) \<Rightarrow>
         (case view ?s k of None \<Rightarrow> None | Some h \<Rightarrow> if is_end then None else Some (h @ [tok])))"
    using Cons by (simp add: x upd_ok)
  have "map_of xs j = None" using Cons.prems x by (simp add: map_of_eq_None_iff)
  moreover have "snd (run_updates upd s (x # xs)) = snd (run_updates upd ?s xs)"
    by (simp add: x split_beta)
  ultimately show ?case using IH Cons.prems(1)
    by (cases "k = j") (auto simp: x upd_snd spec_Update_def split: option.splits)
qed simp

lemma run_updates_fst:
  assumes "ok s" "distinct (map fst xs)"
  shows "fst (run_updates upd s xs) \<longleftrightarrow> fst ` set xs \<subseteq> dom (view s)"
  using assms
proof (induction xs arbitrary: s)
  case (Cons x xs)
  obtain j tok e where x: "x = (j, tok, e)" by (cases x)
  let ?s = "snd (upd s j tok e)"
  have "fst (run_updates upd ?s xs) \<longleftrightarrow> fst ` set xs \<subseteq> dom (view ?s)"
    using Cons by (simp add: x upd_ok)
  moreover have "fst ` set xs \<subseteq> dom (view ?s) \<longleftrightarrow> fst ` set xs \<subseteq> dom (view s)"
    using Cons.prems x
    by (force simp: upd_snd spec_Update_def subset_iff dom_def split: option.splits)
  ultimately show ?case using Cons.prems(1) by (auto simp: x split_beta upd_fst)
qed simp

end

interpretation qst: session_store QST_Update abs_table table_ok
  by unfold_locales (simp_all add: abs_Update table_ok_Update)

section \<open>Selecting a batch\<close>

lemma omap_put_last:
  "\<forall>x \<in> fst ` set m. x < k \<Longrightarrow> omap_put k v m = m @ [(k, v)]"
  by (induction k v m rule: omap_put.induct) auto

text \<open>
  The batch is read off the map in order, so the loop only ever appends; \<open>take_batch\<close> is
  the same selection over lists, without the accumulator map.
\<close>

definition batch_cost :: "bool \<Rightarrow> int \<Rightarrow> 't QueryState \<Rightarrow> int" where
  "batch_cost dec_only next_net q =
     (if \<not> dec_only \<and> next_net = 0 then int (length (qs_encoder_input_tokens q))
      else int (length (qs_decoder_tokens q)))"

primrec take_batch :: "bool \<Rightarrow> bool \<Rightarrow> int \<Rightarrow> int \<Rightarrow> (int \<times> 't QueryState) list \<Rightarrow> int \<Rightarrow> int \<Rightarrow> int
    \<Rightarrow> (int \<times> 't QueryState) list" where
  "take_batch enc_only dec_only mq mt [] num next_net token_num = []"
| "take_batch enc_only dec_only mq mt (p # rest) num next_net token_num =
     (if 0 \<le> next_net \<and> \<not> enc_only \<and> \<not> dec_only \<and> next_net \<noteq> qs_next_net (snd p)
      then take_batch enc_only dec_only mq mt rest num next_net token_num
      else p #
        (if mt > 0 \<and> token_num + batch_cost dec_only next_net (snd p) \<ge> mt \<or> mq > 0 \<and> num + 1 \<ge> mq then []
         else take_batch enc_only dec_only mq mt rest (num + 1)
           (if next_net < 0 then qs_next_net (snd p) else next_net)
           (token_num + batch_cost dec_only next_net (snd p))))"

lemma QST_Get_loop_take_batch:
  "omap_ok (qmap @ rest) \<Longrightarrow>
    QST_Get_loop enc_only dec_only mq mt rest qmap next_net token_num =
    qmap @ take_batch enc_only dec_only mq mt rest (int (length qmap)) next_net token_num"
proof (induction rest arbitrary: qmap next_net token_num)
  case (Cons p rest)
  obtain k q where p: "p = (k, q)" by (cases p)
  have put: "omap_put k q qmap = qmap @ [(k, q)]"
    using Cons.prems p by (intro omap_put_last) (auto simp: omap_ok_def sorted_wrt_append)
  have ok: "omap_ok (qmap @ rest)" "omap_ok ((qmap @ [(k, q)]) @ rest)"
    using Cons.prems p by (auto simp: omap_ok_def sorted_wrt_append)
  show ?case
    using Cons.IH [OF ok(1), of next_net token_num] Cons.IH [OF ok(2)]
    by (auto simp: p put Let_def batch_cost_def add.commute)
qed simp

lemma take_batch_subseq: "subseq (take_batch enc_only dec_only mq mt rest num next_net token_num) rest"
  by (induction rest arbitrary: num next_net token_num) auto

lemma take_batch_first:
  "next_net < 0 \<Longrightarrow> rest \<noteq> [] \<Longrightarrow>
    \<exists>sel. take_batch enc_only dec_only mq mt rest num next_net token_num = hd rest # sel"
  by (cases rest) auto

lemma take_batch_same_net:
  assumes "0 \<le> next_net" "p \<in> set (take_batch False False mq mt rest num next_net token_num)"
  shows "qs_next_net (snd p) = next_net"
  using assms by (induction rest arbitrary: num token_num) (auto simp del: not_less split: if_splits)

lemma take_batch_count:
  "mq > 0 \<Longrightarrow> num < mq \<Longrightarrow>
    num + int (length (take_batch enc_only dec_only mq mt rest num next_net token_num)) \<le> mq"
proof (induction rest arbitrary: num next_net token_num)
  case (Cons p rest)
  show ?case
    using Cons.IH [where num = num and token_num = token_num and next_net = next_net]
      Cons.IH [where num = "num + 1" and token_num = "token_num + batch_cost dec_only next_net (snd p)"
        and next_net = "if next_net < 0 then qs_next_net (snd p) else next_net"] Cons.prems
    by auto
qed simp

text \<open>The cost the loop charges, query by query: the first query is charged before the net is known.\<close>

fun batch_costs :: "bool \<Rightarrow> int \<Rightarrow> (int \<times> 't QueryState) list \<Rightarrow> int list" where
  "batch_costs dec_only next_net [] = []"
| "batch_costs dec_only next_net (p # ps) = batch_cost dec_only next_net (snd p)
     # batch_costs dec_only (if next_net < 0 then qs_next_net (snd p) else next_net) ps"

lemma take_batch_budget:
  "mt > 0 \<Longrightarrow> token_num < mt \<Longrightarrow>
    token_num + sum_list (batch_costs dec_only next_net
      (butlast (take_batch enc_only dec_only mq mt rest num next_net token_num))) < mt"
proof (induction rest arbitrary: num next_net token_num)
  case (Cons p rest)
  show ?case
  proof (cases "mt > 0 \<and> token_num + batch_cost dec_only next_net (snd p) \<ge> mt \<or> mq > 0 \<and> num + 1 \<ge> mq")
    case True
    then show ?thesis using Cons.prems Cons.IH [where token_num = token_num and num = num and next_net = next_net] by auto
  next
    case False
    with Cons.IH [where token_num = "token_num + batch_cost dec_only next_net (snd p)" and num = "num + 1"
        and next_net = "if next_net < 0 then qs_next_net (snd p) else next_net"]
    show ?thesis using Cons.prems Cons.IH [where token_num = token_num and num = num and next_net = next_net]
      by (auto simp: algebra_simps)
  qed
qed simp

text \<open>
  The tokens that a query puts into the input of the network: those of the encoder input in the
  encoder phase, otherwise those that the decoder has not seen.
\<close>

definition phase_cost :: "bool \<Rightarrow> (int \<times> 't QueryState) \<Rightarrow> int" where
  "phase_cost encoder p = int (length (if encoder then qs_encoder_input_tokens (snd p) else qs_decoder_tokens (snd p)))"

lemma batch_costs_phase:
  "0 \<le> next_net \<Longrightarrow> batch_costs dec_only next_net ps = map (phase_cost (\<not> dec_only \<and> next_net = 0)) ps"
  by (induction ps) (auto simp: batch_cost_def phase_cost_def)

lemma take_batch_all:
  assumes "0 \<le> next_net"
    and "num + int (length (take_batch enc_only dec_only mq mt rest num next_net token_num)) < mq"
    and "token_num + sum_list (batch_costs dec_only next_net (take_batch enc_only dec_only mq mt rest num next_net token_num)) < mt"
  shows "take_batch enc_only dec_only mq mt rest num next_net token_num
    = filter (\<lambda>p. enc_only \<or> dec_only \<or> qs_next_net (snd p) = next_net) rest"
  using assms
proof (induction rest arbitrary: num token_num)
  case (Cons p rest)
  let ?c = "batch_cost dec_only next_net (snd p)"
  show ?case
  proof (cases "enc_only \<or> dec_only \<or> qs_next_net (snd p) = next_net")
    case False
    then show ?thesis using Cons.IH [of num token_num] Cons.prems by auto
  next
    case True
    then have more: "\<not> (mt > 0 \<and> token_num + ?c \<ge> mt \<or> mq > 0 \<and> num + 1 \<ge> mq)"
      using Cons.prems by (auto split: if_splits)
    then show ?thesis using True Cons.IH [of "num + 1" "token_num + ?c"] Cons.prems by (auto simp: algebra_simps)
  qed
qed simp

text \<open>The selection from a table that is not empty.\<close>

lemma take_batch_head:
  assumes "rest \<noteq> []" "0 \<le> qs_next_net (snd (hd rest))" "mq > 0" "mt > 0"
    and "sel = take_batch enc_only dec_only mq mt rest 0 (-1) 0"
    and "encoder = (\<not> dec_only \<and> qs_next_net (snd (hd rest)) = 0)"
  shows "phase_cost False (hd sel) + sum_list (map (phase_cost encoder) (butlast (tl sel))) < mt \<or> tl sel = []"
    and "int (length sel) < mq \<Longrightarrow> phase_cost False (hd sel) + sum_list (map (phase_cost encoder) (tl sel)) < mt \<Longrightarrow>
      sel = filter (\<lambda>p. enc_only \<or> dec_only \<or> qs_next_net (snd p) = qs_next_net (snd (hd rest))) rest"
proof -
  obtain p ps where rest: "rest = p # ps" using assms(1) by (cases rest) auto
  let ?n = "qs_next_net (snd p)" and ?c = "batch_cost dec_only (-1) (snd p)"
  have c: "?c = phase_cost False p" by (simp add: batch_cost_def phase_cost_def)
  have n: "0 \<le> ?n" and E: "encoder = (\<not> dec_only \<and> ?n = 0)" using assms(2,6) rest by auto
  have sel: "sel = p # (if ?c \<ge> mt \<or> 1 \<ge> mq then [] else take_batch enc_only dec_only mq mt ps 1 ?n ?c)"
    using assms(3-5) rest by simp
  show "phase_cost False (hd sel) + sum_list (map (phase_cost encoder) (butlast (tl sel))) < mt \<or> tl sel = []"
    using sel c take_batch_budget [OF assms(4), of ?c dec_only ?n enc_only mq ps 1] n E
    by (auto simp: batch_costs_phase)
  assume len: "int (length sel) < mq" and cost: "phase_cost False (hd sel) + sum_list (map (phase_cost encoder) (tl sel)) < mt"
  have "0 \<le> sum_list (map (phase_cost encoder) (tl sel))" by (rule sum_list_nonneg) (auto simp: phase_cost_def)
  then have go: "\<not> (?c \<ge> mt \<or> 1 \<ge> mq)" using len cost sel c by auto
  then have "tl sel = take_batch enc_only dec_only mq mt ps 1 ?n ?c" using sel by simp
  then show "sel = filter (\<lambda>p. enc_only \<or> dec_only \<or> qs_next_net (snd p) = qs_next_net (snd (hd rest))) rest"
    using take_batch_all [OF n, of 1 enc_only dec_only mq mt ps ?c] len cost sel c go rest n E by (simp add: batch_costs_phase)
qed

section \<open>Query ids wrap around\<close>

lemma QST_Add_room:
  assumes "table_ok t" "length (query_map t) \<noteq> Suc MAX_PROC_ID"
  shows "\<exists>q. QST_Add t enc dec spec strat mx = (next_query_id t,
    t\<lparr>query_map := omap_put (next_query_id t) q (query_map t),
      next_query_id := (if next_query_id t < MAX_QUERY_ID then next_query_id t + 1 else 1)\<rparr>)
    \<and> qs_prefix_tokens q = [] \<and> qs_decoder_tokens q = dec"
proof -
  have "FindFreeProcId t \<noteq> -1" using FindFreeProcId_full [OF assms(1)] assms(2) by simp
  then have "\<not> (FindFreeProcId t < 0 \<or> FindFreeProcId t > int MAX_PROC_ID)"
    using FindFreeProcId_range [OF assms(1)] by fastforce
  then show ?thesis by (auto simp: QST_Add_def Let_def new_QueryState_def)
qed

text \<open>One query stays live while others come and go: every further id is used once.\<close>

lemma reach_one_live:
  fixes copy_rows :: "'o \<Rightarrow> int \<Rightarrow> int \<Rightarrow> 't"
  shows "1 \<le> n \<Longrightarrow> n < 10000 \<Longrightarrow>
    \<exists>t q. qst_reach copy_rows t \<and> query_map t = [(1, q)] \<and> next_query_id t = int n + 1
      \<and> history q = [7]"
proof (induction n rule: nat_induct_at_least)
  case base
  have "\<exists>q. QST_Add (new_QueryStateTable :: 't QueryStateTable) [] [7] default_ModelSpec 0 0
      = (1, \<lparr>query_map = [(1, q)], next_query_id = 2\<rparr>) \<and> history q = [7]"
    using QST_Add_room [OF table_ok_new, of "[]" "[7]" default_ModelSpec 0 0]
    by (fastforce simp: new_QueryStateTable_def MAX_QUERY_ID_def MAX_PROC_ID_def history_def)
  then obtain q where "QST_Add (new_QueryStateTable :: 't QueryStateTable) [] [7] default_ModelSpec 0 0
      = (1, \<lparr>query_map = [(1, q)], next_query_id = 2\<rparr>)" "history q = [7]" by blast
  then show ?case
    using reach_Add [OF reach_new, of copy_rows "[]" "[7]" default_ModelSpec 0 0]
    by (intro exI [of _ "\<lparr>query_map = [(1, q)], next_query_id = 2\<rparr>"]) auto
next
  case (Suc n)
  then obtain t q where t: "qst_reach copy_rows t" "query_map t = [(1, q)]" "next_query_id t = int n + 1"
    "history q = [7]" by auto
  obtain q' where add: "QST_Add t [] [] default_ModelSpec 0 0
      = (int n + 1, t\<lparr>query_map := [(1, q), (int n + 1, q')], next_query_id := 2 + int n\<rparr>)"
    using QST_Add_room [OF qst_reach_table_ok [OF t(1)], of "[]" "[]" default_ModelSpec 0 0] t Suc
    by (auto simp: MAX_QUERY_ID_def MAX_PROC_ID_def)
  let ?t = "snd (QST_Remove (snd (QST_Add t [] [] default_ModelSpec 0 0)) (int n + 1))"
  have "qst_reach copy_rows ?t" using t by (intro reach_Remove reach_Add)
  moreover have "query_map ?t = [(1, q)]" "next_query_id ?t = int n + 2"
    using Suc by (simp_all add: add QST_Remove_def omap_find_Cons omap_erase_def)
  ultimately show ?case using t(4) by (intro exI [of _ ?t] exI [of _ q]) auto
qed

lemma reach_wrapped:
  "\<exists>t q. qst_reach copy_rows t \<and> query_map t = [(1, q)] \<and> next_query_id t = 1 \<and> history q = [7]"
proof -
  obtain t q where t: "qst_reach copy_rows t" "query_map t = [(1, q)]" "next_query_id t = 10000"
    "history q = [7]" using reach_one_live [of 9999 copy_rows] by auto
  obtain q' where add: "QST_Add t [] [] default_ModelSpec 0 0
      = (10000, t\<lparr>query_map := [(1, q), (10000, q')], next_query_id := 1\<rparr>)"
    using QST_Add_room [OF qst_reach_table_ok [OF t(1)], of "[]" "[]" default_ModelSpec 0 0] t
    by (auto simp: MAX_QUERY_ID_def MAX_PROC_ID_def)
  let ?t = "snd (QST_Remove (snd (QST_Add t [] [] default_ModelSpec 0 0)) 10000)"
  have "qst_reach copy_rows ?t" using t by (intro reach_Remove reach_Add)
  moreover have "query_map ?t = [(1, q)]" "next_query_id ?t = 1"
    by (simp_all add: add QST_Remove_def omap_find_Cons omap_erase_def)
  ultimately show ?thesis using t(4) by blast
qed

section \<open>Properties of the table\<close>

text \<open>
  C1. Key-value cache slots are never shared: in every table the engine can reach, two
  different live queries hold different process ids, and a process id lies in [0, 63].
\<close>

theorem live_queries_own_distinct_slots:
  assumes "qst_reach copy_rows t"
    and "GetQueryState t a = Some qa" and "GetQueryState t b = Some qb" and "a \<noteq> b"
  shows "qs_proc_id qa \<noteq> qs_proc_id qb \<and> 0 \<le> qs_proc_id qa \<and> qs_proc_id qa \<le> int MAX_PROC_ID"
proof -
  note ok = qst_reach_table_ok [OF assms(1)]
  have "(a, qa) \<in> set (query_map t)" "(b, qb) \<in> set (query_map t)"
    using assms(2,3) table_okD(1) [OF ok] by (simp_all add: GetQueryState_def omap_find_in_set)
  with table_okD(4,5) [OF ok] assms(4) show ?thesis
    by (force simp: inj_on_def qs_ok_def)
qed

definition two_queries :: "int QueryStateTable" where
  "two_queries = snd (QST_Add (snd (QST_Add new_QueryStateTable [] [5, 6] default_ModelSpec 0 8))
     [] [7] default_ModelSpec 0 8)"

lemma two_queries_eval:
  "map_option qs_proc_id (GetQueryState two_queries 1) = Some 0"
  "map_option qs_proc_id (GetQueryState two_queries 2) = Some 1"
  by code_simp+

lemma reach_two_queries: "qst_reach copy_rows two_queries"
  unfolding two_queries_def by (intro reach_Add reach_new)

theorem live_queries_own_distinct_slots_witness:
  "\<exists>qa qb. GetQueryState two_queries 1 = Some qa \<and> GetQueryState two_queries 2 = Some qb
    \<and> qs_proc_id qa \<noteq> qs_proc_id qb \<and> 0 \<le> qs_proc_id qa \<and> qs_proc_id qa \<le> int MAX_PROC_ID"
proof -
  obtain qa qb where q: "GetQueryState two_queries 1 = Some qa" "GetQueryState two_queries 2 = Some qb"
    using two_queries_eval by auto
  with live_queries_own_distinct_slots [OF reach_two_queries [of "\<lambda>(d::int) r n. 0"] q] show ?thesis
    by simp
qed

text \<open>
  C17. Admission: on a table that satisfies the invariant, \<open>Add\<close> refuses a query exactly
  when all 64 slots are taken, and then changes nothing; otherwise it returns the next id
  and the sessions are those of before with the new one, whose history is its prompt.
\<close>

theorem Add_admission:
  assumes "table_ok t"
  shows "if length (query_map t) = 64
    then QST_Add t enc dec spec strat mx = (-1, t)
    else fst (QST_Add t enc dec spec strat mx) = next_query_id t
      \<and> abs_table (snd (QST_Add t enc dec spec strat mx)) = (abs_table t)(next_query_id t \<mapsto> dec)
      \<and> table_ok (snd (QST_Add t enc dec spec strat mx))"
  using QST_Add_cases [OF assms] table_ok_Add [OF assms] by (simp add: MAX_PROC_ID_def)

theorem Add_admission_witness:
  "table_ok two_queries \<and> abs_table (snd (QST_Add two_queries [] [9] default_ModelSpec 0 8)) 3 = Some [9]"
proof -
  have ok: "table_ok two_queries" using qst_reach_table_ok [OF reach_two_queries] .
  have "length (query_map two_queries) \<noteq> 64" "next_query_id two_queries = 3" by code_simp+
  with Add_admission [OF ok, of "[]" "[9]" default_ModelSpec 0 8] ok show ?thesis by simp
qed

text \<open>
  C9. \<open>Update\<close> implements the session specification: it succeeds exactly for a live query,
  appends the token to that query's history (or ends the session), and leaves every other
  session as it was. The stored prefix length stays the number of prefix tokens.
\<close>

theorem Update_refines:
  assumes "table_ok t"
  shows "map_prod id abs_table (QST_Update t k tok is_end) = spec_Update (abs_table t) k tok is_end
    \<and> table_ok (snd (QST_Update t k tok is_end))"
  using abs_Update [OF assms] table_ok_Update [OF assms] by blast

theorem Update_refines_witness:
  "table_ok two_queries \<and>
    map_prod id abs_table (QST_Update two_queries 1 8 False) = spec_Update (abs_table two_queries) 1 8 False"
  using Update_refines [OF qst_reach_table_ok [OF reach_two_queries], of 1 8 False]
    qst_reach_table_ok [OF reach_two_queries] by blast



text \<open>
  C26. Ids are reused after 10000: from the empty table the engine can reach a table where one
  query is live, slots are free, and the next \<open>Add\<close> returns the id of that live query and
  replaces its history by the new prompt.
\<close>

theorem Add_can_replace_live_query:
  "\<exists>t. qst_reach copy_rows t \<and> length (query_map t) = 1 \<and> abs_table t 1 = Some [7]
    \<and> fst (QST_Add t [] [8] default_ModelSpec 0 0) = 1
    \<and> abs_table (snd (QST_Add t [] [8] default_ModelSpec 0 0)) 1 = Some [8]"
proof -
  obtain t q where t: "qst_reach copy_rows t" "query_map t = [(1, q)]" "next_query_id t = 1"
    "history q = [7]" using reach_wrapped by blast
  with QST_Add_cases(2,3) [OF qst_reach_table_ok [OF t(1)], of "[]" "[8]" default_ModelSpec 0 0]
  show ?thesis by (intro exI [of _ t]) (simp add: MAX_PROC_ID_def abs_table_def omap_find_Cons)
qed

end
