(* ===== verification/TokenTrie.thy ===== *)
theory TokenTrie
  imports Prelude
begin

text \<open>
  The token trie (src/3rd_party/sslib/naive_trie.h and .cc): nodes are indices into a list of
  values, the links are a hash map from (node, character) to node, the root is the id
  \<open>UINT32_MAX\<close>, which also marks a node without a value. The hash map is the finite map it
  implements. The locale \<open>prefix_dictionary\<close> states what the tokenizer relies on.
\<close>

section \<open>State and operations\<close>

definition UINT32_MAX :: nat where "UINT32_MAX = 2 ^ 32 - 1"

record NaiveTrie =
  link_map :: "((nat \<times> char) \<times> nat) list"
  node_list :: "nat list"
  new_value :: nat

definition new_NaiveTrie :: NaiveTrie where
  "new_NaiveTrie = \<lparr>link_map = [], node_list = [], new_value = 0\<rparr>"

definition Trie_Clear :: "NaiveTrie \<Rightarrow> NaiveTrie" where
  "Trie_Clear t = t\<lparr>link_map := [], node_list := []\<rparr>"

primrec AddEx_loop :: "string \<Rightarrow> nat \<Rightarrow> nat \<Rightarrow> bool \<Rightarrow> NaiveTrie \<Rightarrow> nat \<times> NaiveTrie" where
  "AddEx_loop [] node_id val is_replacing t = (UINT32_MAX, t)"
| "AddEx_loop (ch # rest) node_id val is_replacing t =
     (let node_value = (if rest = [] then val else UINT32_MAX)
      in case map_of (link_map t) (node_id, ch) of
           None \<Rightarrow>
             let new_node_id = length (node_list t);
                 t' = t\<lparr>node_list := node_list t @ [node_value],
                        link_map := ((node_id, ch), new_node_id) # link_map t\<rparr>
             in if rest = [] then (node_value, t') else AddEx_loop rest new_node_id val is_replacing t'
         | Some nid \<Rightarrow>
             if rest = []
             then (if is_replacing \<or> node_list t ! nid = UINT32_MAX
                   then (val, t\<lparr>node_list := (node_list t)[nid := val]\<rparr>)
                   else (node_list t ! nid, t))
             else AddEx_loop rest nid val is_replacing t)"

definition AddEx :: "NaiveTrie \<Rightarrow> string \<Rightarrow> nat \<Rightarrow> bool \<Rightarrow> nat \<times> NaiveTrie" where
  "AddEx t str val is_replacing =
     (if val = UINT32_MAX \<and> new_value t = UINT32_MAX then (UINT32_MAX, t)
      else
        let (v, t1) = (if val = UINT32_MAX then (new_value t, t\<lparr>new_value := new_value t + 1\<rparr>) else (val, t))
        in if str = [] then (UINT32_MAX, t1) else AddEx_loop str UINT32_MAX v is_replacing t1)"

definition Trie_Add :: "NaiveTrie \<Rightarrow> string \<Rightarrow> nat \<times> NaiveTrie" where
  "Trie_Add t str = AddEx t str UINT32_MAX False"

text \<open>\<open>PrefixSearch\<close> yields the found flag and the value.\<close>

primrec PrefixSearch_loop :: "string \<Rightarrow> nat \<Rightarrow> NaiveTrie \<Rightarrow> nat \<Rightarrow> bool \<times> nat" where
  "PrefixSearch_loop [] node_id t res = (True, res)"
| "PrefixSearch_loop (ch # rest) node_id t res =
     (case map_of (link_map t) (node_id, ch) of
        None \<Rightarrow> (False, res)
      | Some nid \<Rightarrow>
          PrefixSearch_loop rest nid t
            (if rest = [] \<and> nid < length (node_list t) then node_list t ! nid else res))"

definition PrefixSearch :: "NaiveTrie \<Rightarrow> string \<Rightarrow> bool \<times> nat" where
  "PrefixSearch t pre = (if pre = [] then (False, UINT32_MAX)
     else PrefixSearch_loop pre UINT32_MAX t UINT32_MAX)"

section \<open>What the nodes stand for\<close>

text \<open>The ghost list gives the path of every node; the root has the empty path.\<close>

definition tnode :: "string list \<Rightarrow> nat \<Rightarrow> string" where
  "tnode ps n = (if n = UINT32_MAX then [] else ps ! n)"

definition is_node :: "string list \<Rightarrow> nat \<Rightarrow> bool" where
  "is_node ps n \<longleftrightarrow> n = UINT32_MAX \<or> n < length ps"

definition trie_rep :: "NaiveTrie \<Rightarrow> string list \<Rightarrow> bool" where
  "trie_rep t ps \<longleftrightarrow> length (node_list t) = length ps \<and> distinct ps \<and> [] \<notin> set ps
     \<and> length ps \<le> UINT32_MAX
     \<and> (\<forall>p c. p @ [c] \<in> set ps \<longrightarrow> p = [] \<or> p \<in> set ps)
     \<and> (\<forall>n c m. is_node ps n \<longrightarrow>
          (map_of (link_map t) (n, c) = Some m \<longleftrightarrow> m < length ps \<and> ps ! m = tnode ps n @ [c]))
     \<and> (\<forall>k \<in> fst ` set (link_map t). is_node ps (fst k))"

lemma trie_repD:
  assumes "trie_rep t ps"
  shows "length (node_list t) = length ps" "distinct ps" "[] \<notin> set ps" "length ps \<le> UINT32_MAX"
    "p @ [c] \<in> set ps \<Longrightarrow> p = [] \<or> p \<in> set ps"
    "is_node ps n \<Longrightarrow> map_of (link_map t) (n, c) = Some m \<longleftrightarrow> m < length ps \<and> ps ! m = tnode ps n @ [c]"
    "k \<in> fst ` set (link_map t) \<Longrightarrow> is_node ps (fst k)"
  using assms by (auto simp: trie_rep_def)

lemma trie_rep_new: "trie_rep new_NaiveTrie []"
  by (auto simp: trie_rep_def new_NaiveTrie_def is_node_def)

lemma tnode_inj:
  assumes "distinct ps" "[] \<notin> set ps" "is_node ps n" "is_node ps m" "tnode ps n = tnode ps m"
  shows "n = m"
  using assms by (auto simp: tnode_def is_node_def nth_eq_iff_index_eq split: if_splits dest: nth_mem)

lemma link_None:
  assumes "trie_rep t ps" "is_node ps n" "map_of (link_map t) (n, c) = None"
  shows "tnode ps n @ [c] \<notin> set ps"
  using trie_repD(6) [OF assms(1,2), of c] assms(3) by (auto simp: in_set_conv_nth)

text \<open>A new node below an existing one.\<close>

lemma trie_rep_extend:
  assumes rep: "trie_rep t ps" and n: "is_node ps n" and none: "map_of (link_map t) (n, c) = None"
    and room: "length ps < UINT32_MAX"
  shows "trie_rep (t\<lparr>node_list := node_list t @ [v], link_map := ((n, c), length (node_list t)) # link_map t\<rparr>)
    (ps @ [tnode ps n @ [c]])"
proof -
  let ?x = "tnode ps n @ [c]" and ?ps = "ps @ [tnode ps n @ [c]]"
  note D = trie_repD [OF rep]
  have new: "?x \<notin> set ps" by (rule link_None [OF rep n none])
  have old: "tnode ?ps m = tnode ps m" if "is_node ps m" for m
    using that by (auto simp: tnode_def is_node_def nth_append)
  have this_node: "tnode ?ps (length ps) = ?x" using room by (simp add: tnode_def)
  have fresh: "map_of (link_map t) (length ps, d) = None" for d
  proof -
    have "\<not> is_node ps (length ps)" using room by (simp add: is_node_def)
    then have "(length ps, d) \<notin> fst ` set (link_map t)" using D(7) by fastforce
    then show ?thesis by (simp add: map_of_eq_None_iff)
  qed
  have no_child: "?x @ [d] \<notin> set ?ps" for d using D(5) [of ?x d] new by auto
  have link: "map_of (((n, c), length ps) # link_map t) (m, d) = Some k
      \<longleftrightarrow> k < length ?ps \<and> ?ps ! k = tnode ?ps m @ [d]" if m: "is_node ?ps m" for m d k
  proof (cases "m = length ps")
    case True
    have "\<not> (k < length ?ps \<and> ?ps ! k = ?x @ [d])" using no_child by (metis nth_mem)
    moreover have "n \<noteq> length ps" using n room by (auto simp: is_node_def)
    ultimately show ?thesis using True fresh this_node by auto
  next
    case False
    then have mps: "is_node ps m" using m by (auto simp: is_node_def)
    have eq: "tnode ps m @ [d] = ?x \<longleftrightarrow> m = n \<and> d = c"
      using tnode_inj [OF D(2,3) mps n] by auto
    show ?thesis using D(6) [OF mps, of d k] old [OF mps] eq none new
      by (auto simp: nth_append less_Suc_eq)
  qed
  have closed: "p = [] \<or> p \<in> set ?ps" if "p @ [d] \<in> set ?ps" for p d
    using that D(5) [of p d] n by (auto simp: tnode_def is_node_def split: if_splits)
  have nodes: "is_node ?ps (fst k)" if "k \<in> fst ` set (((n, c), length ps) # link_map t)" for k
  proof -
    have "is_node ps (fst k)" using that D(7) [of k] n by auto
    then show ?thesis by (auto simp: is_node_def)
  qed
  show ?thesis unfolding trie_rep_def using D(1-4) new room link closed nodes by auto
qed

definition node_val :: "NaiveTrie \<Rightarrow> string list \<Rightarrow> string \<Rightarrow> nat option" where
  "node_val t ps = map_of (zip ps (node_list t))"

lemma node_val_nth: "trie_rep t ps \<Longrightarrow> m < length ps \<Longrightarrow> node_val t ps (ps ! m) = Some (node_list t ! m)"
  using trie_repD(1,2) by (metis node_val_def map_of_zip_nth)

lemma node_val_None: "trie_rep t ps \<Longrightarrow> node_val t ps x = None \<longleftrightarrow> x \<notin> set ps"
  using trie_repD(1) by (simp add: node_val_def map_of_zip_is_None)

lemma node_val_extend:
  assumes "trie_rep t ps" "x \<notin> set ps"
  shows "map_of (zip (ps @ [x]) (node_list t @ [v])) y = (if y = x then Some v else node_val t ps y)"
proof -
  have "map_of (zip ps (node_list t)) x = None"
    using node_val_None [OF assms(1)] assms(2) by (simp add: node_val_def)
  moreover have "map_of (zip (ps @ [x]) (node_list t @ [v])) y = (case map_of (zip ps (node_list t)) y of
      Some z \<Rightarrow> Some z | None \<Rightarrow> if y = x then Some v else None)"
    using trie_repD(1) [OF assms(1)] by (auto simp: map_add_def simp del: map_of_zip_is_None split: option.split)
  ultimately show ?thesis
    by (cases "map_of (zip ps (node_list t)) y") (auto simp only: node_val_def option.case if_False if_True split: if_split)
qed

lemma trie_rep_set_value:
  assumes rep: "trie_rep t ps" and m: "m < length ps"
  shows "trie_rep (t\<lparr>node_list := (node_list t)[m := v]\<rparr>) ps"
    and "node_val (t\<lparr>node_list := (node_list t)[m := v]\<rparr>) ps y = (if y = ps ! m then Some v else node_val t ps y)"
proof -
  show r: "trie_rep (t\<lparr>node_list := (node_list t)[m := v]\<rparr>) ps" using rep by (simp add: trie_rep_def)
  show "node_val (t\<lparr>node_list := (node_list t)[m := v]\<rparr>) ps y = (if y = ps ! m then Some v else node_val t ps y)"
  proof (cases "y \<in> set ps")
    case True
    then obtain j where j: "j < length ps" "y = ps ! j" by (auto simp: in_set_conv_nth)
    then show ?thesis
      using node_val_nth [OF r j(1)] node_val_nth [OF rep j(1)] m trie_repD(1,2) [OF rep]
      by (auto simp: nth_eq_iff_index_eq)
  next
    case False
    then have "node_val (t\<lparr>node_list := (node_list t)[m := v]\<rparr>) ps y = None" "node_val t ps y = None"
      using node_val_None [OF r] node_val_None [OF rep] by blast+
    with False m show ?thesis by auto
  qed
qed

section \<open>Adding and searching\<close>

text \<open>The paths and values after adding \<open>s\<close> below the node with path \<open>p\<close>.\<close>

definition added :: "string \<Rightarrow> string \<Rightarrow> nat \<Rightarrow> (string \<rightharpoonup> nat) \<Rightarrow> (string \<rightharpoonup> nat)" where
  "added p s v D = (\<lambda>y. if y = p @ s then Some v
     else case D y of Some x \<Rightarrow> Some x
       | None \<Rightarrow> if (\<exists>q. q \<noteq> [] \<and> strict_prefix q s \<and> y = p @ q) then Some UINT32_MAX else None)"

lemma AddEx_loop_rep:
  assumes "trie_rep t ps" "is_node ps n" "s \<noteq> []" "length ps + length s \<le> UINT32_MAX"
  shows "\<exists>ps'. trie_rep (snd (AddEx_loop s n v True t)) ps'
    \<and> length ps' \<le> length ps + length s
    \<and> node_val (snd (AddEx_loop s n v True t)) ps' = added (tnode ps n) s v (node_val t ps)"
  using assms
proof (induction s arbitrary: n t ps)
  case (Cons ch rest)
  let ?p = "tnode ps n"
  note rep = Cons.prems(1) and node = Cons.prems(2)
  show ?case
  proof (cases "map_of (link_map t) (n, ch)")
    case None
    let ?nv = "if rest = [] then v else UINT32_MAX"
    let ?t = "t\<lparr>node_list := node_list t @ [?nv], link_map := ((n, ch), length (node_list t)) # link_map t\<rparr>"
    let ?ps = "ps @ [?p @ [ch]]"
    have room: "length ps < UINT32_MAX" using Cons.prems(4) by simp
    have new: "?p @ [ch] \<notin> set ps" by (rule link_None [OF rep node None])
    have rep': "trie_rep ?t ?ps" by (rule trie_rep_extend [OF rep node None room])
    have val': "node_val ?t ?ps = (node_val t ps)(?p @ [ch] \<mapsto> ?nv)"
      using node_val_extend [OF rep new] by (auto simp: node_val_def fun_eq_iff)
    have none: "node_val t ps (?p @ [ch]) = None" using node_val_None [OF rep] new by simp
    show ?thesis
    proof (cases "rest = []")
      case True
      have "added ?p [ch] v (node_val t ps) = (node_val t ps)(?p @ [ch] \<mapsto> v)"
        by (auto simp: added_def fun_eq_iff strict_prefix_def prefix_Cons split: option.splits)
      then show ?thesis using None True rep' val'
        by (intro exI [of _ ?ps]) (simp add: Let_def)
    next
      case False
      let ?m = "length ps"
      have m: "is_node ?ps ?m" "tnode ?ps ?m = ?p @ [ch]" using room by (simp_all add: is_node_def tnode_def)
      obtain ps' where ps': "trie_rep (snd (AddEx_loop rest ?m v True ?t)) ps'"
        "length ps' \<le> length ?ps + length rest"
        "node_val (snd (AddEx_loop rest ?m v True ?t)) ps' = added (?p @ [ch]) rest v (node_val ?t ?ps)"
        using Cons.IH [OF rep' m(1) False] Cons.prems(4) m(2) by auto
      have "added (?p @ [ch]) rest v (node_val ?t ?ps) = added ?p (ch # rest) v (node_val t ps)"
        unfolding val' using False none
        by (auto simp: added_def fun_eq_iff strict_prefix_def prefix_Cons split: option.splits)
      then show ?thesis using None False ps' trie_repD(1) [OF rep]
        by (intro exI [of _ ps']) (simp add: Let_def)
    qed
  next
    case (Some m)
    then have m: "m < length ps" "ps ! m = ?p @ [ch]" using trie_repD(6) [OF rep node] by auto
    then have mem: "node_val t ps (?p @ [ch]) \<noteq> None" using node_val_None [OF rep] by (metis nth_mem)
    show ?thesis
    proof (cases "rest = []")
      case True
      have "added ?p [ch] v (node_val t ps) = (node_val t ps)(?p @ [ch] \<mapsto> v)"
        by (auto simp: added_def fun_eq_iff strict_prefix_def prefix_Cons split: option.splits)
      then show ?thesis using Some True trie_rep_set_value [OF rep m(1), of v] m(2)
        by (intro exI [of _ ps]) (auto simp: Let_def fun_eq_iff)
    next
      case False
      have node_m: "is_node ps m" "tnode ps m = ?p @ [ch]"
        using m trie_repD(4) [OF rep] by (auto simp: is_node_def tnode_def)
      obtain ps' where ps': "trie_rep (snd (AddEx_loop rest m v True t)) ps'"
        "length ps' \<le> length ps + length rest"
        "node_val (snd (AddEx_loop rest m v True t)) ps' = added (?p @ [ch]) rest v (node_val t ps)"
        using Cons.IH [OF rep node_m(1) False] Cons.prems(4) node_m(2) by auto
      have "added (?p @ [ch]) rest v (node_val t ps) = added ?p (ch # rest) v (node_val t ps)"
        using False mem by (auto simp: added_def fun_eq_iff strict_prefix_def prefix_Cons split: option.splits)
      then show ?thesis using Some False ps' by (intro exI [of _ ps']) (simp add: Let_def)
    qed
  qed
qed simp

lemma PrefixSearch_loop_rep:
  assumes "trie_rep t ps" "is_node ps n" "q \<noteq> []"
  shows "PrefixSearch_loop q n t r =
    (case node_val t ps (tnode ps n @ q) of Some v \<Rightarrow> (True, v) | None \<Rightarrow> (False, r))"
  using assms
proof (induction q arbitrary: n r)
  case (Cons ch rest)
  note rep = Cons.prems(1) and node = Cons.prems(2)
  have closed: "tnode ps n @ [ch] \<in> set ps" if "tnode ps n @ ch # q \<in> set ps" for q
    using that
  proof (induction q rule: rev_induct)
    case (snoc x q)
    then show ?case using trie_repD(5) [OF rep, of "tnode ps n @ ch # q" x] by auto
  qed simp
  show ?case
  proof (cases "map_of (link_map t) (n, ch)")
    case None
    then have "node_val t ps (tnode ps n @ ch # rest) = None"
      using link_None [OF rep node None] closed node_val_None [OF rep] by blast
    with None show ?thesis by simp
  next
    case (Some m)
    then have m: "m < length ps" "ps ! m = tnode ps n @ [ch]" using trie_repD(6) [OF rep node] by auto
    then have node_m: "is_node ps m" "tnode ps m = tnode ps n @ [ch]"
      using trie_repD(4) [OF rep] by (auto simp: is_node_def tnode_def)
    show ?thesis
    proof (cases "rest = []")
      case True
      then show ?thesis using Some m node_val_nth [OF rep m(1)] trie_repD(1) [OF rep] by simp
    next
      case False
      then show ?thesis using Some Cons.IH [OF rep node_m(1) False, of r] node_m(2) by simp
    qed
  qed
qed simp

lemma PrefixSearch_rep:
  assumes "trie_rep t ps"
  shows "PrefixSearch t q = (if q = [] then (False, UINT32_MAX) else
    case node_val t ps q of Some v \<Rightarrow> (True, v) | None \<Rightarrow> (False, UINT32_MAX))"
proof (cases "q = []")
  case False
  have "is_node ps UINT32_MAX" "tnode ps UINT32_MAX = []" by (simp_all add: is_node_def tnode_def)
  with PrefixSearch_loop_rep [OF assms _ False, of UINT32_MAX UINT32_MAX] False show ?thesis
    by (simp add: PrefixSearch_def)
qed (simp add: PrefixSearch_def)

section \<open>The dictionary a trie implements\<close>

definition trie_view :: "NaiveTrie \<Rightarrow> (string \<rightharpoonup> nat)" where
  "trie_view t s = (case PrefixSearch t s of (found, v) \<Rightarrow> if found \<and> v \<noteq> UINT32_MAX then Some v else None)"

text \<open>Every node lies on the path of some entry.\<close>

definition trie_ok :: "NaiveTrie \<Rightarrow> bool" where
  "trie_ok t \<longleftrightarrow> (\<exists>ps. trie_rep t ps \<and> (\<forall>p \<in> set ps. \<exists>s. prefix p s \<and> trie_view t s \<noteq> None))"

lemma trie_view_rep:
  assumes "trie_rep t ps"
  shows "trie_view t s = (if node_val t ps s = Some UINT32_MAX then None else node_val t ps s)"
proof -
  have "node_val t ps [] = None" using node_val_None [OF assms] trie_repD(3) [OF assms] by simp
  then show ?thesis by (auto simp: trie_view_def PrefixSearch_rep [OF assms] split: option.splits)
qed

lemma trie_ok_new: "trie_ok new_NaiveTrie"
  unfolding trie_ok_def using trie_rep_new by force

lemma AddEx_view:
  assumes ok: "trie_ok t" and "s \<noteq> []" "v < UINT32_MAX" "length (node_list t) + length s \<le> UINT32_MAX"
  shows "trie_view (snd (AddEx t s v True)) = (trie_view t)(s \<mapsto> v)"
    and "trie_ok (snd (AddEx t s v True))"
    and "length (node_list (snd (AddEx t s v True))) \<le> length (node_list t) + length s"
proof -
  obtain ps where rep: "trie_rep t ps" and live: "\<forall>p \<in> set ps. \<exists>s. prefix p s \<and> trie_view t s \<noteq> None"
    using ok by (auto simp: trie_ok_def)
  have node: "is_node ps UINT32_MAX" "tnode ps UINT32_MAX = []" by (simp_all add: is_node_def tnode_def)
  let ?t = "snd (AddEx t s v True)"
  have t: "?t = snd (AddEx_loop s UINT32_MAX v True t)" using assms(2,3) by (simp add: AddEx_def)
  obtain ps' where ps': "trie_rep ?t ps'" "length ps' \<le> length ps + length s"
    "node_val ?t ps' = added [] s v (node_val t ps)"
    using AddEx_loop_rep [OF rep node(1) assms(2), of v] assms(4) trie_repD(1) [OF rep] node(2) t by auto
  show "length (node_list ?t) \<le> length (node_list t) + length s"
    using ps'(2) trie_repD(1) [OF ps'(1)] trie_repD(1) [OF rep] by simp
  show view: "trie_view ?t = (trie_view t)(s \<mapsto> v)"
    using assms(3) by (auto simp: fun_eq_iff trie_view_rep [OF ps'(1)] trie_view_rep [OF rep] ps'(3) added_def
        split: option.splits)
  have "\<exists>x. prefix p x \<and> trie_view ?t x \<noteq> None" if "p \<in> set ps'" for p
  proof -
    have "added [] s v (node_val t ps) p \<noteq> None" using that node_val_None [OF ps'(1)] ps'(3) by metis
    then have "prefix p s \<or> node_val t ps p \<noteq> None"
      by (auto simp: added_def strict_prefix_def split: if_splits option.splits)
    then show ?thesis
    proof
      assume "prefix p s"
      then show ?thesis using view by (intro exI [of _ s]) simp
    next
      assume "node_val t ps p \<noteq> None"
      then obtain x where "prefix p x" "trie_view t x \<noteq> None" using live node_val_None [OF rep] by metis
      then show ?thesis using view by (intro exI [of _ x]) simp
    qed
  qed
  then show "trie_ok ?t" using ps'(1) by (auto simp: trie_ok_def)
qed

lemma trie_search:
  assumes "trie_ok t"
  shows "PrefixSearch t q =
    (q \<noteq> [] \<and> (\<exists>s. prefix q s \<and> trie_view t s \<noteq> None),
     case trie_view t q of Some v \<Rightarrow> v | None \<Rightarrow> UINT32_MAX)"
proof -
  obtain ps where rep: "trie_rep t ps" and live: "\<forall>p \<in> set ps. \<exists>s. prefix p s \<and> trie_view t s \<noteq> None"
    using assms by (auto simp: trie_ok_def)
  have mem: "q \<in> set ps" if "q \<noteq> []" "prefix q s" "trie_view t s \<noteq> None" for s
  proof -
    have "s \<in> set ps" using that(3) trie_view_rep [OF rep, of s] node_val_None [OF rep, of s] by auto
    then show ?thesis using that(1,2)
    proof (induction s rule: rev_induct)
      case (snoc x s)
      then show ?case using trie_repD(5) [OF rep, of s x] by (auto simp: prefix_snoc)
    qed simp
  qed
  have ex: "(\<exists>s. prefix q s \<and> trie_view t s \<noteq> None) \<longleftrightarrow> node_val t ps q \<noteq> None" if "q \<noteq> []"
  proof
    assume "\<exists>s. prefix q s \<and> trie_view t s \<noteq> None"
    then have "q \<in> set ps" using mem [OF that] by (elim exE conjE)
    then show "node_val t ps q \<noteq> None" by (simp add: node_val_None [OF rep])
  next
    assume "node_val t ps q \<noteq> None"
    then have "q \<in> set ps" by (simp add: node_val_None [OF rep])
    with live show "\<exists>s. prefix q s \<and> trie_view t s \<noteq> None" by (rule bspec)
  qed
  have nil: "node_val t ps [] = None" using node_val_None [OF rep] trie_repD(3) [OF rep] by simp
  show ?thesis
  proof (cases "q = []")
    case True
    then show ?thesis using nil by (simp add: PrefixSearch_def trie_view_rep [OF rep])
  next
    case False
    show ?thesis unfolding ex [OF False] PrefixSearch_rep [OF rep] trie_view_rep [OF rep, of q]
      using False by (cases "node_val t ps q") simp_all
  qed
qed

section \<open>The interface\<close>

text \<open>
  What a client of a prefix dictionary may rely on: the search finds a string exactly when it is
  a non-empty prefix of an entry, and yields the value of the entry or \<open>UINT32_MAX\<close>.
\<close>

locale prefix_dictionary =
  fixes search :: "'t \<Rightarrow> string \<Rightarrow> bool \<times> nat"
    and view :: "'t \<Rightarrow> (string \<rightharpoonup> nat)"
    and ok :: "'t \<Rightarrow> bool"
  assumes search_view: "ok t \<Longrightarrow> search t q =
      (q \<noteq> [] \<and> (\<exists>s. prefix q s \<and> view t s \<noteq> None), case view t q of Some v \<Rightarrow> v | None \<Rightarrow> UINT32_MAX)"
    and view_value: "ok t \<Longrightarrow> view t s = Some v \<Longrightarrow> v \<noteq> UINT32_MAX"
    and view_Nil: "ok t \<Longrightarrow> view t [] = None"
begin

lemma search_found: "ok t \<Longrightarrow> fst (search t q) \<longleftrightarrow> q \<noteq> [] \<and> (\<exists>s. prefix q s \<and> view t s \<noteq> None)"
  by (simp add: search_view)

lemma search_value: "ok t \<Longrightarrow> (if snd (search t q) = UINT32_MAX then None else Some (snd (search t q))) = view t q"
  by (auto simp: search_view dest: view_value split: option.splits)

lemma search_prefix_closed:
  "ok t \<Longrightarrow> \<not> fst (search t (take k s)) \<Longrightarrow> 0 < k \<Longrightarrow> k \<le> j \<Longrightarrow> s \<noteq> [] \<Longrightarrow> view t (take j s) = None"
  using take_is_prefix [of k "take j s"] by (force simp: search_view min_def)

end

interpretation trie: prefix_dictionary PrefixSearch trie_view trie_ok
proof
  show "PrefixSearch t q = (q \<noteq> [] \<and> (\<exists>s. prefix q s \<and> trie_view t s \<noteq> None),
      case trie_view t q of Some v \<Rightarrow> v | None \<Rightarrow> UINT32_MAX)" if "trie_ok t" for t q
    using that by (rule trie_search)
  show "v \<noteq> UINT32_MAX" if "trie_view t s = Some v" for t s v
    using that by (auto simp: trie_view_def split: prod.splits if_splits)
  show "trie_view t [] = None" for t
    by (simp add: trie_view_def PrefixSearch_def)
qed

end
