(* ===== verification/Vocabulary.thy ===== *)
theory Vocabulary
  imports CppString
begin

text \<open>
  The vocabulary (src/src/common/std_vocabulary.h and .cc). Scores are single precision numbers
  that the code only compares, so their type is a parameter \<open>'f\<close>. The callbacks are the
  functions other components register: \<open>func(out, in)\<close> as a function of the old output and the
  input. \<open>IdToStr\<close> passes the token string as both arguments.
\<close>

record 'f Token =
  tk_id :: int
  tk_str :: string
  tk_score :: 'f
  tk_type :: int

record 'f StdVocabulary =
  str_to_id :: "(string, int) omap"
  token_array :: "'f Token list"
  merge_map :: "(string \<times> string, int) omap"
  pre_callbacks :: "(string \<Rightarrow> string \<Rightarrow> string) list"
  post_callbacks :: "(string \<Rightarrow> string \<Rightarrow> string) list"
  unk_id :: int
  bos_id :: int
  eos_id :: int
  eos_id_map :: "(int, int) omap"

definition new_StdVocabulary :: "'f StdVocabulary" where
  "new_StdVocabulary = \<lparr>str_to_id = [], token_array = [], merge_map = [], pre_callbacks = [],
     post_callbacks = [], unk_id = 0, bos_id = 1, eos_id = 2, eos_id_map = []\<rparr>"

text \<open>\<open>Clear\<close> keeps the callbacks, the special ids and the table of end tokens.\<close>

definition Vocab_Clear :: "'f StdVocabulary \<Rightarrow> 'f StdVocabulary" where
  "Vocab_Clear v = v\<lparr>str_to_id := [], token_array := [], merge_map := []\<rparr>"

definition Vocab_Size :: "'f StdVocabulary \<Rightarrow> int" where
  "Vocab_Size v = int (length (token_array v))"

definition StrToId :: "'f StdVocabulary \<Rightarrow> string \<Rightarrow> int" where
  "StrToId v s = (case omap_find (str_to_id v) s of Some i \<Rightarrow> i | None \<Rightarrow> -1)"

definition SetUnk :: "'f StdVocabulary \<Rightarrow> int \<Rightarrow> 'f StdVocabulary" where
  "SetUnk v i = v\<lparr>unk_id := i\<rparr>"

definition SetUnk_str :: "'f StdVocabulary \<Rightarrow> string \<Rightarrow> 'f StdVocabulary" where
  "SetUnk_str v s = v\<lparr>unk_id := StrToId v s\<rparr>"

definition SetBos :: "'f StdVocabulary \<Rightarrow> int \<Rightarrow> 'f StdVocabulary" where
  "SetBos v i = v\<lparr>bos_id := i\<rparr>"

definition SetBos_str :: "'f StdVocabulary \<Rightarrow> string \<Rightarrow> 'f StdVocabulary" where
  "SetBos_str v s = v\<lparr>bos_id := StrToId v s\<rparr>"

definition SetEos :: "'f StdVocabulary \<Rightarrow> int \<Rightarrow> 'f StdVocabulary" where
  "SetEos v i = v\<lparr>eos_id := i\<rparr>"

definition SetEos_str :: "'f StdVocabulary \<Rightarrow> string \<Rightarrow> 'f StdVocabulary" where
  "SetEos_str v s = v\<lparr>eos_id := StrToId v s\<rparr>"

definition SetEos_list :: "'f StdVocabulary \<Rightarrow> int list \<Rightarrow> 'f StdVocabulary" where
  "SetEos_list v ids =
     (let v1 = v\<lparr>eos_id_map := []\<rparr>
      in if ids = [] then v1
         else v1\<lparr>eos_id := hd ids,
                eos_id_map := fold (\<lambda>idx m. omap_put (ids ! idx) (int idx) m) [0..<length ids] []\<rparr>)"

definition IsEos :: "'f StdVocabulary \<Rightarrow> int \<Rightarrow> bool" where
  "IsEos v i = (if eos_id_map v = [] then i = eos_id v else omap_find (eos_id_map v) i \<noteq> None)"

definition CharToDigit :: "char \<Rightarrow> int" where
  "CharToDigit ch =
     (let c = (of_char ch :: int)
      in if 48 \<le> c \<and> c \<le> 57 then c - 48
         else if 97 \<le> c \<and> c \<le> 102 then c - 97 + 10
         else if 65 \<le> c \<and> c \<le> 70 then c - 65 + 10
         else -1)"

text \<open>
  The token string; a byte token such as \<open><0x0A>\<close> (or \<open><0xA>\<close>) is decoded to its byte. The post
  callbacks run only for strings whose length is not 5 or 6 (or when decoding is off).
\<close>

definition IdToStr :: "'f StdVocabulary \<Rightarrow> int \<Rightarrow> bool \<Rightarrow> string" where
  "IdToStr v i enable_decoding =
     (if i < 0 \<or> i \<ge> int (length (token_array v)) then []
      else
        let s = tk_str (token_array v ! nat i); n = length s
        in if enable_decoding \<and> 5 \<le> n \<and> n \<le> 6 then
             let right_context = (s ! 0 = CHR ''<'' \<and> s ! 1 = CHR ''0'' \<and> s ! 2 = CHR ''x'' \<and> s ! (n - 1) = CHR ''>'');
                 n1 = CharToDigit (s ! 3);
                 n2 = (if n = 6 then CharToDigit (s ! 4) else -1)
             in if right_context \<and> n = 5 \<and> n1 \<ge> 0 then [char_of n1]
                else if right_context \<and> n = 6 \<and> n1 \<ge> 0 \<and> n2 \<ge> 0 then [char_of (n1 * 16 + n2)]
                else s
           else fold (\<lambda>f str. f str str) (post_callbacks v) s)"

section \<open>End tokens\<close>

lemma omap_find_eos_table:
  "omap_find (fold (\<lambda>idx m. omap_put (ids ! idx) (int idx) m) idxs m) k \<noteq> None
    \<longleftrightarrow> k \<in> (!) ids ` set idxs \<or> omap_find m k \<noteq> None"
  by (induction idxs arbitrary: m) (auto simp: omap_find_put)

lemma fold_put_nonempty: "idxs \<noteq> [] \<Longrightarrow> fold (\<lambda>idx m. omap_put (f idx) (g idx) m) idxs m \<noteq> []"
proof (induction idxs arbitrary: m)
  case (Cons i idxs)
  have put: "omap_put (f i) (g i) m \<noteq> []" by (cases m) (auto split: if_splits)
  then show ?case using Cons.IH by (cases "idxs = []") auto
qed simp

section \<open>Byte tokens\<close>

definition hex_digit :: "nat \<Rightarrow> char" where
  "hex_digit n = char_of (if n < 10 then 48 + n else 55 + n)"

definition byte_token :: "char \<Rightarrow> string" where
  "byte_token c = ''<0x'' @ [hex_digit (of_char c div 16), hex_digit (of_char c mod 16)] @ ''>''"

lemma CharToDigit_hex: "n < 16 \<Longrightarrow> CharToDigit (hex_digit n) = int n"
proof -
  assume "n < 16"
  have "(of_char (char_of m) :: int) = int (m mod 256)" for m :: nat
    using of_nat_of_char [of "char_of m", where 'a = int] by simp
  with \<open>n < 16\<close> show ?thesis by (simp add: CharToDigit_def hex_digit_def Let_def)
qed

lemma IdToStr_byte_token:
  assumes "0 \<le> i" "i < int (length (token_array v))" "tk_str (token_array v ! nat i) = byte_token c"
  shows "IdToStr v i True = [c]"
proof -
  have "(of_char c :: nat) < 256" by (rule nat_of_char_less_256)
  then have "of_char c div 16 < (16::nat)" by (simp add: div_less_iff_less_mult)
  then have d: "CharToDigit (hex_digit (of_char c div 16)) = int (of_char c div 16)"
    "CharToDigit (hex_digit (of_char c mod 16)) = int (of_char c mod 16)"
    by (simp_all add: CharToDigit_hex)
  have "int (of_char c div 16) * 16 + int (of_char c mod 16) = (of_char c :: int)"
    by (metis div_mult_mod_eq of_nat_add of_nat_mult of_nat_numeral of_nat_of_char)
  then show ?thesis using assms d by (simp add: IdToStr_def byte_token_def Let_def)
qed

section \<open>Properties\<close>

text \<open>
  After setting a non-empty list of end tokens, exactly the listed tokens are end tokens,
  the first of them is the one inserted by the engine, and setting a single end token later
  changes the inserted token only.
\<close>

lemma SetEos_list_IsEos:
  assumes "ids \<noteq> []"
  shows "(IsEos (SetEos_list v ids) i \<longleftrightarrow> i \<in> set ids) \<and> eos_id (SetEos_list v ids) = hd ids
    \<and> (IsEos (SetEos (SetEos_list v ids) j) i \<longleftrightarrow> i \<in> set ids)"
proof -
  let ?m = "fold (\<lambda>idx m. omap_put (ids ! idx) (int idx) m) [0..<length ids] []"
  have "?m \<noteq> []" using assms by (intro fold_put_nonempty) simp
  moreover have "omap_find ?m i \<noteq> None \<longleftrightarrow> i \<in> set ids"
    using omap_find_eos_table [of ids "[0..<length ids]" "[]" i] by (auto simp: in_set_conv_nth)
  ultimately show ?thesis using assms by (simp add: SetEos_list_def IsEos_def SetEos_def)
qed

lemma SetEos_list_IsEos_witness:
  "IsEos (SetEos_list (new_StdVocabulary :: int StdVocabulary) [2, 7]) 7
    \<and> \<not> IsEos (SetEos (SetEos_list (new_StdVocabulary :: int StdVocabulary) [2, 7]) 9) 9"
  using SetEos_list_IsEos [of "[2, 7]" "new_StdVocabulary :: int StdVocabulary" 7 9]
    SetEos_list_IsEos [of "[2, 7]" "new_StdVocabulary :: int StdVocabulary" 9 9] by simp

end
