(* ===== verification/Tokenizer.thy ===== *)
theory Tokenizer
  imports TokenTrie Vocabulary ModelTypes
begin

text \<open>
  The tokenizer (src/src/common/text_tokenizer.h and .cc): forward maximum matching over the
  token trie and byte pair encoding with a work queue of bigrams.
\<close>

section \<open>State\<close>

record 'f TextTokenizer =
  tt_vocab :: "'f StdVocabulary"
  tt_byte_token_id_start :: int
  tt_token_trie :: NaiveTrie
  tt_algorithm_map :: "(string, TokenizationAlg) omap"
  tt_pre_callbacks :: "(string \<Rightarrow> string \<Rightarrow> string) list"

definition InitAlgorithmMap :: "(string, TokenizationAlg) omap" where
  "InitAlgorithmMap = nocase_table
     [(''fmm'', TA_FMM), (''fmm2'', TA_FMM2), (''bpe'', TA_BPE), (''ulm'', TA_ULM)]"

text \<open>A token id is converted to \<open>uint32_t\<close> when it is stored in the trie, and back when read.\<close>

definition to_u32 :: "int \<Rightarrow> nat" where
  "to_u32 i = nat (i mod 2 ^ 32)"

definition of_u32 :: "nat \<Rightarrow> int" where
  "of_u32 n = (if n < 2 ^ 31 then int n else int n - 2 ^ 32)"

definition Tokenizer_Init :: "NaiveTrie \<Rightarrow> 'f StdVocabulary \<Rightarrow> int \<Rightarrow> 'f TextTokenizer" where
  "Tokenizer_Init trie vocab byte_token_id_start =
     \<lparr>tt_vocab = vocab, tt_byte_token_id_start = byte_token_id_start,
      tt_token_trie = fold (\<lambda>token t. snd (AddEx t (tk_str token) (to_u32 (tk_id token)) True))
        (token_array vocab) (Trie_Clear trie),
      tt_algorithm_map = InitAlgorithmMap,
      tt_pre_callbacks = pre_callbacks vocab\<rparr>"

definition AlgorithmNameToId :: "'f TextTokenizer \<Rightarrow> string \<Rightarrow> TokenizationAlg" where
  "AlgorithmNameToId tt alg_name =
     (case nocase_find (tt_algorithm_map tt) alg_name of Some a \<Rightarrow> a | None \<Rightarrow> TA_Auto)"

definition Utf8Len :: "char \<Rightarrow> nat" where
  "Utf8Len src = [1, 1, 1, 1, 1, 1, 1, 1, 1, 1, 1, 1, 2, 2, 3, 4] ! (of_char src div 16)"

section \<open>Forward maximum matching\<close>

text \<open>The inner loop over the candidate lengths: the best length and its token.\<close>

primrec FMM_scan :: "(string \<Rightarrow> bool \<times> nat) \<Rightarrow> string \<Rightarrow> nat list \<Rightarrow> nat \<Rightarrow> int \<Rightarrow> nat \<times> int" where
  "FMM_scan search rest [] max_len best_token_id = (max_len, best_token_id)"
| "FMM_scan search rest (len # lens) max_len best_token_id =
     (let (found, v) = search (take len rest)
      in if \<not> found then (max_len, best_token_id)
         else if v \<noteq> UINT32_MAX then FMM_scan search rest lens len (of_u32 v)
         else FMM_scan search rest lens max_len best_token_id)"

function FMM_loop :: "(string \<Rightarrow> bool \<times> nat) \<Rightarrow> string \<Rightarrow> int list \<Rightarrow> int list" where
  "FMM_loop search [] output = output"
| "FMM_loop search (c # cs) output =
     (let (max_len, best_token_id) = FMM_scan search (c # cs) [1..<Suc (length (c # cs))] 0 0
      in if max_len > 0 then FMM_loop search (drop max_len (c # cs)) (output @ [best_token_id])
         else FMM_loop search cs output)"
  by pat_completeness auto
termination
  by (relation "measure (\<lambda>(s, t, out). length t)") auto

definition ForwardMaximumMatching :: "'f TextTokenizer \<Rightarrow> int list \<Rightarrow> string \<Rightarrow> bool \<Rightarrow> int list" where
  "ForwardMaximumMatching tt output input_text ignore_space =
     FMM_loop (PrefixSearch (tt_token_trie tt)) input_text output"

subsection \<open>Reference: the longest entry at every position\<close>

definition match_lens :: "(string \<rightharpoonup> nat) \<Rightarrow> string \<Rightarrow> nat \<Rightarrow> nat list" where
  "match_lens D s k = filter (\<lambda>n. D (take n s) \<noteq> None) [k..<Suc (length s)]"

function fmm_spec :: "(string \<rightharpoonup> nat) \<Rightarrow> string \<Rightarrow> int list" where
  "fmm_spec D [] = []"
| "fmm_spec D (c # cs) =
     (if match_lens D (c # cs) 1 = [] then fmm_spec D cs
      else let n = last (match_lens D (c # cs) 1)
           in of_u32 (the (D (take n (c # cs)))) # fmm_spec D (drop n (c # cs)))"
  by pat_completeness auto

lemma match_lens_last:
  assumes "match_lens D s k \<noteq> []"
  shows "k \<le> last (match_lens D s k)" "last (match_lens D s k) \<le> length s"
    "D (take (last (match_lens D s k)) s) \<noteq> None"
proof -
  have "last (match_lens D s k) \<in> set (match_lens D s k)" using assms by (rule last_in_set)
  then show "k \<le> last (match_lens D s k)" "last (match_lens D s k) \<le> length s"
    "D (take (last (match_lens D s k)) s) \<noteq> None"
    by (auto simp: match_lens_def simp del: upt_Suc)
qed

termination fmm_spec
proof (relation "measure (\<lambda>(D, s). length s)")
  fix D c cs and x :: nat
  assume "match_lens D (c # cs) 1 \<noteq> []" "x = last (match_lens D (c # cs) 1)"
  then have "1 \<le> x" using match_lens_last(1) by blast
  then show "((D, drop x (c # cs)), D, c # cs) \<in> measure (\<lambda>(D, s). length s)" by simp
qed auto

context prefix_dictionary
begin

lemma scan_longest:
  assumes "ok t" "1 \<le> k" "k \<le> Suc (length s)" "s \<noteq> []"
  shows "FMM_scan (search t) s [k..<Suc (length s)] ml best =
    (if match_lens (view t) s k = [] then (ml, best)
     else (last (match_lens (view t) s k), of_u32 (the (view t (take (last (match_lens (view t) s k)) s)))))"
  using assms(2,3)
proof (induction "Suc (length s) - k" arbitrary: k ml best)
  case 0
  then show ?case by (simp add: match_lens_def)
next
  case (Suc m)
  then have k: "k < Suc (length s)" by simp
  then have upt: "[k..<Suc (length s)] = k # [Suc k..<Suc (length s)]" by (rule upt_conv_Cons)
  have IH: "FMM_scan (search t) s [Suc k..<Suc (length s)] ml best =
    (if match_lens (view t) s (Suc k) = [] then (ml, best)
     else (last (match_lens (view t) s (Suc k)),
       of_u32 (the (view t (take (last (match_lens (view t) s (Suc k))) s)))))" for ml best
    using Suc k by (intro Suc.hyps) auto
  have lens: "match_lens (view t) s k = (if view t (take k s) = None then [] else [k]) @ match_lens (view t) s (Suc k)"
    by (simp add: match_lens_def upt del: upt_Suc)
  show ?case
  proof (cases "fst (search t (take k s))")
    case False
    then have "view t (take j s) = None" if "k \<le> j" for j
      using search_prefix_closed [OF assms(1) False _ that assms(4)] Suc.prems by simp
    then have "match_lens (view t) s k = []" by (auto simp: match_lens_def filter_empty_conv)
    then show ?thesis using False by (simp add: upt split_beta del: upt_Suc)
  next
    case True
    have "view t (take k s) = None \<longleftrightarrow> snd (search t (take k s)) = UINT32_MAX"
      "view t (take k s) \<noteq> None \<Longrightarrow> view t (take k s) = Some (snd (search t (take k s)))"
      using search_value [OF assms(1), of "take k s", symmetric] by (simp_all split: if_splits)
    with True show ?thesis by (auto simp: upt IH lens split_beta simp del: upt_Suc)
  qed
qed

lemma fmm_spec_correct: "ok t \<Longrightarrow> FMM_loop (search t) s out = out @ fmm_spec (view t) s"
proof (induction "view t" s arbitrary: out rule: fmm_spec.induct)
  case (2 c cs)
  have scan: "FMM_scan (search t) (c # cs) [1..<Suc (length (c # cs))] 0 0 =
    (if match_lens (view t) (c # cs) 1 = [] then (0, 0)
     else (last (match_lens (view t) (c # cs) 1),
       of_u32 (the (view t (take (last (match_lens (view t) (c # cs) 1)) (c # cs))))))"
    using 2(3) by (intro scan_longest) auto
  show ?case
  proof (cases "match_lens (view t) (c # cs) 1 = []")
    case True
    then show ?thesis using 2(1) [OF True 2(3)] scan by simp
  next
    case False
    then have "0 < last (match_lens (view t) (c # cs) 1)" using match_lens_last(1) [OF False] by simp
    then show ?thesis using 2(2) [OF False refl 2(3)] scan False by (simp add: Let_def)
  qed
qed simp

end

section \<open>Byte pair encoding\<close>

text \<open>
  A symbol is a piece of the text: offset and length. The pointers of the code are offsets here.
  A bigram is a pair of neighbouring symbols that may be merged.
\<close>

record Symbol =
  sy_prev :: int
  sy_next :: int
  sy_text :: nat
  sy_len :: nat

record 'f Bigram =
  bg_left :: int
  bg_right :: int
  bg_score :: 'f
  bg_size :: nat

text \<open>\<open>Comparator()(lhs, rhs)\<close>: the left argument comes later.\<close>

definition bigram_less :: "'f::linorder Bigram \<Rightarrow> 'f Bigram \<Rightarrow> bool" where
  "bigram_less lhs rhs \<longleftrightarrow> bg_score lhs < bg_score rhs
     \<or> bg_score lhs = bg_score rhs \<and> bg_left lhs > bg_left rhs"

definition sym_str :: "string \<Rightarrow> Symbol \<Rightarrow> string" where
  "sym_str text s = substr text (sy_text s) (sy_len s)"

text \<open>The first loop: one symbol per UTF-8 sequence.\<close>

function BPE_symbols :: "string \<Rightarrow> nat \<Rightarrow> nat \<Rightarrow> Symbol list" where
  "BPE_symbols text index offset =
     (if offset < length text then
        let char_len = min (length text - offset) (Utf8Len (text ! offset));
            offset' = offset + char_len
        in \<lparr>sy_prev = int index - 1, sy_next = (if offset' = length text then -1 else int index + 1),
            sy_text = offset, sy_len = char_len\<rparr> # BPE_symbols text (index + 1) offset'
      else [])"
  by pat_completeness auto

lemma Utf8Len_bounds: "1 \<le> Utf8Len c" "Utf8Len c \<le> 4"
proof -
  have "of_char c div (16 :: nat) < 16" by (simp add: div_less_iff_less_mult)
  then have "of_char c div (16 :: nat) \<in> set [0..<16]" by simp
  moreover have "\<forall>i \<in> set [0..<16]. 1 \<le> [1, 1, 1, 1, 1, 1, 1, 1, 1, 1, 1, 1, 2, 2, 3, 4::nat] ! i
      \<and> [1, 1, 1, 1, 1, 1, 1, 1, 1, 1, 1, 1, 2, 2, 3, 4::nat] ! i \<le> 4" by code_simp
  ultimately show "1 \<le> Utf8Len c" "Utf8Len c \<le> 4" unfolding Utf8Len_def by blast+
qed

termination BPE_symbols
proof (relation "measure (\<lambda>(text, index, offset). length text - offset)")
  fix s :: string and i ofs x xa
  assume "ofs < length s" "x = min (length s - ofs) (Utf8Len (s ! ofs))" "xa = ofs + x"
  then show "((s, i + 1, xa), s, i, ofs) \<in> measure (\<lambda>(text, index, offset). length text - offset)"
    using Utf8Len_bounds(1) [of "s ! ofs"] by simp
qed simp

text \<open>
  \<open>TryAddBigram\<close>: the score of the pair, if it may be merged. The parameter \<open>inv_score\<close> stands
  for the single precision value \<open>1.0f / (1 + rank)\<close>. The result \<open>None\<close> of \<open>TryAddBigram\<close>
  marks an access outside an array.
\<close>

definition bigram_score :: "(int \<Rightarrow> 'f) \<Rightarrow> 'f StdVocabulary \<Rightarrow> string \<Rightarrow> Symbol \<Rightarrow> Symbol \<Rightarrow> 'f option option" where
  "bigram_score inv_score vocab text l r =
     (if merge_map vocab \<noteq> [] then
        Some (map_option inv_score (omap_find (merge_map vocab) (sym_str text l, sym_str text r)))
      else
        case omap_find (str_to_id vocab) (substr text (sy_text l) (sy_len l + sy_len r)) of
          None \<Rightarrow> Some None
        | Some token_id \<Rightarrow>
            if token_id \<ge> int (length (token_array vocab)) then Some None
            else if token_id < 0 then None
            else Some (Some (tk_score (token_array vocab ! nat token_id))))"

definition TryAddBigram :: "(int \<Rightarrow> 'f) \<Rightarrow> 'f StdVocabulary \<Rightarrow> string \<Rightarrow> 'f Bigram list \<Rightarrow> Symbol list
    \<Rightarrow> int \<Rightarrow> int \<Rightarrow> 'f Bigram list option" where
  "TryAddBigram inv_score vocab text work_queue symbols left right =
     (if left = -1 \<or> right = -1 then Some work_queue
      else if left < 0 \<or> right < 0 \<or> nat left \<ge> length symbols \<or> nat right \<ge> length symbols then None
      else
        let l = symbols ! nat left; r = symbols ! nat right
        in map_option (\<lambda>sc. case sc of None \<Rightarrow> work_queue
             | Some token_score \<Rightarrow> work_queue @ [\<lparr>bg_left = left, bg_right = right, bg_score = token_score,
                 bg_size = sy_len l + sy_len r\<rparr>]) (bigram_score inv_score vocab text l r))"

primrec BPE_init_queue :: "(int \<Rightarrow> 'f) \<Rightarrow> 'f StdVocabulary \<Rightarrow> string \<Rightarrow> Symbol list \<Rightarrow> nat list
    \<Rightarrow> 'f Bigram list \<Rightarrow> 'f Bigram list option" where
  "BPE_init_queue inv_score vocab text symbols [] q = Some q"
| "BPE_init_queue inv_score vocab text symbols (idx # idxs) q =
     Option.bind (TryAddBigram inv_score vocab text q symbols (int idx - 1) (int idx))
       (BPE_init_queue inv_score vocab text symbols idxs)"

text \<open>
  One merge: the assignments of the code in their order. \<open>None\<close> marks an index outside the list.
\<close>

definition merge_symbols :: "Symbol list \<Rightarrow> nat \<Rightarrow> nat \<Rightarrow> Symbol list option" where
  "merge_symbols symbols l r =
     (let s1 = symbols[l := (symbols ! l)\<lparr>sy_len := sy_len (symbols ! l) + sy_len (symbols ! r)\<rparr>];
          s2 = s1[r := (s1 ! r)\<lparr>sy_len := 0\<rparr>];
          s3 = s2[l := (s2 ! l)\<lparr>sy_next := sy_next (s2 ! r)\<rparr>];
          nx = sy_next (s3 ! r)
      in if nx < 0 then Some s3
         else if nat nx < length s3 then Some (s3[nat nx := (s3 ! nat nx)\<lparr>sy_prev := int l\<rparr>])
         else None)"

definition live_count :: "Symbol list \<Rightarrow> nat" where
  "live_count symbols = length (filter (\<lambda>s. sy_len s \<noteq> 0) symbols)"

text \<open>
  The work loop. \<open>pq_top\<close> is the position of the element the priority queue delivers: the standard
  leaves open which of several greatest elements that is, so the position is a parameter. A
  position outside the queue delivers nothing (\<open>None\<close>).
\<close>

function BPE_merge_loop :: "('f Bigram list \<Rightarrow> nat) \<Rightarrow> (int \<Rightarrow> 'f) \<Rightarrow> 'f StdVocabulary \<Rightarrow> string \<Rightarrow> Symbol list
    \<Rightarrow> 'f Bigram list \<Rightarrow> Symbol list option" where
  "BPE_merge_loop pq_top inv_score vocab text symbols work_queue =
     (if work_queue = [] then Some symbols
      else if pq_top work_queue \<ge> length work_queue then None
      else
        let bigram = work_queue ! pq_top work_queue;
            queue = take (pq_top work_queue) work_queue @ drop (Suc (pq_top work_queue)) work_queue;
            l = nat (bg_left bigram); r = nat (bg_right bigram)
        in if bg_left bigram < 0 \<or> bg_right bigram < 0 \<or> l \<ge> length symbols \<or> r \<ge> length symbols then None
           else if sy_len (symbols ! l) = 0 \<or> sy_len (symbols ! r) = 0
               \<or> sy_len (symbols ! l) + sy_len (symbols ! r) \<noteq> bg_size bigram
           then BPE_merge_loop pq_top inv_score vocab text symbols queue
           else
             case merge_symbols symbols l r of
               None \<Rightarrow> None
             | Some symbols' \<Rightarrow>
                 (case TryAddBigram inv_score vocab text queue symbols' (sy_prev (symbols' ! l)) (bg_left bigram) of
                    None \<Rightarrow> None
                  | Some queue1 \<Rightarrow>
                      (case TryAddBigram inv_score vocab text queue1 symbols' (bg_left bigram) (sy_next (symbols' ! l)) of
                         None \<Rightarrow> None
                       | Some queue2 \<Rightarrow> BPE_merge_loop pq_top inv_score vocab text symbols' queue2)))"
  by pat_completeness auto

lemma live_count_update_le:
  "sy_len x = sy_len (ss ! i) \<or> sy_len x = 0 \<or> sy_len (ss ! i) \<noteq> 0 \<Longrightarrow> live_count (ss[i := x]) \<le> live_count ss"
proof (induction ss arbitrary: i)
  case (Cons s ss)
  then show ?case by (cases i) (auto simp: live_count_def)
qed simp

lemma live_count_update_less:
  "i < length ss \<Longrightarrow> sy_len x = 0 \<Longrightarrow> sy_len (ss ! i) \<noteq> 0 \<Longrightarrow> live_count (ss[i := x]) < live_count ss"
proof (induction ss arbitrary: i)
  case (Cons s ss)
  then show ?case by (cases i) (auto simp: live_count_def)
qed simp

lemma merge_symbols_live_count:
  assumes "merge_symbols ss l r = Some ss'" "l < length ss" "r < length ss"
    "sy_len (ss ! l) \<noteq> 0" "sy_len (ss ! r) \<noteq> 0"
  shows "live_count ss' < live_count ss"
proof -
  let ?s1 = "ss[l := (ss ! l)\<lparr>sy_len := sy_len (ss ! l) + sy_len (ss ! r)\<rparr>]"
  let ?s2 = "?s1[r := (?s1 ! r)\<lparr>sy_len := 0\<rparr>]"
  let ?s3 = "?s2[l := (?s2 ! l)\<lparr>sy_next := sy_next (?s2 ! r)\<rparr>]"
  have "live_count ?s1 \<le> live_count ss" using assms(4) by (intro live_count_update_le) simp
  moreover have "live_count ?s2 < live_count ?s1"
    using assms(2-5) by (intro live_count_update_less) (auto simp: nth_list_update)
  moreover have "live_count ?s3 \<le> live_count ?s2" by (intro live_count_update_le) simp
  moreover have "live_count ss' \<le> live_count ?s3"
    using assms(1) by (auto simp: merge_symbols_def Let_def intro!: live_count_update_le split: if_splits)
  ultimately show ?thesis by linarith
qed

lemma TryAddBigram_length:
  "TryAddBigram inv_score vocab tx q ss a b = Some q' \<Longrightarrow> length q' \<le> Suc (length q)"
  by (auto simp: TryAddBigram_def Let_def split: if_splits option.splits)

termination BPE_merge_loop
proof (relation "measure (\<lambda>(pq_top, inv, vocab, tx, ss, q). length q + 3 * live_count ss)", goal_cases)
  case 1
  show ?case by simp
next
  case (2 pq_top inv vocab tx ss q bg q' l r)
  then show ?case by (auto simp: min_def)
next
  case (3 pq_top inv vocab tx ss q bg q' l r ss' q1 q2)
  have "length q' < length q" using 3(1-4) by (auto simp: min_def)
  moreover have "live_count ss' < live_count ss" using 3 by (intro merge_symbols_live_count) auto
  ultimately show ?case using 3 TryAddBigram_length [of inv vocab tx q' ss'] TryAddBigram_length [of inv vocab tx q1 ss']
    by fastforce
qed

text \<open>The tokens of one final symbol: its id, or one token per byte.\<close>

definition sym_tokens :: "'f StdVocabulary \<Rightarrow> int \<Rightarrow> string \<Rightarrow> int list" where
  "sym_tokens vocab byte_start s =
     (case omap_find (str_to_id vocab) s of
        None \<Rightarrow> map (\<lambda>c. (of_char c :: int) + byte_start) s
      | Some token_id \<Rightarrow> [token_id])"

partial_function (option) BPE_output_loop :: "'f StdVocabulary \<Rightarrow> int \<Rightarrow> string \<Rightarrow> Symbol list \<Rightarrow> int \<Rightarrow> int list
    \<Rightarrow> int list option" where
  "BPE_output_loop vocab byte_start text symbols idx output =
     (if idx = -1 then Some output
      else if idx < 0 \<or> nat idx \<ge> length symbols then None
      else BPE_output_loop vocab byte_start text symbols (sy_next (symbols ! nat idx))
             (output @ sym_tokens vocab byte_start (sym_str text (symbols ! nat idx))))"

definition BytePairEncoding :: "('f Bigram list \<Rightarrow> nat) \<Rightarrow> (int \<Rightarrow> 'f) \<Rightarrow> 'f TextTokenizer \<Rightarrow> int list \<Rightarrow> string
    \<Rightarrow> int list option" where
  "BytePairEncoding pq_top inv_score tt output input_text =
     (let symbols = BPE_symbols input_text 0 0
      in Option.bind (BPE_init_queue inv_score (tt_vocab tt) input_text symbols [1..<length symbols] []) (\<lambda>work_queue.
         Option.bind (BPE_merge_loop pq_top inv_score (tt_vocab tt) input_text symbols work_queue) (\<lambda>symbols'.
           BPE_output_loop (tt_vocab tt) (tt_byte_token_id_start tt) input_text symbols' 0 output)))"

section \<open>Byte pair encoding keeps the text\<close>

definition hd_or :: "nat list \<Rightarrow> int \<Rightarrow> int" where
  "hd_or xs n = (case xs of [] \<Rightarrow> n | x # _ \<Rightarrow> int x)"

definition last_or :: "nat list \<Rightarrow> int \<Rightarrow> int" where
  "last_or xs p = (if xs = [] then p else int (last xs))"

fun links :: "Symbol list \<Rightarrow> int \<Rightarrow> nat list \<Rightarrow> int \<Rightarrow> bool" where
  "links ss p [] n = True"
| "links ss p (i # c) n \<longleftrightarrow> sy_prev (ss ! i) = p \<and> sy_next (ss ! i) = hd_or c n \<and> links ss (int i) c n"

fun contig :: "Symbol list \<Rightarrow> nat \<Rightarrow> nat list \<Rightarrow> nat \<Rightarrow> bool" where
  "contig ss a [] e \<longleftrightarrow> a = e"
| "contig ss a (i # c) e \<longleftrightarrow> sy_text (ss ! i) = a \<and> contig ss (a + sy_len (ss ! i)) c e"

text \<open>The live symbols, in increasing order, form the doubly linked list and tile the text.\<close>

definition chain_ok :: "string \<Rightarrow> Symbol list \<Rightarrow> nat list \<Rightarrow> bool" where
  "chain_ok tx ss c \<longleftrightarrow> c \<noteq> [] \<and> hd c = 0 \<and> sorted_wrt (<) c
     \<and> set c = {i. i < length ss \<and> sy_len (ss ! i) \<noteq> 0}
     \<and> links ss (-1) c (-1) \<and> contig ss 0 c (length tx)"

definition queue_ok :: "Symbol list \<Rightarrow> 'f Bigram list \<Rightarrow> bool" where
  "queue_ok ss q \<longleftrightarrow> (\<forall>b \<in> set q. 0 \<le> bg_left b \<and> bg_left b < bg_right b \<and> bg_right b < int (length ss)
     \<and> (\<forall>i. nat (bg_left b) < i \<and> i < nat (bg_right b) \<longrightarrow> sy_len (ss ! i) = 0))"

lemma hd_or_simps [simp]: "hd_or [] n = n" "hd_or (x # xs) n = int x"
  "last_or [] n = n" "last_or (x # xs) n = last_or xs (int x)"
  by (simp_all add: hd_or_def last_or_def)

lemma hd_or_append: "hd_or (xs @ ys) n = hd_or xs (hd_or ys n)"
  by (cases xs) simp_all

lemma links_append:
  "links ss p (xs @ ys) n \<longleftrightarrow> links ss p xs (hd_or ys n) \<and> links ss (last_or xs p) ys n"
  by (induction xs arbitrary: p) (auto simp: hd_or_append)

lemma contig_append: "contig ss a (xs @ ys) e \<longleftrightarrow> (\<exists>m. contig ss a xs m \<and> contig ss m ys e)"
  by (induction xs arbitrary: a) auto

lemma links_cong:
  "(\<And>i. i \<in> set c \<Longrightarrow> sy_prev (ss ! i) = sy_prev (ss' ! i) \<and> sy_next (ss ! i) = sy_next (ss' ! i)) \<Longrightarrow>
    links ss p c n = links ss' p c n"
  by (induction c arbitrary: p) auto

lemma contig_cong:
  "(\<And>i. i \<in> set c \<Longrightarrow> sy_text (ss ! i) = sy_text (ss' ! i) \<and> sy_len (ss ! i) = sy_len (ss' ! i)) \<Longrightarrow>
    contig ss a c e = contig ss' a c e"
  by (induction c arbitrary: a) auto

lemma contig_concat:
  "contig ss a c e \<Longrightarrow> e \<le> length tx \<Longrightarrow>
    concat (map (\<lambda>i. sym_str tx (ss ! i)) c) = take (e - a) (drop a tx) \<and> a \<le> e"
proof (induction c arbitrary: a)
  case (Cons i c)
  let ?m = "a + sy_len (ss ! i)"
  have IH: "concat (map (\<lambda>i. sym_str tx (ss ! i)) c) = take (e - ?m) (drop ?m tx)" "?m \<le> e"
    using Cons.IH [of ?m] Cons.prems by auto
  have "e - a = sy_len (ss ! i) + (e - ?m)" using IH(2) by simp
  then have "take (e - a) (drop a tx) = take (sy_len (ss ! i)) (drop a tx) @ take (e - ?m) (drop ?m tx)"
    by (simp only: take_add drop_drop add.commute)
  then show ?case using IH Cons.prems by (simp add: sym_str_def substr_def)
qed simp

lemma contig_bound:
  "contig ss a c e \<Longrightarrow> i \<in> set c \<Longrightarrow> a \<le> sy_text (ss ! i) \<and> sy_text (ss ! i) + sy_len (ss ! i) \<le> e"
proof (induction c arbitrary: a)
  case (Cons j c)
  have "a \<le> e" if "contig ss a c e" for a c using that by (induction c arbitrary: a) force+
  then have "a + sy_len (ss ! j) \<le> e" using Cons.prems by auto
  then show ?case using Cons.IH [of "a + sy_len (ss ! j)"] Cons.prems by auto
qed simp

lemma split_adjacent:
  assumes "sorted_wrt (<) c" "l \<in> set c" "r \<in> set c" "l < (r::nat)" "\<forall>i. l < i \<and> i < r \<longrightarrow> i \<notin> set c"
  shows "\<exists>xs ys. c = xs @ l # r # ys"
proof -
  obtain xs zs where c: "c = xs @ l # zs" using assms(2) by (meson split_list)
  have "r \<in> set zs" using assms(1,3,4) c by (auto simp: sorted_wrt_append)
  then obtain y ys where zs: "zs = y # ys" by (cases zs) auto
  have "y = r"
  proof (rule ccontr)
    assume "y \<noteq> r"
    with \<open>r \<in> set zs\<close> have "y < r" using assms(1) c zs by (auto simp: sorted_wrt_append)
    moreover have "l < y" using assms(1) c zs by (auto simp: sorted_wrt_append)
    ultimately show False using assms(5) c zs by auto
  qed
  with c zs show ?thesis by blast
qed

lemma merge_symbols_nth:
  assumes "l < length ss" "r < length ss" "l \<noteq> r" "nx = sy_next (ss ! r)"
    "nx < 0 \<or> nat nx < length ss \<and> nat nx \<noteq> l \<and> nat nx \<noteq> r"
  shows "\<exists>ss'. merge_symbols ss l r = Some ss' \<and> length ss' = length ss
    \<and> ss' ! l = (ss ! l)\<lparr>sy_len := sy_len (ss ! l) + sy_len (ss ! r), sy_next := nx\<rparr>
    \<and> ss' ! r = (ss ! r)\<lparr>sy_len := 0\<rparr>
    \<and> (0 \<le> nx \<longrightarrow> ss' ! nat nx = (ss ! nat nx)\<lparr>sy_prev := int l\<rparr>)
    \<and> (\<forall>i < length ss. i \<noteq> l \<longrightarrow> i \<noteq> r \<longrightarrow> (0 \<le> nx \<longrightarrow> i \<noteq> nat nx) \<longrightarrow> ss' ! i = ss ! i)"
  using assms by (auto simp: merge_symbols_def Let_def nth_list_update)

lemma merge_chain:
  assumes "chain_ok tx ss (xs @ l # r # ys)"
  shows "\<exists>ss'. merge_symbols ss l r = Some ss' \<and> length ss' = length ss \<and> chain_ok tx ss' (xs @ l # ys)
    \<and> (\<forall>i < length ss. sy_len (ss ! i) = 0 \<longrightarrow> sy_len (ss' ! i) = 0)
    \<and> sy_prev (ss' ! l) = last_or xs (-1) \<and> sy_next (ss' ! l) = hd_or ys (-1)"
proof -
  let ?c = "xs @ l # r # ys" and ?nx = "hd_or ys (-1)"
  have sorted: "sorted_wrt (<) ?c" and live: "set ?c = {i. i < length ss \<and> sy_len (ss ! i) \<noteq> 0}"
    and links: "links ss (-1) ?c (-1)" and contig: "contig ss 0 ?c (length tx)" and hd: "hd ?c = 0"
    using assms by (auto simp: chain_ok_def)
  have "l \<in> set ?c" by simp
  moreover have "\<forall>i \<in> set ?c. i < length ss \<and> sy_len (ss ! i) \<noteq> 0" unfolding live by simp
  ultimately have len_l: "sy_len (ss ! l) \<noteq> 0" and bounds: "\<forall>i \<in> set ?c. i < length ss" by blast+
  have dist: "l \<noteq> r" "l \<notin> set xs" "r \<notin> set xs" "l \<notin> set ys" "r \<notin> set ys" "set xs \<inter> set ys = {}"
    using sorted by (auto simp: sorted_wrt_append)
  have l: "sy_prev (ss ! l) = last_or xs (-1)" and r: "sy_next (ss ! r) = ?nx"
    and lx: "links ss (-1) xs (int l)" and ly: "links ss (int r) ys (-1)"
    using links by (auto simp: links_append)
  have nx: "?nx < 0 \<or> nat ?nx < length ss \<and> nat ?nx \<noteq> l \<and> nat ?nx \<noteq> r"
    using bounds dist by (cases ys) auto
  obtain ss' where ss': "merge_symbols ss l r = Some ss'" "length ss' = length ss"
    "ss' ! l = (ss ! l)\<lparr>sy_len := sy_len (ss ! l) + sy_len (ss ! r), sy_next := ?nx\<rparr>"
    "ss' ! r = (ss ! r)\<lparr>sy_len := 0\<rparr>"
    "0 \<le> ?nx \<longrightarrow> ss' ! nat ?nx = (ss ! nat ?nx)\<lparr>sy_prev := int l\<rparr>"
    "\<forall>i < length ss. i \<noteq> l \<longrightarrow> i \<noteq> r \<longrightarrow> (0 \<le> ?nx \<longrightarrow> i \<noteq> nat ?nx) \<longrightarrow> ss' ! i = ss ! i"
    using merge_symbols_nth [OF _ _ dist(1) r [symmetric] nx] bounds by auto
  have other: "sy_len (ss' ! i) = sy_len (ss ! i) \<and> sy_text (ss' ! i) = sy_text (ss ! i)
      \<and> sy_next (ss' ! i) = sy_next (ss ! i)" if "i < length ss" "i \<noteq> l" "i \<noteq> r" for i
    using that ss'(5,6) by (cases "0 \<le> ?nx \<and> i = nat ?nx") auto
  have same: "ss' ! i = ss ! i" if "i \<in> set xs" for i
  proof -
    have "0 \<le> ?nx \<longrightarrow> i \<noteq> nat ?nx" using that dist(6) by (cases ys) auto
    then show ?thesis using ss'(6) that dist bounds by auto
  qed
  have live': "set (xs @ l # ys) = {i. i < length ss' \<and> sy_len (ss' ! i) \<noteq> 0}"
  proof -
    have iff: "sy_len (ss' ! i) \<noteq> 0 \<longleftrightarrow> sy_len (ss ! i) \<noteq> 0 \<and> i \<noteq> r" if "i < length ss" for i
    proof -
      consider "i = l" | "i = r" | "i \<noteq> l" "i \<noteq> r" by blast
      then show ?thesis using other [OF that] ss'(3,4) len_l dist(1) by cases simp_all
    qed
    have "set (xs @ l # ys) = set ?c - {r}" using dist by auto
    also have "\<dots> = {i. i < length ss' \<and> sy_len (ss' ! i) \<noteq> 0}"
      unfolding live ss'(2) using iff by blast
    finally show ?thesis .
  qed
  have "links ss' (-1) xs (int l)" using lx same links_cong [of xs ss' ss] by auto
  moreover have "links ss' (int l) ys (-1)"
  proof (cases ys)
    case (Cons y zs)
    have "sy_prev (ss' ! i) = sy_prev (ss ! i) \<and> sy_next (ss' ! i) = sy_next (ss ! i)" if "i \<in> set zs" for i
    proof -
      have "i < length ss" "i \<noteq> l" "i \<noteq> r" "i \<noteq> y" using that Cons bounds dist sorted by (auto simp: sorted_wrt_append)
      then show ?thesis using ss'(6) Cons by auto
    qed
    then have "links ss' (int y) zs (-1) = links ss (int y) zs (-1)" by (rule links_cong)
    moreover have "y < length ss" "y \<noteq> l" "y \<noteq> r" using Cons bounds dist by auto
    moreover from this have "sy_next (ss' ! y) = sy_next (ss ! y)" using other by blast
    ultimately show ?thesis using ly Cons ss'(5) by simp
  qed simp
  ultimately have links': "links ss' (-1) (xs @ l # ys) (-1)"
    using l ss'(3) by (simp add: links_append)
  obtain m where m: "contig ss 0 xs m" "sy_text (ss ! l) = m" "sy_text (ss ! r) = m + sy_len (ss ! l)"
    "contig ss (m + sy_len (ss ! l) + sy_len (ss ! r)) ys (length tx)"
    using contig by (auto simp: contig_append)
  have "contig ss' 0 xs m" using m(1) same contig_cong [of xs ss' ss] by auto
  moreover have "contig ss' (m + (sy_len (ss ! l) + sy_len (ss ! r))) ys (length tx)"
  proof -
    have "i < length ss \<and> i \<noteq> l \<and> i \<noteq> r" if "i \<in> set ys" for i using that bounds dist by auto
    then show ?thesis using m(4) other contig_cong [of ys ss' ss] by (auto simp: add.assoc)
  qed
  ultimately have contig': "contig ss' 0 (xs @ l # ys) (length tx)"
    using m(2) ss'(3) by (auto simp: contig_append)
  have "sorted_wrt (<) (xs @ l # ys)" using sorted by (auto simp: sorted_wrt_append)
  moreover have "hd (xs @ l # ys) = 0" using hd by (cases xs) auto
  ultimately have "chain_ok tx ss' (xs @ l # ys)"
    unfolding chain_ok_def using live' links' contig' by (intro conjI) simp
  moreover have "sy_len (ss' ! i) = 0" if "i < length ss" "sy_len (ss ! i) = 0" for i
  proof -
    have "i \<noteq> l" using that len_l by auto
    then show ?thesis using other [of i] that ss'(4) by (cases "i = r") auto
  qed
  ultimately show ?thesis using ss'(1-3) l by auto
qed

definition ids_ok :: "'f StdVocabulary \<Rightarrow> bool" where
  "ids_ok vocab \<longleftrightarrow> (\<forall>s i. omap_find (str_to_id vocab) s = Some i \<longrightarrow> 0 \<le> i)"

definition gap_ok :: "Symbol list \<Rightarrow> int \<Rightarrow> int \<Rightarrow> bool" where
  "gap_ok ss a b \<longleftrightarrow> 0 \<le> a \<and> a < b \<and> b < int (length ss) \<and> (\<forall>i. nat a < i \<and> i < nat b \<longrightarrow> sy_len (ss ! i) = 0)"

lemma queue_ok_gap: "queue_ok ss q \<longleftrightarrow> (\<forall>b \<in> set q. gap_ok ss (bg_left b) (bg_right b))"
  by (simp add: queue_ok_def gap_ok_def)

lemma chain_gap:
  assumes "chain_ok tx ss (us @ a # b # vs)"
  shows "gap_ok ss (int a) (int b)"
proof -
  let ?c = "us @ a # b # vs"
  have sorted: "sorted_wrt (<) ?c" and live: "set ?c = {i. i < length ss \<and> sy_len (ss ! i) \<noteq> 0}"
    using assms by (simp_all add: chain_ok_def)
  have "b \<in> set ?c" by simp
  then have b: "b < length ss" unfolding live by simp
  have "sy_len (ss ! i) = 0" if "a < i" "i < b" for i
  proof -
    have "i \<notin> set ?c" using sorted that by (auto simp: sorted_wrt_append)
    then show ?thesis unfolding live using that b by simp
  qed
  then show ?thesis using sorted b by (auto simp: gap_ok_def sorted_wrt_append)
qed

lemma gap_ok_mono:
  assumes "gap_ok ss a b" "length ss' = length ss" "\<forall>i < length ss. sy_len (ss ! i) = 0 \<longrightarrow> sy_len (ss' ! i) = 0"
  shows "gap_ok ss' a b"
proof -
  have "i < length ss" if "i < nat b" for i using that assms(1) by (simp add: gap_ok_def) linarith
  then show ?thesis using assms by (simp add: gap_ok_def)
qed

lemma TryAddBigram_ok:
  assumes "ids_ok vocab" "queue_ok ss q" "a = -1 \<or> b = -1 \<or> gap_ok ss a b"
  shows "\<exists>q'. TryAddBigram inv_score vocab tx q ss a b = Some q' \<and> queue_ok ss q'"
proof (cases "a = -1 \<or> b = -1")
  case True
  then show ?thesis using assms(2) by (simp add: TryAddBigram_def)
next
  case False
  then have gap: "gap_ok ss a b" using assms(3) by simp
  have "bigram_score inv_score vocab tx (ss ! nat a) (ss ! nat b) \<noteq> None"
    using assms(1) by (fastforce simp: bigram_score_def ids_ok_def not_less split: option.split)
  then show ?thesis using False gap assms(2)
    by (auto simp: TryAddBigram_def queue_ok_gap gap_ok_def split: option.split)
qed

lemma chain_neighbours:
  assumes "chain_ok tx ss (xs @ l # ys)"
  shows "last_or xs (-1) = -1 \<or> gap_ok ss (last_or xs (-1)) (int l)"
    "hd_or ys (-1) = -1 \<or> gap_ok ss (int l) (hd_or ys (-1))"
proof -
  show "last_or xs (-1) = -1 \<or> gap_ok ss (last_or xs (-1)) (int l)"
  proof (cases "xs = []")
    case False
    then have "xs @ l # ys = butlast xs @ last xs # l # ys" by simp
    then have "gap_ok ss (int (last xs)) (int l)" using assms chain_gap by metis
    then show ?thesis using False by (simp add: last_or_def)
  qed simp
  show "hd_or ys (-1) = -1 \<or> gap_ok ss (int l) (hd_or ys (-1))"
    using assms chain_gap [of tx ss xs l] by (cases ys) auto
qed

lemma chain_pair:
  assumes "chain_ok tx ss c" "gap_ok ss a b" "sy_len (ss ! nat a) \<noteq> 0" "sy_len (ss ! nat b) \<noteq> 0"
  shows "\<exists>xs ys. c = xs @ nat a # nat b # ys"
proof (rule split_adjacent)
  have live: "set c = {i. i < length ss \<and> sy_len (ss ! i) \<noteq> 0}" using assms(1) by (simp add: chain_ok_def)
  show "sorted_wrt (<) c" using assms(1) by (simp add: chain_ok_def)
  show "nat a \<in> set c" "nat b \<in> set c" unfolding live using assms(2-4) by (auto simp: gap_ok_def nat_less_iff)
  show "nat a < nat b" using assms(2) by (auto simp: gap_ok_def)
  show "\<forall>i. nat a < i \<and> i < nat b \<longrightarrow> i \<notin> set c" unfolding live using assms(2) by (simp add: gap_ok_def)
qed

lemma BPE_merge_loop_chain:
  assumes "ids_ok vocab" "\<And>q. q \<noteq> [] \<Longrightarrow> pq_top q < length q"
  shows "chain_ok tx ss c \<Longrightarrow> queue_ok ss q \<Longrightarrow>
    \<exists>ss' c'. BPE_merge_loop pq_top inv_score vocab tx ss q = Some ss' \<and> chain_ok tx ss' c'"
  using assms
proof (induction pq_top inv_score vocab tx ss q arbitrary: c rule: BPE_merge_loop.induct)
  case (1 pq_top inv_score vocab tx ss q)
  show ?case
  proof (cases "q = []")
    case True
    then show ?thesis using 1(3) by auto
  next
    case ne: False
    let ?b = "q ! pq_top q" and ?q = "take (pq_top q) q @ drop (Suc (pq_top q)) q"
    let ?l = "nat (bg_left ?b)" and ?r = "nat (bg_right ?b)"
    have t: "pq_top q < length q" using 1(6) ne by blast
    then have "?b \<in> set q" by simp
    then have gap: "gap_ok ss (bg_left ?b) (bg_right ?b)" using 1(4) by (simp add: queue_ok_gap)
    then have range: "0 \<le> bg_left ?b" "0 \<le> bg_right ?b" "?l < length ss" "?r < length ss" "int ?l = bg_left ?b"
      by (auto simp: gap_ok_def nat_less_iff)
    have "set ?q \<subseteq> set q" by (auto dest: in_set_takeD in_set_dropD)
    then have q': "queue_ok ss ?q" using 1(4) by (auto simp: queue_ok_gap)
    let ?skip = "sy_len (ss ! ?l) = 0 \<or> sy_len (ss ! ?r) = 0 \<or> sy_len (ss ! ?l) + sy_len (ss ! ?r) \<noteq> bg_size ?b"
    show ?thesis
    proof (cases ?skip)
      case True
      have "\<exists>ss' c'. BPE_merge_loop pq_top inv_score vocab tx ss ?q = Some ss' \<and> chain_ok tx ss' c'"
        using 1(1) [OF ne _ refl refl refl refl _ True 1(3) q' 1(5,6)] t range by auto
      then show ?thesis using ne t range True by (subst BPE_merge_loop.simps) (auto simp: Let_def)
    next
      case False
      then obtain xs ys where c: "c = xs @ ?l # ?r # ys"
        using chain_pair [OF 1(3) gap] by auto
      obtain ss' where ss': "merge_symbols ss ?l ?r = Some ss'" "length ss' = length ss"
        "chain_ok tx ss' (xs @ ?l # ys)" "\<forall>i < length ss. sy_len (ss ! i) = 0 \<longrightarrow> sy_len (ss' ! i) = 0"
        "sy_prev (ss' ! ?l) = last_or xs (-1)" "sy_next (ss' ! ?l) = hd_or ys (-1)"
        using merge_chain 1(3) c by blast
      have "queue_ok ss' ?q" using q' gap_ok_mono [OF _ ss'(2,4)] by (auto simp: queue_ok_gap)
      then obtain q1 where q1: "TryAddBigram inv_score vocab tx ?q ss' (sy_prev (ss' ! ?l)) (bg_left ?b) = Some q1"
        "queue_ok ss' q1"
        using TryAddBigram_ok [OF 1(5), of ss' ?q "last_or xs (-1)" "bg_left ?b"] chain_neighbours(1) [OF ss'(3)]
          ss'(5) range(5) by auto
      obtain q2 where q2: "TryAddBigram inv_score vocab tx q1 ss' (bg_left ?b) (sy_next (ss' ! ?l)) = Some q2"
        "queue_ok ss' q2"
        using TryAddBigram_ok [OF 1(5) q1(2), of "bg_left ?b" "hd_or ys (-1)"] chain_neighbours(2) [OF ss'(3)]
          ss'(6) range(5) by auto
      have "\<exists>ss'' c'. BPE_merge_loop pq_top inv_score vocab tx ss' q2 = Some ss'' \<and> chain_ok tx ss'' c'"
        using 1(2) [OF ne _ refl refl refl refl _ False ss'(1) q1(1) q2(1) ss'(3) q2(2) 1(5,6)] t range by auto
      then show ?thesis using ne t range False ss'(1) q1(1) q2(1)
        by (subst BPE_merge_loop.simps) (auto simp: Let_def)
    qed
  qed
qed

subsection \<open>The initial symbols\<close>

fun tiles :: "nat \<Rightarrow> Symbol list \<Rightarrow> nat \<Rightarrow> bool" where
  "tiles a [] e \<longleftrightarrow> a = e"
| "tiles a (s # ss) e \<longleftrightarrow> sy_text s = a \<and> sy_len s \<noteq> 0 \<and> tiles (a + sy_len s) ss e"

fun numbered :: "nat \<Rightarrow> Symbol list \<Rightarrow> bool" where
  "numbered idx [] \<longleftrightarrow> True"
| "numbered idx (s # ss) \<longleftrightarrow> sy_prev s = int idx - 1 \<and> sy_next s = (if ss = [] then -1 else int idx + 1)
     \<and> numbered (Suc idx) ss"

declare BPE_symbols.simps [simp del]

lemma BPE_symbols_Nil_iff: "BPE_symbols tx idx ofs = [] \<longleftrightarrow> length tx \<le> ofs"
  by (subst BPE_symbols.simps) (auto simp: Let_def)

lemma BPE_symbols_tiles:
  "ofs \<le> length tx \<Longrightarrow> tiles ofs (BPE_symbols tx idx ofs) (length tx) \<and> numbered idx (BPE_symbols tx idx ofs)"
proof (induction tx idx ofs rule: BPE_symbols.induct)
  case (1 tx idx ofs)
  show ?case
  proof (cases "ofs < length tx")
    case True
    let ?n = "min (length tx - ofs) (Utf8Len (tx ! ofs))"
    have n: "?n \<noteq> 0" "ofs + ?n \<le> length tx" using True Utf8Len_bounds(1) [of "tx ! ofs"] by auto
    have "tiles (ofs + ?n) (BPE_symbols tx (idx + 1) (ofs + ?n)) (length tx)
        \<and> numbered (idx + 1) (BPE_symbols tx (idx + 1) (ofs + ?n))"
      using 1(1) [OF True refl refl] n(2) by blast
    with True n show ?thesis
      by (subst (1 2) BPE_symbols.simps) (auto simp: Let_def BPE_symbols_Nil_iff)
  next
    case False
    then show ?thesis using 1(2) by (subst (1 2) BPE_symbols.simps) simp
  qed
qed

lemma tiles_contig: "tiles a ss e \<Longrightarrow> contig (ys @ ss) a [length ys..<length ys + length ss] e"
proof (induction ss arbitrary: a ys)
  case (Cons s ss)
  then show ?case using Cons.IH [of "a + sy_len s" "ys @ [s]"]
    by (simp add: upt_conv_Cons nth_append del: upt_Suc)
qed simp

lemma hd_or_upt: "hd_or [a..<b] n = (if a < b then int a else n)"
  by (simp add: hd_or_def upt_conv_Cons)

lemma numbered_links:
  "numbered (length ys) ss \<Longrightarrow> links (ys @ ss) (int (length ys) - 1) [length ys..<length ys + length ss] (-1)"
proof (induction ss arbitrary: ys)
  case (Cons s ss)
  have "links (ys @ s # ss) (int (length ys)) [Suc (length ys)..<Suc (length ys + length ss)] (-1)"
    using Cons.IH [of "ys @ [s]"] Cons.prems by (simp del: upt_Suc)
  then show ?case using Cons.prems by (auto simp: upt_conv_Cons nth_append hd_or_upt simp del: upt_Suc)
qed simp

lemma tiles_live: "tiles a ss e \<Longrightarrow> i < length ss \<Longrightarrow> sy_len (ss ! i) \<noteq> 0"
proof (induction ss arbitrary: a i)
  case (Cons s ss)
  then show ?case by (cases i) auto
qed simp

lemma BPE_symbols_chain:
  assumes "tx \<noteq> []"
  shows "chain_ok tx (BPE_symbols tx 0 0) [0..<length (BPE_symbols tx 0 0)]"
proof -
  let ?ss = "BPE_symbols tx 0 0"
  have t: "tiles 0 ?ss (length tx)" "numbered 0 ?ss" using BPE_symbols_tiles [of 0 tx 0] by auto
  have "?ss \<noteq> []" using assms by (simp add: BPE_symbols_Nil_iff)
  moreover have "contig ?ss 0 [0..<length ?ss] (length tx)" using tiles_contig [OF t(1), of "[]"] by simp
  moreover have "links ?ss (-1) [0..<length ?ss] (-1)" using numbered_links [of "[]" ?ss] t(2) by simp
  moreover have "set [0..<length ?ss] = {i. i < length ?ss \<and> sy_len (?ss ! i) \<noteq> 0}"
    using tiles_live [OF t(1)] by auto
  ultimately show ?thesis by (simp add: chain_ok_def sorted_wrt_upt)
qed

lemma BPE_init_queue_ok:
  assumes "ids_ok vocab" "chain_ok tx ss [0..<length ss]" "queue_ok ss q" "\<forall>i \<in> set idxs. 0 < i \<and> i < length ss"
  shows "\<exists>q'. BPE_init_queue inv_score vocab tx ss idxs q = Some q' \<and> queue_ok ss q'"
  using assms(3,4)
proof (induction idxs arbitrary: q)
  case (Cons i idxs)
  have "[0..<length ss] = [0..<i - 1] @ (i - 1) # i # [Suc i..<length ss]"
    using Cons.prems(2) upt_add_eq_append [of 0 "i - 1" "length ss - (i - 1)"]
    by (auto simp: upt_conv_Cons Suc_diff_Suc)
  then have "gap_ok ss (int (i - 1)) (int i)" using chain_gap assms(2) by metis
  then have "gap_ok ss (int i - 1) (int i)" using Cons.prems(2) by (simp add: of_nat_diff Suc_leI)
  then obtain q1 where "TryAddBigram inv_score vocab tx q ss (int i - 1) (int i) = Some q1" "queue_ok ss q1"
    using TryAddBigram_ok [OF assms(1) Cons.prems(1)] by blast
  then show ?case using Cons.IH [of q1] Cons.prems(2) by simp
qed simp

lemma BPE_output_loop_chain:
  assumes "links ss p c (-1)" "\<forall>i \<in> set c. i < length ss"
  shows "BPE_output_loop vocab bs tx ss (hd_or c (-1)) out =
    Some (out @ concat (map (\<lambda>i. sym_tokens vocab bs (sym_str tx (ss ! i))) c))"
  using assms
proof (induction c arbitrary: p out)
  case Nil
  then show ?case by (subst BPE_output_loop.simps) simp
next
  case (Cons i c)
  then show ?case using Cons.IH [of "int i"] by (subst BPE_output_loop.simps) simp
qed

lemma BPE_segments:
  assumes "tx \<noteq> []" "ids_ok (tt_vocab tt)" "\<And>q. q \<noteq> [] \<Longrightarrow> pq_top q < length q"
  shows "\<exists>segs. concat segs = tx \<and> [] \<notin> set segs \<and> BytePairEncoding pq_top inv_score tt out tx
    = Some (out @ concat (map (sym_tokens (tt_vocab tt) (tt_byte_token_id_start tt)) segs))"
proof -
  let ?ss = "BPE_symbols tx 0 0"
  note chain = BPE_symbols_chain [OF assms(1)]
  obtain q where q: "BPE_init_queue inv_score (tt_vocab tt) tx ?ss [1..<length ?ss] [] = Some q" "queue_ok ?ss q"
  proof -
    have "queue_ok ?ss ([] :: 'a Bigram list)" by (simp add: queue_ok_def)
    from BPE_init_queue_ok [OF assms(2) chain this, of "[1..<length ?ss]" inv_score] that show ?thesis by auto
  qed
  obtain ss c where ss: "BPE_merge_loop pq_top inv_score (tt_vocab tt) tx ?ss q = Some ss" "chain_ok tx ss c"
    using BPE_merge_loop_chain [OF assms(2,3) chain q(2)] by blast
  let ?segs = "map (\<lambda>i. sym_str tx (ss ! i)) c"
  have c: "c \<noteq> []" "hd c = 0" "links ss (-1) c (-1)" "contig ss 0 c (length tx)"
    and live: "set c = {i. i < length ss \<and> sy_len (ss ! i) \<noteq> 0}"
    using ss(2) by (simp_all add: chain_ok_def)
  have "concat ?segs = tx" using contig_concat [OF c(4)] by simp
  moreover have "[] \<notin> set ?segs"
    using contig_bound [OF c(4)] live by (fastforce simp: sym_str_def substr_def)
  moreover have "hd_or c (-1) = 0" using c(1,2) by (cases c) auto
  then have "BPE_output_loop (tt_vocab tt) (tt_byte_token_id_start tt) tx ss 0 out
      = Some (out @ concat (map (sym_tokens (tt_vocab tt) (tt_byte_token_id_start tt)) ?segs))"
    using BPE_output_loop_chain [OF c(3), of "tt_vocab tt" "tt_byte_token_id_start tt" tx out] live
    by (simp add: o_def)
  ultimately show ?thesis using q(1) ss(1)
    by (intro exI [of _ ?segs]) (simp add: BytePairEncoding_def Let_def)
qed

section \<open>Tokenize\<close>

text \<open>
  \<open>Tokenize\<close> clears the output; the callbacks build the processed text one after the other.
\<close>

definition Tokenize :: "('f Bigram list \<Rightarrow> nat) \<Rightarrow> (int \<Rightarrow> 'f) \<Rightarrow> 'f TextTokenizer \<Rightarrow> string \<Rightarrow> bool
    \<Rightarrow> TokenizationAlg \<Rightarrow> int list option" where
  "Tokenize pq_top inv_score tt input_text add_bos alg =
     (if input_text = [] then Some []
      else
        let process_input_text = (if tt_pre_callbacks tt \<noteq> []
              then fold (\<lambda>f s. f s input_text) (tt_pre_callbacks tt) [] else input_text);
            output = (if add_bos then [bos_id (tt_vocab tt)] else [])
        in if alg = TA_FMM \<or> alg = TA_FMM2
           then Some (ForwardMaximumMatching tt output process_input_text (alg = TA_FMM2))
           else BytePairEncoding pq_top inv_score tt output process_input_text)"

text \<open>The first greatest element, as one possible choice of the queue.\<close>

fun first_top :: "'f::linorder Bigram list \<Rightarrow> nat" where
  "first_top [] = 0"
| "first_top [b] = 0"
| "first_top (b # q) = (let i = first_top q in if bigram_less b (q ! i) then Suc i else 0)"

lemma first_top_less: "q \<noteq> [] \<Longrightarrow> first_top q < length q"
  by (induction q rule: first_top.induct) (auto simp: Let_def)

section \<open>The trie built from the vocabulary\<close>

definition vocab_dict :: "'f Token list \<Rightarrow> (string \<rightharpoonup> nat)" where
  "vocab_dict tokens = fold (\<lambda>tk D. D(tk_str tk \<mapsto> to_u32 (tk_id tk))) tokens Map.empty"

lemma Trie_Clear_ok: "trie_ok (Trie_Clear t)" "trie_view (Trie_Clear t) = Map.empty"
proof -
  have rep: "trie_rep (Trie_Clear t) []" by (auto simp: trie_rep_def Trie_Clear_def is_node_def)
  then show "trie_ok (Trie_Clear t)" unfolding trie_ok_def by (intro exI [of _ "[]"]) simp
  show "trie_view (Trie_Clear t) = Map.empty"
    by (auto simp: fun_eq_iff trie_view_rep [OF rep] node_val_def)
qed

lemma trie_of_tokens:
  assumes "trie_ok t" "\<forall>tk \<in> set tokens. tk_str tk \<noteq> [] \<and> 0 \<le> tk_id tk"
    "\<forall>tk \<in> set tokens. tk_id tk < 2 ^ 31"
    "length (node_list t) + (\<Sum>tk \<leftarrow> tokens. length (tk_str tk)) \<le> UINT32_MAX"
  shows "trie_ok (fold (\<lambda>tk t. snd (AddEx t (tk_str tk) (to_u32 (tk_id tk)) True)) tokens t)
    \<and> trie_view (fold (\<lambda>tk t. snd (AddEx t (tk_str tk) (to_u32 (tk_id tk)) True)) tokens t)
      = fold (\<lambda>tk D. D(tk_str tk \<mapsto> to_u32 (tk_id tk))) tokens (trie_view t)"
  using assms
proof (induction tokens arbitrary: t)
  case (Cons tk tokens)
  let ?t = "snd (AddEx t (tk_str tk) (to_u32 (tk_id tk)) True)"
  have "tk_id tk mod 2 ^ 32 = tk_id tk" using Cons.prems(2,3) by (intro mod_pos_pos_trivial) auto
  then have "to_u32 (tk_id tk) < UINT32_MAX"
    using Cons.prems(2,3) by (simp add: to_u32_def UINT32_MAX_def nat_less_iff)
  note add = AddEx_view [OF Cons.prems(1) _ this, of "tk_str tk"]
  have "trie_view ?t = (trie_view t)(tk_str tk \<mapsto> to_u32 (tk_id tk))" "trie_ok ?t"
    "length (node_list ?t) \<le> length (node_list t) + length (tk_str tk)"
    using add Cons.prems(2,4) by auto
  then show ?case using Cons.IH [of ?t] Cons.prems(2-4) by simp
qed simp

section \<open>Properties\<close>

text \<open>
  C7. Byte pair encoding loses no text: for a non-empty text it always ends without leaving its
  arrays, whatever greatest bigram the queue delivers, and the tokens are those of consecutive
  non-empty pieces of the text, each replaced by its id or by one token per byte.
\<close>

theorem BPE_lossless:
  assumes "tx \<noteq> []" and "ids_ok (tt_vocab tt)" and "\<And>q. q \<noteq> [] \<Longrightarrow> pq_top q < length q"
  shows "\<exists>segs. concat segs = tx \<and> [] \<notin> set segs \<and> BytePairEncoding pq_top inv_score tt out tx
    = Some (out @ concat (map (sym_tokens (tt_vocab tt) (tt_byte_token_id_start tt)) segs))"
  using assms by (rule BPE_segments)

definition tiny_vocab :: "int StdVocabulary" where
  "tiny_vocab = new_StdVocabulary\<lparr>str_to_id := [(''ab'', 2)],
     token_array := map (\<lambda>(i, s). \<lparr>tk_id = i, tk_str = s, tk_score = 0, tk_type = 0\<rparr>)
       [(0, byte_token CHR ''a''), (1, byte_token CHR ''b''), (2, ''ab'')]\<rparr>"

definition tiny_tokenizer :: "int TextTokenizer" where
  "tiny_tokenizer = Tokenizer_Init new_NaiveTrie tiny_vocab (-97)"

lemma tiny_vocab_ids: "ids_ok (tt_vocab tiny_tokenizer)"
  by (simp add: ids_ok_def tiny_tokenizer_def Tokenizer_Init_def tiny_vocab_def omap_find_Cons)

theorem BPE_lossless_witness:
  "\<exists>segs. concat segs = ''aba'' \<and> [] \<notin> set segs \<and> BytePairEncoding first_top uminus tiny_tokenizer [] ''aba''
    = Some ([] @ concat (map (sym_tokens (tt_vocab tiny_tokenizer) (tt_byte_token_id_start tiny_tokenizer)) segs))"
  by (rule BPE_lossless) (simp_all add: tiny_vocab_ids first_top_less)

lemma Tokenize_decodes:
  assumes "tx \<noteq> []" and "ids_ok (tt_vocab tt)" and "\<And>q. q \<noteq> [] \<Longrightarrow> pq_top q < length q"
    and "tt_pre_callbacks tt = []" and "alg \<notin> {TA_FMM, TA_FMM2}"
    and bytes: "\<And>c. c \<in> set tx \<Longrightarrow> IdToStr (tt_vocab tt) (of_char c + tt_byte_token_id_start tt) True = [c]"
    and entries: "\<And>s i. sublist s tx \<Longrightarrow> omap_find (str_to_id (tt_vocab tt)) s = Some i \<Longrightarrow>
      IdToStr (tt_vocab tt) i True = s"
  shows "\<exists>toks. Tokenize pq_top inv_score tt tx False alg = Some toks
    \<and> concat (map (\<lambda>i. IdToStr (tt_vocab tt) i True) toks) = tx"
proof -
  let ?d = "\<lambda>i. IdToStr (tt_vocab tt) i True"
  let ?tok = "sym_tokens (tt_vocab tt) (tt_byte_token_id_start tt)"
  obtain segs where segs: "concat segs = tx"
    "BytePairEncoding pq_top inv_score tt [] tx = Some (concat (map ?tok segs))"
    using BPE_segments [OF assms(1-3), of inv_score "[]"] by auto
  have "concat (map ?d (?tok s)) = s" if mem: "s \<in> set segs" for s
  proof -
    obtain us vs where "segs = us @ s # vs" using split_list [OF mem] by blast
    then have sub: "sublist s tx" using segs(1) by (auto simp: sublist_def)
    then have "set s \<subseteq> set tx" by (rule set_mono_sublist)
    then have "concat (map (\<lambda>c. ?d (of_char c + tt_byte_token_id_start tt)) s) = s"
      using bytes by (induction s) auto
    then show ?thesis using entries [OF sub]
      by (auto simp: sym_tokens_def o_def split: option.splits)
  qed
  then have "concat (map ?d (concat (map ?tok segs))) = concat segs"
    by (induction segs) auto
  then show ?thesis using segs assms(1,4,5) by (auto simp: Tokenize_def Let_def)
qed

text \<open>
  C18. Encoding then decoding gives the text back with every algorithm except \<open>FMM\<close> and \<open>FMM2\<close>
  (forward maximum matching drops the bytes that no entry covers) and for a tokenizer without
  pre-callbacks: when every byte of the text has its byte token and every vocabulary entry that
  occurs in the text decodes to itself, the concatenated strings of the tokens are the text.
\<close>

theorem Tokenize_roundtrip:
  assumes "tx \<noteq> []" and "ids_ok (tt_vocab tt)" and "\<And>q. q \<noteq> [] \<Longrightarrow> pq_top q < length q"
    and "tt_pre_callbacks tt = []" and "alg \<notin> {TA_FMM, TA_FMM2}"
    and bytes: "\<And>c. c \<in> set tx \<Longrightarrow> IdToStr (tt_vocab tt) (of_char c + tt_byte_token_id_start tt) True = [c]"
    and entries: "\<And>s i. sublist s tx \<Longrightarrow> omap_find (str_to_id (tt_vocab tt)) s = Some i \<Longrightarrow>
      IdToStr (tt_vocab tt) i True = s"
  shows "\<exists>toks. Tokenize pq_top inv_score tt tx False alg = Some toks
    \<and> concat (map (\<lambda>i. IdToStr (tt_vocab tt) i True) toks) = tx"
  by (rule Tokenize_decodes [OF assms])

theorem Tokenize_roundtrip_witness:
  "\<exists>toks. Tokenize first_top uminus tiny_tokenizer ''aba'' False TA_BPE = Some toks
    \<and> concat (map (\<lambda>i. IdToStr (tt_vocab tiny_tokenizer) i True) toks) = ''aba''"
proof (rule Tokenize_roundtrip)
  show "IdToStr (tt_vocab tiny_tokenizer) (of_char c + tt_byte_token_id_start tiny_tokenizer) True = [c]"
    if "c \<in> set ''aba''" for c
    using that by (auto intro!: IdToStr_byte_token
        simp: tiny_tokenizer_def Tokenizer_Init_def tiny_vocab_def new_StdVocabulary_def)
  show "IdToStr (tt_vocab tiny_tokenizer) i True = s"
    if "omap_find (str_to_id (tt_vocab tiny_tokenizer)) s = Some i" for s i
    using that by (auto simp: tiny_tokenizer_def Tokenizer_Init_def tiny_vocab_def new_StdVocabulary_def
        omap_find_Cons IdToStr_def Let_def split: if_splits)
qed (auto simp: tiny_vocab_ids first_top_less, simp add: tiny_tokenizer_def Tokenizer_Init_def tiny_vocab_def
    new_StdVocabulary_def)

text \<open>
  C12. Forward maximum matching over the trie that \<open>Init\<close> builds takes, from left to right, the
  longest vocabulary entry at every position (the id of the last token with that string), and
  skips the bytes at which no entry begins.
\<close>

theorem FMM_longest_match:
  assumes "\<forall>tk \<in> set (token_array vocab). tk_str tk \<noteq> [] \<and> 0 \<le> tk_id tk"
    and "\<forall>tk \<in> set (token_array vocab). tk_id tk < 2 ^ 31"
    and "(\<Sum>tk \<leftarrow> token_array vocab. length (tk_str tk)) \<le> UINT32_MAX"
  shows "ForwardMaximumMatching (Tokenizer_Init trie0 vocab bs) out tx sp
    = out @ fmm_spec (vocab_dict (token_array vocab)) tx"
proof -
  let ?t = "fold (\<lambda>tk t. snd (AddEx t (tk_str tk) (to_u32 (tk_id tk)) True)) (token_array vocab) (Trie_Clear trie0)"
  have "length (node_list (Trie_Clear trie0)) + (\<Sum>tk \<leftarrow> token_array vocab. length (tk_str tk)) \<le> UINT32_MAX"
    using assms(3) by (simp add: Trie_Clear_def)
  with trie_of_tokens [OF Trie_Clear_ok(1) [of trie0] assms(1,2)]
  have "trie_ok ?t" "trie_view ?t = vocab_dict (token_array vocab)"
    by (simp_all add: Trie_Clear_ok(2) vocab_dict_def)
  with trie.fmm_spec_correct [of ?t tx out] show ?thesis
    by (simp add: ForwardMaximumMatching_def Tokenizer_Init_def)
qed

theorem FMM_longest_match_witness:
  "ForwardMaximumMatching (Tokenizer_Init new_NaiveTrie tiny_vocab 3) [] ''xabab'' False
    = [] @ fmm_spec (vocab_dict (token_array tiny_vocab)) ''xabab''"
  by (rule FMM_longest_match) (simp_all add: tiny_vocab_def new_StdVocabulary_def byte_token_def UINT32_MAX_def)

end
