(* ===== verification/Utf8.thy ===== *)
theory Utf8
  imports CppString
begin

text \<open>
  The conversions between wide strings and UTF-8 (src/3rd_party/sslib/string_util.cc). A wide
  character is a number; \<open>Ucs2ToUtf8\<close> cuts it to 16 bits.
\<close>

type_synonym wstr = "nat list"

definition Ucs2ToUtf8_char :: "nat \<Rightarrow> string" where
  "Ucs2ToUtf8_char w =
     (let ch = w mod 2 ^ 16
      in if ch \<le> 0x7F then [char_of ch]
         else if ch \<le> 0x7FF then [char_of (0xC0 OR drop_bit 6 ch), char_of (0x80 OR (ch AND 0x3F))]
         else [char_of (0xE0 OR drop_bit 12 ch), char_of (0x80 OR (drop_bit 6 ch AND 0x3F)),
               char_of (0x80 OR (ch AND 0x3F))])"

definition ToUtf8 :: "wstr \<Rightarrow> string" where
  "ToUtf8 source = concat (map Ucs2ToUtf8_char source)"

text \<open>The state of the decoding loop: pending continuation bytes, large characters, current value, error.\<close>

record utf8_state =
  us_r :: nat
  us_big :: nat
  us_cur :: nat
  us_error :: bool
  us_target :: wstr

definition Utf8ToUcs2_step :: "nat \<Rightarrow> utf8_state \<Rightarrow> char \<Rightarrow> utf8_state" where
  "Utf8ToUcs2_step max_big_char_count s c =
     (let ch = (of_char c :: nat)
      in if ch AND 0x80 = 0 then
           s\<lparr>us_target := us_target s @ [ch], us_error := (us_error s \<or> us_r s > 0), us_r := 0\<rparr>
         else if ch AND 0x40 = 0 then
           (if us_r s = 0 then s\<lparr>us_error := True\<rparr>
            else
              let r = us_r s - 1; cur = push_bit 6 (us_cur s) OR (ch AND 0x3F)
              in if r = 0 then
                   let (cur', big) = (if cur \<ge> 0xFFFF then (32, us_big s + 1) else (cur, us_big s))
                   in s\<lparr>us_r := r, us_cur := cur', us_big := big,
                        us_error := (us_error s \<or> big > max_big_char_count), us_target := us_target s @ [cur']\<rparr>
                 else s\<lparr>us_r := r, us_cur := cur\<rparr>)
         else if ch AND 0x20 = 0 then s\<lparr>us_cur := ch AND 0x1F, us_error := (us_error s \<or> us_r s \<noteq> 0), us_r := 1\<rparr>
         else if ch AND 0x10 = 0 then s\<lparr>us_cur := ch AND 0x0F, us_error := (us_error s \<or> us_r s \<noteq> 0), us_r := 2\<rparr>
         else if ch AND 0x08 = 0 then s\<lparr>us_cur := ch AND 0x07, us_error := (us_error s \<or> us_r s \<noteq> 0), us_r := 3\<rparr>
         else s\<lparr>us_error := True\<rparr>)"

definition Utf8ToUcs2 :: "nat \<Rightarrow> string \<Rightarrow> bool \<times> wstr" where
  "Utf8ToUcs2 max_big_char_count source =
     (let s = fold (\<lambda>c s. Utf8ToUcs2_step max_big_char_count s c) source
            \<lparr>us_r = 0, us_big = 0, us_cur = 0, us_error = False, us_target = []\<rparr>
      in (\<not> us_error s, us_target s))"

section \<open>Bytes of a sequence\<close>

text \<open>Bit operations on bytes as arithmetic.\<close>

lemma shift_or: "x < 2 ^ n \<Longrightarrow> push_bit n c OR x = c * 2 ^ n + (x :: nat)"
proof -
  assume "x < 2 ^ n"
  then have "take_bit n x = x" by (simp add: take_bit_eq_mod)
  then have "push_bit n c OR x = push_bit n c + x"
    by (intro disjunctive_add [symmetric]) (metis bit_push_bit_iff bit_take_bit_iff not_less)
  then show ?thesis by (simp add: push_bit_eq_mult)
qed

lemma and_low: "a AND (2 ^ n - 1) = a mod (2 ^ n :: nat)"
  using take_bit_eq_mask [of n a] by (simp add: take_bit_eq_mod mask_eq_exp_minus_1)

lemma and_bit: "a AND 2 ^ n = (0 :: nat) \<longleftrightarrow> even (a div 2 ^ n)"
proof -
  have "a AND 2 ^ n = of_bool (bit a n) * 2 ^ n"
    by (rule bit_eqI) (auto simp: bit_and_iff bit_exp_iff bit_simps)
  then show ?thesis by (simp add: bit_iff_odd)
qed

lemma or_lead: "x < 64 \<Longrightarrow> 0x80 OR x = 128 + (x :: nat)" "x < 32 \<Longrightarrow> 0xC0 OR x = 192 + x"
  "x < 16 \<Longrightarrow> 0xE0 OR x = 224 + x"
  using shift_or [of x 6 2] shift_or [of x 5 6] shift_or [of x 4 14] by (simp_all add: push_bit_eq_mult)

lemma and_masks: "a AND 0x3F = a mod (64 :: nat)" "a AND 0x1F = a mod 32" "a AND 0x0F = a mod 16"
  using and_low [of a 6] and_low [of a 5] and_low [of a 4] by simp_all

lemma and_bits: "a AND 0x80 = (0 :: nat) \<longleftrightarrow> even (a div 128)" "a AND 0x40 = (0 :: nat) \<longleftrightarrow> even (a div 64)"
  "a AND 0x20 = (0 :: nat) \<longleftrightarrow> even (a div 32)" "a AND 0x10 = (0 :: nat) \<longleftrightarrow> even (a div 16)"
  using and_bit [of a 7] and_bit [of a 6] and_bit [of a 5] and_bit [of a 4] by simp_all

lemma shift_or_6: "x < 64 \<Longrightarrow> push_bit 6 c OR x = c * 64 + (x :: nat)"
  using shift_or [of x 6 c] by simp

text \<open>The loop on the three kinds of bytes.\<close>

lemma step_plain:
  "x < 128 \<Longrightarrow> us_r s = 0 \<Longrightarrow> Utf8ToUcs2_step mx s (char_of x) = s\<lparr>us_target := us_target s @ [x]\<rparr>"
  by (simp add: Utf8ToUcs2_step_def and_bits Let_def)

lemma step_lead2:
  "x < 32 \<Longrightarrow> us_r s = 0 \<Longrightarrow> Utf8ToUcs2_step mx s (char_of (192 + x)) = s\<lparr>us_cur := x, us_r := 1\<rparr>"
proof -
  assume "x < 32"
  then have "(192 + x) div 128 = 1" "(192 + x) div 64 = 3" "(192 + x) div 32 = 6" "(192 + x) mod 32 = x"
    by (auto intro: div_nat_eqI mod_nat_eqI)
  then show "us_r s = 0 \<Longrightarrow> ?thesis" using \<open>x < 32\<close> by (simp add: Utf8ToUcs2_step_def and_bits and_masks Let_def)
qed

lemma step_lead3:
  "x < 16 \<Longrightarrow> us_r s = 0 \<Longrightarrow> Utf8ToUcs2_step mx s (char_of (224 + x)) = s\<lparr>us_cur := x, us_r := 2\<rparr>"
proof -
  assume "x < 16"
  then have "(224 + x) div 128 = 1" "(224 + x) div 64 = 3" "(224 + x) div 32 = 7" "(224 + x) div 16 = 14"
    "(224 + x) mod 16 = x" by (auto intro: div_nat_eqI mod_nat_eqI)
  then show "us_r s = 0 \<Longrightarrow> ?thesis" using \<open>x < 16\<close> by (simp add: Utf8ToUcs2_step_def and_bits and_masks Let_def)
qed

lemma step_cont:
  assumes "x < 64" "us_r s = Suc r"
  shows "Utf8ToUcs2_step mx s (char_of (128 + x)) =
    (let cur = us_cur s * 64 + x
     in if r = 0 then
          let (cur', big) = (if cur \<ge> 0xFFFF then (32, us_big s + 1) else (cur, us_big s))
          in s\<lparr>us_r := r, us_cur := cur', us_big := big,
               us_error := (us_error s \<or> big > mx), us_target := us_target s @ [cur']\<rparr>
        else s\<lparr>us_r := r, us_cur := cur\<rparr>)"
proof -
  have "(128 + x) div 128 = 1" "(128 + x) div 64 = 2" "(128 + x) mod 64 = x"
    using assms(1) by (auto intro: div_nat_eqI mod_nat_eqI)
  then show ?thesis using assms by (simp add: Utf8ToUcs2_step_def and_bits and_masks shift_or_6 Let_def)
qed

lemma decode_char:
  assumes "w < 0xFFFF" "us_r s = 0" "us_big s \<le> mx" "\<not> us_error s"
  shows "\<exists>cur. fold (\<lambda>c s. Utf8ToUcs2_step mx s c) (Ucs2ToUtf8_char w) s =
    s\<lparr>us_cur := cur, us_target := us_target s @ [w]\<rparr>"
proof -
  have w: "w mod 2 ^ 16 = w" using assms(1) by simp
  consider "w \<le> 0x7F" | "0x7F < w" "w \<le> 0x7FF" | "0x7FF < w" by linarith
  then show ?thesis
  proof cases
    case 1
    then have "fold (\<lambda>c s. Utf8ToUcs2_step mx s c) (Ucs2ToUtf8_char w) s = s\<lparr>us_cur := us_cur s, us_target := us_target s @ [w]\<rparr>"
      using step_plain [of w s mx] assms(2) w by (simp add: Ucs2ToUtf8_char_def)
    then show ?thesis by blast
  next
    case 2
    have lt: "w div 64 < 32" "w mod 64 < 64" using 2 by auto
    have "Ucs2ToUtf8_char w = [char_of (192 + w div 64), char_of (128 + w mod 64)]"
      using 2 w lt by (simp add: Ucs2ToUtf8_char_def or_lead and_masks drop_bit_eq_div)
    then have "fold (\<lambda>c s. Utf8ToUcs2_step mx s c) (Ucs2ToUtf8_char w) s = s\<lparr>us_cur := w, us_target := us_target s @ [w]\<rparr>"
      using step_lead2 [OF lt(1) assms(2), of mx] step_cont [OF lt(2), of "s\<lparr>us_cur := w div 64, us_r := 1\<rparr>" 0 mx] assms
      by (simp add: Let_def)
    then show ?thesis by blast
  next
    case 3
    have lt: "w div 4096 < 16" "w div 64 mod 64 < 64" "w mod 64 < 64" using assms(1) by auto
    have val: "(w div 4096 * 64 + w div 64 mod 64) * 64 + w mod 64 = w"
    using div_mult2_eq [of w 64 64] div_mult_mod_eq [of "w div 64" 64] div_mult_mod_eq [of w 64] by simp
    have "Ucs2ToUtf8_char w = [char_of (224 + w div 4096), char_of (128 + w div 64 mod 64), char_of (128 + w mod 64)]"
      using 3 w lt by (simp add: Ucs2ToUtf8_char_def or_lead and_masks drop_bit_eq_div)
    then have "fold (\<lambda>c s. Utf8ToUcs2_step mx s c) (Ucs2ToUtf8_char w) s = s\<lparr>us_cur := w, us_target := us_target s @ [w]\<rparr>"
      using step_lead3 [OF lt(1) assms(2), of mx] step_cont [OF lt(2), of "s\<lparr>us_cur := w div 4096, us_r := 2\<rparr>" 1 mx]
        step_cont [OF lt(3), of "s\<lparr>us_r := 1, us_cur := w div 4096 * 64 + w div 64 mod 64\<rparr>" 0 mx] assms val
      by (simp add: Let_def)
    then show ?thesis by blast
  qed
qed

lemma decode_chars:
  assumes "\<forall>w \<in> set ws. w < 0xFFFF" "us_r s = 0" "us_big s \<le> mx" "\<not> us_error s"
  shows "\<exists>cur. fold (\<lambda>c s. Utf8ToUcs2_step mx s c) (ToUtf8 ws) s = s\<lparr>us_cur := cur, us_target := us_target s @ ws\<rparr>"
  using assms
proof (induction ws arbitrary: s)
  case (Cons w ws)
  obtain cur where "fold (\<lambda>c s. Utf8ToUcs2_step mx s c) (Ucs2ToUtf8_char w) s =
      s\<lparr>us_cur := cur, us_target := us_target s @ [w]\<rparr>" using decode_char Cons.prems by fastforce
  then show ?case using Cons.IH [of "s\<lparr>us_cur := cur, us_target := us_target s @ [w]\<rparr>"] Cons.prems
    by (auto simp: ToUtf8_def)
next
  case Nil
  have "fold (\<lambda>c s. Utf8ToUcs2_step mx s c) (ToUtf8 []) s = s\<lparr>us_cur := us_cur s, us_target := us_target s @ []\<rparr>"
    by (simp add: ToUtf8_def)
  then show ?case by blast
qed

section \<open>Properties\<close>

text \<open>
  C23. Wide strings survive the conversion to UTF-8 and back, without an error, when all characters
  lie below U+FFFF.
\<close>

theorem utf8_roundtrip:
  assumes "\<forall>w \<in> set ws. w < 0xFFFF"
  shows "Utf8ToUcs2 max_big (ToUtf8 ws) = (True, ws)"
  using decode_chars [OF assms, of "\<lparr>us_r = 0, us_big = 0, us_cur = 0, us_error = False, us_target = []\<rparr>" max_big]
  by (auto simp: Utf8ToUcs2_def)

theorem utf8_roundtrip_witness:
  "Utf8ToUcs2 0 (ToUtf8 [0x41, 0xE9, 0x4E2D]) = (True, [0x41, 0xE9, 0x4E2D])"
  by (rule utf8_roundtrip) simp

end
