(* ===== verification/EngineInput.thy ===== *)
theory EngineInput
  imports Tokenizer Utf8 ModelTypes "HOL-Library.Monad_Syntax"
begin

text \<open>
  From a query to model input (src/src/transformer/inference_engine.cc, inference_types.h): the
  template keys, the building of the encoder input and the decoder prefix from a template, the
  building of a plain prompt, and the engine's tokenisation with its role markers.

  A template is a text with keys in braces. The loops of the source walk over it with a start
  position; here they consume the rest of the template, and \<open>next_key\<close> splits off the text before
  the next key and the key itself.
\<close>

section \<open>Data\<close>

datatype KeyId = UnknownKey | SystemPrompt | QueryText | QueryTextWithPreSpace | ResPrefix | Bos | Eos
  | UserToken | AssistantToken | CodePrefix | CodeSuffix | CodeLanguage | CodeFilePath

definition InitKeyMap :: "(string, KeyId) omap" where
  "InitKeyMap = omap_of
    [(''system_prompt'', SystemPrompt), (''question'', QueryText), (''query'', QueryText),
     (''_question'', QueryTextWithPreSpace), (''_query'', QueryTextWithPreSpace),
     (''res_prefix'', ResPrefix), (''answer'', ResPrefix), (''bos'', Bos), (''eos'', Eos),
     (''user_token'', UserToken), (''assistant_token'', AssistantToken),
     (''code_prefix'', CodePrefix), (''code_suffix'', CodeSuffix),
     (''code_language'', CodeLanguage), (''code_file_path'', CodeFilePath)]"

record LlmQuery =
  lq_system_prompt :: wstr
  lq_text :: wstr
  lq_response_prefix :: wstr
  lq_encoder_input_template :: wstr
  lq_decoder_input_template :: wstr
  lq_code_prefix :: wstr
  lq_code_suffix :: wstr
  lq_code_language :: wstr
  lq_code_file_path :: wstr

definition LlmQuery_Clear :: "LlmQuery \<Rightarrow> LlmQuery" where
  "LlmQuery_Clear q = q\<lparr>lq_system_prompt := [], lq_text := [], lq_response_prefix := [],
     lq_encoder_input_template := [], lq_decoder_input_template := []\<rparr>"

record EncoderInput =
  ei_prefix_tokens :: "int list"
  ei_core_text :: string
  ei_suffix_tokens :: "int list"

record DecoderPrefixSection =
  sec_is_text :: bool
  sec_token_id :: int
  sec_text :: string

record DecoderPrefix =
  dp_sections :: "DecoderPrefixSection list"
  dp_res_prefix :: string

definition text_section :: "string \<Rightarrow> DecoderPrefixSection" where
  "text_section s = \<lparr>sec_is_text = True, sec_token_id = -1, sec_text = s\<rparr>"

definition token_section :: "int \<Rightarrow> string \<Rightarrow> DecoderPrefixSection" where
  "token_section i s = \<lparr>sec_is_text = False, sec_token_id = i, sec_text = s\<rparr>"

text \<open>
  The part of \<open>TransformerModel\<close> that these operations read. The embedding matrices are represented
  by their number of rows, \<open>None\<close> for a null pointer.
\<close>

record 'f TransformerModel =
  tm_spec :: ModelSpec
  tm_vocabulary :: "'f StdVocabulary"
  tm_output_vocabulary :: "'f StdVocabulary"
  tm_user_token_id :: int
  tm_assistant_token_id :: int
  tm_encoder_embeddings_rows :: "int option"
  tm_decoder_embeddings_rows :: "int option"

section \<open>Templates\<close>

fun find_template :: "(ModelSpec \<Rightarrow> string) \<Rightarrow> ModelSpec list \<Rightarrow> string \<Rightarrow> string" where
  "find_template f [] model = []"
| "find_template f (ms # rest) model =
     (if CaseCmp_eq (ms_sid ms) model then f ms else find_template f rest model)"

definition GetEncoderInputTemplate :: "'f TransformerModel \<Rightarrow> ModelSpec list \<Rightarrow> string \<Rightarrow> string" where
  "GetEncoderInputTemplate tm models model =
     (if model = [] then ms_encoder_input_template (tm_spec tm)
      else find_template ms_encoder_input_template models model)"

definition GetPromptTemplate :: "'f TransformerModel \<Rightarrow> ModelSpec list \<Rightarrow> string \<Rightarrow> string" where
  "GetPromptTemplate tm models model =
     (if model = [] then ms_decoder_input_template (tm_spec tm)
      else find_template ms_decoder_input_template models model)"

definition next_key :: "string \<Rightarrow> (string \<times> string \<times> string) option" where
  "next_key rest =
     (let before = takeWhile (\<lambda>c. c \<noteq> CHR ''{'') rest;
          at_key = dropWhile (\<lambda>c. c \<noteq> CHR ''{'') rest;
          key = takeWhile (\<lambda>c. c \<noteq> CHR ''}'') (tl at_key);
          behind = dropWhile (\<lambda>c. c \<noteq> CHR ''}'') (tl at_key)
      in if at_key = [] \<or> behind = [] then None else Some (before, key, tl behind))"

lemma next_key_Some:
  assumes "next_key rest = Some (before, key, rest')"
  shows "rest = before @ ''{'' @ key @ ''}'' @ rest'" "CHR ''{'' \<notin> set before" "CHR ''}'' \<notin> set key"
proof -
  let ?a = "dropWhile (\<lambda>c. c \<noteq> CHR ''{'') rest"
  let ?b = "dropWhile (\<lambda>c. c \<noteq> CHR ''}'') (tl ?a)"
  from assms have ne: "?a \<noteq> []" "?b \<noteq> []"
    and parts: "before = takeWhile (\<lambda>c. c \<noteq> CHR ''{'') rest" "key = takeWhile (\<lambda>c. c \<noteq> CHR ''}'') (tl ?a)"
      "rest' = tl ?b"
    by (auto simp: next_key_def Let_def split: if_splits)
  have "?a = CHR ''{'' # tl ?a" "?b = CHR ''}'' # tl ?b"
    using ne hd_dropWhile [OF ne(1)] hd_dropWhile [OF ne(2)] by (metis list.collapse)+
  then show "rest = before @ ''{'' @ key @ ''}'' @ rest'"
    unfolding parts by (metis append_Cons append_Nil takeWhile_dropWhile_id)
  show "CHR ''{'' \<notin> set before" "CHR ''}'' \<notin> set key"
    unfolding parts using set_takeWhileD by fastforce+
qed

lemma next_key_shorter: "next_key rest = Some (before, key, rest') \<Longrightarrow> length rest' < length rest"
  using next_key_Some(1) by fastforce

lemma next_key_exact:
  assumes "CHR ''{'' \<notin> set before" "CHR ''}'' \<notin> set key"
  shows "next_key (before @ CHR ''{'' # key @ CHR ''}'' # rest) = Some (before, key, rest)"
proof -
  have "takeWhile (\<lambda>c. c \<noteq> CHR ''{'') (before @ CHR ''{'' # xs) = before"
    "dropWhile (\<lambda>c. c \<noteq> CHR ''{'') (before @ CHR ''{'' # xs) = CHR ''{'' # xs" for xs
    using assms(1) by (auto simp: takeWhile_append dropWhile_append)
  moreover have "takeWhile (\<lambda>c. c \<noteq> CHR ''}'') (key @ CHR ''}'' # rest) = key"
    "dropWhile (\<lambda>c. c \<noteq> CHR ''}'') (key @ CHR ''}'' # rest) = CHR ''}'' # rest"
    using assms(2) by (auto simp: takeWhile_append dropWhile_append)
  ultimately show ?thesis by (simp add: next_key_def)
qed

text \<open>The id of a key, and the token a key that is no field stands for.\<close>

definition find_KeyId :: "string \<Rightarrow> KeyId" where
  "find_KeyId key = (case omap_find InitKeyMap key of Some k \<Rightarrow> k | None \<Rightarrow> UnknownKey)"

definition other_key_token :: "'f StdVocabulary \<Rightarrow> string \<Rightarrow> int" where
  "other_key_token vocab key =
     (if length key > 1 \<and> hd key = CHR ''#'' then atoi (c_str (tl key)) else StrToId vocab key)"

text \<open>The largest valid token id, and the test the builders make before they accept a token.\<close>

definition max_token_id :: "'f TransformerModel \<Rightarrow> int option \<Rightarrow> int" where
  "max_token_id tm embd_rows =
     (let m = Vocab_Size (tm_vocabulary tm) - 1
      in case embd_rows of None \<Rightarrow> m | Some r \<Rightarrow> max (r - 1) m)"

definition valid_token :: "'f TransformerModel \<Rightarrow> int option \<Rightarrow> int \<Rightarrow> bool" where
  "valid_token tm embd_rows token_id \<longleftrightarrow> \<not> (token_id < 0 \<or> token_id > max_token_id tm embd_rows)"

section \<open>The encoder input\<close>

text \<open>
  The switch over the key: \<open>Inl\<close> the text it appends, \<open>Inr\<close> the token it stands for. For the
  keys of the user and the assistant token the source computes the token but does not mark the
  key as a token, so they behave as empty text.
\<close>

definition encoder_key :: "'f TransformerModel \<Rightarrow> LlmQuery \<Rightarrow> string \<Rightarrow> string + int" where
  "encoder_key tm query key =
     (case find_KeyId key of
        SystemPrompt \<Rightarrow> Inl (ToUtf8 (lq_system_prompt query))
      | QueryText \<Rightarrow> Inl (ToUtf8 (lq_text query))
      | QueryTextWithPreSpace \<Rightarrow> Inl ('' '' @ ToUtf8 (lq_text query))
      | ResPrefix \<Rightarrow> Inl (ToUtf8 (lq_response_prefix query))
      | Bos \<Rightarrow> Inr (bos_id (tm_vocabulary tm))
      | Eos \<Rightarrow> Inr (eos_id (tm_vocabulary tm))
      | UserToken \<Rightarrow> Inl []
      | AssistantToken \<Rightarrow> Inl []
      | _ \<Rightarrow> Inr (other_key_token (tm_vocabulary tm) key))"

text \<open>Appending text: the strings of the tokens collected so far are repeated behind it.\<close>

definition push_text :: "string \<Rightarrow> string \<Rightarrow> EncoderInput \<Rightarrow> EncoderInput" where
  "push_text s suffix_str obj = obj\<lparr>ei_core_text := ei_core_text obj @ s @ suffix_str, ei_suffix_tokens := []\<rparr>"

function BuildEncoderInput_loop :: "'f TransformerModel \<Rightarrow> LlmQuery \<Rightarrow> string \<Rightarrow> string \<Rightarrow> EncoderInput
    \<Rightarrow> EncoderInput" where
  "BuildEncoderInput_loop tm query rest suffix_str obj =
     (if rest = [] then obj
      else case next_key rest of
        None \<Rightarrow> push_text rest suffix_str obj
      | Some (before, key, rest') \<Rightarrow>
          let obj1 = (if before \<noteq> [] then push_text before suffix_str obj else obj);
              is_prefix = (ei_core_text obj1 = [])
          in case encoder_key tm query key of
               Inl s \<Rightarrow> BuildEncoderInput_loop tm query rest' suffix_str (push_text s suffix_str obj1)
             | Inr token_id \<Rightarrow>
                 if \<not> valid_token tm (tm_encoder_embeddings_rows tm) token_id
                 then BuildEncoderInput_loop tm query rest' suffix_str obj1
                 else if is_prefix
                 then BuildEncoderInput_loop tm query rest' suffix_str
                   (obj1\<lparr>ei_prefix_tokens := ei_prefix_tokens obj1 @ [token_id]\<rparr>)
                 else BuildEncoderInput_loop tm query rest' (suffix_str @ key)
                   (obj1\<lparr>ei_suffix_tokens := ei_suffix_tokens obj1 @ [token_id]\<rparr>))"
  by pat_completeness auto
termination
  by (relation "measure (\<lambda>(tm, query, rest, suffix_str, obj). length rest)") (auto dest: next_key_shorter)

declare BuildEncoderInput_loop.simps [simp del]

definition BuildEncoderInput :: "'f TransformerModel \<Rightarrow> ModelSpec list \<Rightarrow> LlmQuery \<Rightarrow> EncoderInput" where
  "BuildEncoderInput tm models query =
     (let obj = \<lparr>ei_prefix_tokens = [], ei_core_text = [], ei_suffix_tokens = []\<rparr>
      in if hp_encoder_layers (ms_hyper_params (tm_spec tm)) \<le> 0 then obj
         else
           let template_str = (if lq_encoder_input_template query \<noteq> []
                 then ToUtf8 (lq_encoder_input_template query)
                 else GetEncoderInputTemplate tm models [])
           in BuildEncoderInput_loop tm query template_str [] obj)"

section \<open>The decoder prefix\<close>

definition decoder_key :: "'f TransformerModel \<Rightarrow> LlmQuery \<Rightarrow> string \<Rightarrow> string + int" where
  "decoder_key tm query key =
     (case find_KeyId key of
        SystemPrompt \<Rightarrow> Inl (ToUtf8 (lq_system_prompt query))
      | QueryText \<Rightarrow> Inl (ToUtf8 (lq_text query))
      | QueryTextWithPreSpace \<Rightarrow> Inl ('' '' @ ToUtf8 (lq_text query))
      | CodePrefix \<Rightarrow> Inl (ToUtf8 (lq_code_prefix query))
      | CodeSuffix \<Rightarrow> Inl (ToUtf8 (lq_code_suffix query))
      | CodeLanguage \<Rightarrow> Inl (ToUtf8 (lq_code_language query))
      | CodeFilePath \<Rightarrow> Inl (ToUtf8 (lq_code_file_path query))
      | Bos \<Rightarrow> Inr (bos_id (tm_vocabulary tm))
      | Eos \<Rightarrow> Inr (eos_id (tm_vocabulary tm))
      | UserToken \<Rightarrow> Inr (tm_user_token_id tm)
      | AssistantToken \<Rightarrow> Inr (tm_assistant_token_id tm)
      | _ \<Rightarrow> Inr (other_key_token (tm_vocabulary tm) key))"

definition flush_text :: "string \<Rightarrow> DecoderPrefixSection list \<Rightarrow> DecoderPrefixSection list" where
  "flush_text section_text sections =
     (if section_text \<noteq> [] then sections @ [text_section section_text] else sections)"

function BuildDecoderInput_loop :: "'f TransformerModel \<Rightarrow> LlmQuery \<Rightarrow> string \<Rightarrow> string
    \<Rightarrow> DecoderPrefixSection list \<Rightarrow> DecoderPrefixSection list" where
  "BuildDecoderInput_loop tm query rest section_text sections =
     (if rest = [] then flush_text section_text sections
      else case next_key rest of
        None \<Rightarrow> flush_text (section_text @ rest) sections
      | Some (before, key, rest') \<Rightarrow>
          if find_KeyId key = ResPrefix then flush_text (section_text @ before) sections
          else case decoder_key tm query key of
            Inl s \<Rightarrow> BuildDecoderInput_loop tm query rest' (section_text @ before @ s) sections
          | Inr token_id \<Rightarrow>
              let sections1 = flush_text (section_text @ before) sections
              in if \<not> valid_token tm (tm_decoder_embeddings_rows tm) token_id
                 then BuildDecoderInput_loop tm query rest' [] sections1
                 else BuildDecoderInput_loop tm query rest' [] (sections1 @ [token_section token_id key]))"
  by pat_completeness auto
termination
  by (relation "measure (\<lambda>(tm, query, rest, section_text, sections). length rest)") (auto dest: next_key_shorter)

declare BuildDecoderInput_loop.simps [simp del]

definition decoder_template :: "'f TransformerModel \<Rightarrow> ModelSpec list \<Rightarrow> LlmQuery \<Rightarrow> string" where
  "decoder_template tm models query =
     (if lq_decoder_input_template query \<noteq> [] then ToUtf8 (lq_decoder_input_template query)
      else GetPromptTemplate tm models [])"

definition BuildDecoderInput :: "'f TransformerModel \<Rightarrow> ModelSpec list \<Rightarrow> LlmQuery \<Rightarrow> DecoderPrefix" where
  "BuildDecoderInput tm models query =
     (if hp_decoder_layers (ms_hyper_params (tm_spec tm)) \<le> 0
      then \<lparr>dp_sections = [], dp_res_prefix = []\<rparr>
      else \<lparr>dp_sections = BuildDecoderInput_loop tm query (decoder_template tm models query) [] [],
            dp_res_prefix = ToUtf8 (lq_response_prefix query)\<rparr>)"

section \<open>What the decoder prefix spells\<close>

text \<open>
  A template as a list of pieces: texts without an opening brace and keys without a closing one,
  and behind them a tail in which no key is closed. Every template is of this form.
\<close>

datatype piece = Lit string | Key string

fun piece_source :: "piece \<Rightarrow> string" where
  "piece_source (Lit s) = s"
| "piece_source (Key k) = ''{'' @ k @ ''}''"

fun piece_clean :: "piece \<Rightarrow> bool" where
  "piece_clean (Lit s) \<longleftrightarrow> CHR ''{'' \<notin> set s"
| "piece_clean (Key k) \<longleftrightarrow> CHR ''}'' \<notin> set k"

definition splits_into :: "string \<Rightarrow> piece list \<Rightarrow> string \<Rightarrow> bool" where
  "splits_into s ps rest \<longleftrightarrow> s = concat (map piece_source ps) @ rest \<and> list_all piece_clean ps
     \<and> (\<forall>a b. rest = a @ ''{'' @ b \<longrightarrow> CHR ''}'' \<notin> set b)"

text \<open>
  What the keys stand for, as a table from the names the templates use: the texts of the query,
  the tokens with a name, and for the other keys a number behind \<open>#\<close> or an entry of the
  vocabulary. Token ids are those of the vocabulary and of the rows of the embedding table.
\<close>

definition field_texts :: "LlmQuery \<Rightarrow> (string \<times> string) list" where
  "field_texts query =
     [(''system_prompt'', ToUtf8 (lq_system_prompt query)),
      (''query'', ToUtf8 (lq_text query)), (''question'', ToUtf8 (lq_text query)),
      (''_query'', '' '' @ ToUtf8 (lq_text query)), (''_question'', '' '' @ ToUtf8 (lq_text query)),
      (''code_prefix'', ToUtf8 (lq_code_prefix query)), (''code_suffix'', ToUtf8 (lq_code_suffix query)),
      (''code_language'', ToUtf8 (lq_code_language query)), (''code_file_path'', ToUtf8 (lq_code_file_path query))]"

definition key_token :: "'f TransformerModel \<Rightarrow> string \<Rightarrow> int" where
  "key_token tm key =
     (case map_of [(''bos'', bos_id (tm_vocabulary tm)), (''eos'', eos_id (tm_vocabulary tm)),
         (''user_token'', tm_user_token_id tm), (''assistant_token'', tm_assistant_token_id tm)] key of
        Some i \<Rightarrow> i
      | None \<Rightarrow> if \<exists>n. n \<noteq> [] \<and> key = CHR ''#'' # n then atoi (c_str (tl key)) else StrToId (tm_vocabulary tm) key)"

definition id_in_range :: "'f StdVocabulary \<Rightarrow> int option \<Rightarrow> int \<Rightarrow> bool" where
  "id_in_range vocab rows i \<longleftrightarrow>
     0 \<le> i \<and> (i < int (length (token_array vocab)) \<or> (\<exists>r. rows = Some r \<and> i < r))"

fun piece_tokens :: "'f TransformerModel \<Rightarrow> LlmQuery \<Rightarrow> piece \<Rightarrow> (string \<times> int) list" where
  "piece_tokens tm query (Lit s) = []"
| "piece_tokens tm query (Key k) =
     (if map_of (field_texts query) k = None \<and> id_in_range (tm_vocabulary tm) (tm_decoder_embeddings_rows tm) (key_token tm k)
      then [(k, key_token tm k)] else [])"

fun piece_text :: "'f TransformerModel \<Rightarrow> LlmQuery \<Rightarrow> piece \<Rightarrow> string" where
  "piece_text tm query (Lit s) = s"
| "piece_text tm query (Key k) =
     (case map_of (field_texts query) k of
        Some s \<Rightarrow> s
      | None \<Rightarrow> if piece_tokens tm query (Key k) \<noteq> [] then ''{'' @ k @ ''}'' else [])"

definition section_str :: "DecoderPrefixSection \<Rightarrow> string" where
  "section_str sec = (if sec_is_text sec then sec_text sec else ''{'' @ sec_text sec @ ''}'')"

definition section_tokens :: "DecoderPrefixSection list \<Rightarrow> (string \<times> int) list" where
  "section_tokens secs = map (\<lambda>sec. (sec_text sec, sec_token_id sec)) (filter (\<lambda>sec. \<not> sec_is_text sec) secs)"

lemma valid_token_range: "valid_token tm rows i \<longleftrightarrow> id_in_range (tm_vocabulary tm) rows i"
  by (auto simp: valid_token_def max_token_id_def id_in_range_def Vocab_Size_def Let_def split: option.splits)

lemma find_KeyId_ResPrefix: "find_KeyId k = ResPrefix \<longleftrightarrow> k \<in> {''res_prefix'', ''answer''}"
  by (simp add: find_KeyId_def InitKeyMap_def omap_find_of)

lemma other_key_token_def2:
  "other_key_token vocab k = (if \<exists>n. n \<noteq> [] \<and> k = CHR ''#'' # n then atoi (c_str (tl k)) else StrToId vocab k)"
  by (cases k) (auto simp: other_key_token_def)

lemma decoder_key_tables:
  assumes "k \<notin> {''res_prefix'', ''answer''}"
  shows "decoder_key tm query k =
    (case map_of (field_texts query) k of Some s \<Rightarrow> Inl s | None \<Rightarrow> Inr (key_token tm k))"
proof (cases "k \<in> set [''system_prompt'', ''question'', ''query'', ''_question'', ''_query'', ''bos'', ''eos'',
    ''user_token'', ''assistant_token'', ''code_prefix'', ''code_suffix'', ''code_language'', ''code_file_path'']")
  case True
  then show ?thesis unfolding list.set insert_iff empty_iff
    by (elim disjE)
      (simp_all add: decoder_key_def find_KeyId_def InitKeyMap_def omap_find_of field_texts_def key_token_def)
next
  case False
  then have "find_KeyId k = UnknownKey" "map_of (field_texts query) k = None"
    "key_token tm k = other_key_token (tm_vocabulary tm) k"
    using assms by (simp_all add: find_KeyId_def InitKeyMap_def omap_find_of field_texts_def key_token_def other_key_token_def2)
  then show ?thesis by (simp add: decoder_key_def)
qed

lemma next_key_append: "CHR ''{'' \<notin> set a \<Longrightarrow> next_key (a @ s) = map_option (\<lambda>(b, k, r). (a @ b, k, r)) (next_key s)"
  by (auto simp: next_key_def Let_def takeWhile_append dropWhile_append)

lemma decoder_loop_lit:
  assumes "CHR ''{'' \<notin> set a"
  shows "BuildDecoderInput_loop tm query (a @ s) st secs = BuildDecoderInput_loop tm query s (st @ a) secs"
proof (cases "s = []")
  case True
  have "next_key a = None" using assms by (auto simp: next_key_def Let_def)
  then show ?thesis by (simp add: True BuildDecoderInput_loop.simps)
next
  case False
  then show ?thesis
    by (simp add: BuildDecoderInput_loop.simps [of tm query "a @ s"] BuildDecoderInput_loop.simps [of tm query s]
        next_key_append [OF assms] split: option.split sum.split)
qed

definition is_res_prefix :: "piece \<Rightarrow> bool" where
  "is_res_prefix p \<longleftrightarrow> p \<in> {Key ''res_prefix'', Key ''answer''}"

lemma flush_text_str [simp]:
  "concat (map section_str (flush_text s secs)) = concat (map section_str secs) @ s"
  by (simp add: flush_text_def text_section_def section_str_def)

lemma flush_text_tokens [simp]: "section_tokens (flush_text s secs) = section_tokens secs"
  by (simp add: flush_text_def text_section_def section_tokens_def)

lemma decoder_loop_tail:
  assumes "\<forall>a b. rest = a @ ''{'' @ b \<longrightarrow> CHR ''}'' \<notin> set b"
  shows "BuildDecoderInput_loop tm query rest st secs = flush_text (st @ rest) secs"
proof -
  have "next_key rest = None"
  proof (rule ccontr)
    assume "next_key rest \<noteq> None"
    then obtain b k r where "next_key rest = Some (b, k, r)" by auto
    then have "rest = b @ ''{'' @ k @ ''}'' @ r" by (rule next_key_Some(1))
    then show False using assms [rule_format, of b "k @ ''}'' @ r"] by simp
  qed
  then show ?thesis by (simp add: BuildDecoderInput_loop.simps)
qed

lemma decoder_loop_key:
  assumes "CHR ''}'' \<notin> set k"
  shows "BuildDecoderInput_loop tm query (''{'' @ k @ ''}'' @ s) st secs =
    (if is_res_prefix (Key k) then flush_text st secs
     else case map_of (field_texts query) k of
       Some x \<Rightarrow> BuildDecoderInput_loop tm query s (st @ x) secs
     | None \<Rightarrow> BuildDecoderInput_loop tm query s []
         (flush_text st secs @ map (\<lambda>(k, i). token_section i k) (piece_tokens tm query (Key k))))"
proof -
  have key: "next_key (CHR ''{'' # k @ CHR ''}'' # s) = Some ([], k, s)" using next_key_exact [of "[]" k s] assms by simp
  have res: "find_KeyId k = ResPrefix \<longleftrightarrow> is_res_prefix (Key k)" by (simp add: find_KeyId_ResPrefix is_res_prefix_def)
  show ?thesis
  proof (cases "is_res_prefix (Key k)")
    case True
    then show ?thesis by (subst BuildDecoderInput_loop.simps) (simp add: key res)
  next
    case False
    then have "decoder_key tm query k = (case map_of (field_texts query) k of Some s \<Rightarrow> Inl s | None \<Rightarrow> Inr (key_token tm k))"
      by (intro decoder_key_tables) (simp add: is_res_prefix_def)
    with False show ?thesis
      by (subst BuildDecoderInput_loop.simps) (simp add: key res valid_token_range Let_def split: option.split)
  qed
qed

lemma decoder_loop_spells:
  assumes "splits_into s ps rest"
  shows "concat (map section_str (BuildDecoderInput_loop tm query s st secs)) = concat (map section_str secs) @ st
        @ concat (map (piece_text tm query) (takeWhile (\<lambda>p. \<not> is_res_prefix p) ps))
        @ (if list_ex is_res_prefix ps then [] else rest)
    \<and> section_tokens (BuildDecoderInput_loop tm query s st secs) = section_tokens secs
        @ concat (map (piece_tokens tm query) (takeWhile (\<lambda>p. \<not> is_res_prefix p) ps))"
  using assms(1)
proof (induction ps arbitrary: s st secs)
  case Nil
  then have "s = rest" "\<forall>a b. rest = a @ ''{'' @ b \<longrightarrow> CHR ''}'' \<notin> set b" by (simp_all add: splits_into_def)
  then show ?case using decoder_loop_tail [of rest tm query st secs] by simp
next
  case (Cons p ps)
  from Cons.prems obtain s' where s': "s = piece_source p @ s'" "splits_into s' ps rest" "piece_clean p"
    by (auto simp: splits_into_def)
  note IH = Cons.IH [OF s'(2)]
  show ?case
  proof (cases p)
    case (Lit a)
    then show ?thesis using s' IH [of "st @ a" secs] by (simp add: decoder_loop_lit is_res_prefix_def)
  next
    case (Key k)
    have tok: "concat (map section_str (map (\<lambda>(k, i). token_section i k) (piece_tokens tm query (Key k))))
        = (if piece_tokens tm query (Key k) \<noteq> [] then ''{'' @ k @ ''}'' else [])"
      "section_tokens (xs @ map (\<lambda>(k, i). token_section i k) (piece_tokens tm query (Key k)))
        = section_tokens xs @ piece_tokens tm query (Key k)" for xs
      by (simp_all add: section_str_def section_tokens_def token_section_def)
    have loop: "BuildDecoderInput_loop tm query s st secs = BuildDecoderInput_loop tm query (''{'' @ k @ ''}'' @ s') st secs"
      using s'(1) Key by simp
    have k: "CHR ''}'' \<notin> set k" using s'(3) Key by simp
    show ?thesis
    proof (cases "map_of (field_texts query) k")
      case None
      then show ?thesis
        using IH [of "[]" "flush_text st secs @ map (\<lambda>(k, i). token_section i k) (piece_tokens tm query (Key k))"] tok
        unfolding loop decoder_loop_key [OF k] by (simp add: Key del: piece_tokens.simps)
    next
      case (Some x)
      then show ?thesis using IH [of "st @ x" secs] unfolding loop decoder_loop_key [OF k] by (simp add: Key)
    qed
  qed
qed

lemma decoder_loop_texts:
  "list_all (\<lambda>sec. sec_is_text sec \<longrightarrow> sec_text sec \<noteq> []) secs \<Longrightarrow>
   list_all (\<lambda>sec. sec_is_text sec \<longrightarrow> sec_text sec \<noteq> []) (BuildDecoderInput_loop tm query rest st secs)"
proof (induction tm query rest st secs rule: BuildDecoderInput_loop.induct)
  case (1 tm query rest st secs)
  have flush: "list_all (\<lambda>sec. sec_is_text sec \<longrightarrow> sec_text sec \<noteq> []) (flush_text x secs)" for x
    using "1.prems" by (simp add: flush_text_def text_section_def)
  show ?case
  proof (cases "rest = [] \<or> next_key rest = None")
    case True
    then show ?thesis using flush by (auto simp: BuildDecoderInput_loop.simps [of tm query rest])
  next
    case False
    then obtain b k r where p: "rest \<noteq> []" "next_key rest = Some (b, k, r)" by auto
    show ?thesis
      using "1.IH" [OF p refl refl] "1.prems" flush p
      by (subst BuildDecoderInput_loop.simps) (auto simp: token_section_def Let_def split: sum.split)
  qed
qed

lemma every_template_splits: "\<exists>ps rest. splits_into s ps rest"
proof (induction s rule: length_induct)
  case (1 s)
  show ?case
  proof (cases "next_key s")
    case None
    have "CHR ''}'' \<notin> set b" if s: "s = a @ ''{'' @ b" for a b
    proof -
      let ?x = "dropWhile (\<lambda>c. c \<noteq> CHR ''{'') a"
      have "dropWhile (\<lambda>c. c \<noteq> CHR ''{'') s = ?x @ ''{'' @ b"
        unfolding s by (simp add: dropWhile_append3)
      moreover have "set b \<subseteq> set (tl (x @ ''{'' @ b))" for x by (cases x) auto
      ultimately have "set b \<subseteq> set (tl (dropWhile (\<lambda>c. c \<noteq> CHR ''{'') s))" "dropWhile (\<lambda>c. c \<noteq> CHR ''{'') s \<noteq> []"
        by simp_all
      then show ?thesis using None by (simp add: next_key_def Let_def split: if_splits) blast+
    qed
    then have "splits_into s [] s" by (simp add: splits_into_def)
    then show ?thesis by blast
  next
    case (Some p)
    then obtain b k r where s: "next_key s = Some (b, k, r)" by (metis surj_pair)
    note parts = next_key_Some [OF s]
    from 1 next_key_shorter [OF s] obtain ps rest where "splits_into r ps rest" by blast
    then have "splits_into s (Lit b # Key k # ps) rest" using parts by (simp add: splits_into_def)
    then show ?thesis by blast
  qed
qed

text \<open>
  C28. The decoder prefix of a query spells its template (the one of the query, or else the one of
  the model) up to the key of the response prefix: every field key is replaced by its text, a token
  key with a token id in range is kept as a token section with this id, the other keys are left
  out, and behind the last key the text is copied. No text section is empty. An id is in range
  when it is below the size of the vocabulary or the number of rows of the embedding table.
\<close>

theorem BuildDecoderInput_spells:
  assumes "hp_decoder_layers (ms_hyper_params (tm_spec tm)) > 0"
    and "splits_into (if lq_decoder_input_template query \<noteq> [] then ToUtf8 (lq_decoder_input_template query)
      else ms_decoder_input_template (tm_spec tm)) ps rest"
    and "secs = dp_sections (BuildDecoderInput tm models query)"
    and "kept = takeWhile (\<lambda>p. p \<noteq> Key ''res_prefix'' \<and> p \<noteq> Key ''answer'') ps"
  shows "concat (map section_str secs) = concat (map (piece_text tm query) kept) @ (if kept = ps then rest else [])
    \<and> section_tokens secs = concat (map (piece_tokens tm query) kept)
    \<and> list_all (\<lambda>sec. sec_is_text sec \<longrightarrow> sec_text sec \<noteq> []) secs
    \<and> dp_res_prefix (BuildDecoderInput tm models query) = ToUtf8 (lq_response_prefix query)"
proof -
  have secs: "secs = BuildDecoderInput_loop tm query (if lq_decoder_input_template query \<noteq> []
      then ToUtf8 (lq_decoder_input_template query) else ms_decoder_input_template (tm_spec tm)) [] []"
    using assms(1,3) by (simp add: BuildDecoderInput_def decoder_template_def GetPromptTemplate_def)
  have kept: "kept = takeWhile (\<lambda>p. \<not> is_res_prefix p) ps" by (simp add: assms(4) is_res_prefix_def)
  have "kept = ps \<longleftrightarrow> \<not> list_ex is_res_prefix ps"
    unfolding kept takeWhile_eq_all_conv by (auto simp: list_ex_iff)
  then show ?thesis
    using decoder_loop_spells [OF assms(2), of tm query "[]" "[]"] decoder_loop_texts [of "[]" tm query _ "[]"] assms(1)
    unfolding secs kept by (simp add: section_tokens_def [of "[]"] BuildDecoderInput_def)
qed

definition keyed_model :: "int TransformerModel" where
  "keyed_model = \<lparr>tm_spec = default_ModelSpec\<lparr>ms_hyper_params := default_hparams\<lparr>hp_decoder_layers := 1\<rparr>,
       ms_decoder_input_template := ''a{query}{#1}{#3}{answer}{z''\<rparr>,
     tm_vocabulary = tiny_vocab, tm_output_vocabulary = tiny_vocab, tm_user_token_id = -1,
     tm_assistant_token_id = -1, tm_encoder_embeddings_rows = None, tm_decoder_embeddings_rows = Some 2\<rparr>"

definition x_query :: LlmQuery where
  "x_query = \<lparr>lq_system_prompt = [], lq_text = [0x78], lq_response_prefix = [], lq_encoder_input_template = [],
     lq_decoder_input_template = [], lq_code_prefix = [], lq_code_suffix = [], lq_code_language = [],
     lq_code_file_path = []\<rparr>"

theorem BuildDecoderInput_spells_witness:
  "concat (map section_str (dp_sections (BuildDecoderInput keyed_model [] x_query))) = ''ax{#1}''
   \<and> section_tokens (dp_sections (BuildDecoderInput keyed_model [] x_query)) = [(''#1'', 1)]"
proof -
  let ?ps = "[Lit ''a'', Key ''query'', Key ''#1'', Key ''#3'', Key ''answer'']"
  have size3: "length (token_array tiny_vocab) = 3" by (simp add: tiny_vocab_def)
  have toks: "key_token keyed_model ''#1'' = 1" "key_token keyed_model ''#3'' = 3"
    by (simp_all add: key_token_def c_str_def atoi_def is_space_def is_digit_def digits_value_def)
  have range: "id_in_range tiny_vocab (Some 2) 1" "\<not> id_in_range tiny_vocab (Some 2) 3"
    by (simp_all add: id_in_range_def size3)
  have "char_of (120 :: nat) = CHR ''x''" by code_simp
  then have x: "ToUtf8 [0x78] = ''x''" by (simp add: ToUtf8_def Ucs2ToUtf8_char_def Let_def)
  have fields: "map_of (field_texts x_query) ''query'' = Some ''x''" "map_of (field_texts x_query) ''#1'' = None"
    "map_of (field_texts x_query) ''#3'' = None"
    by (simp_all add: field_texts_def x_query_def x)
  have vocab: "tm_vocabulary keyed_model = tiny_vocab" "tm_decoder_embeddings_rows keyed_model = Some 2"
    "hp_decoder_layers (ms_hyper_params (tm_spec keyed_model)) > 0"
    by (simp_all add: keyed_model_def default_ModelSpec_def)
  have split: "splits_into (if lq_decoder_input_template x_query \<noteq> [] then ToUtf8 (lq_decoder_input_template x_query)
      else ms_decoder_input_template (tm_spec keyed_model)) ?ps ''{z''"
    by (auto simp: splits_into_def keyed_model_def x_query_def append_eq_Cons_conv Cons_eq_append_conv)
  have kept: "take 4 ?ps = takeWhile (\<lambda>p. p \<noteq> Key ''res_prefix'' \<and> p \<noteq> Key ''answer'') ?ps" by simp
  have tokens: "piece_tokens keyed_model x_query (Key ''query'') = []" "piece_tokens keyed_model x_query (Key ''#1'') = [(''#1'', 1)]"
    "piece_tokens keyed_model x_query (Key ''#3'') = []"
    by (simp_all add: vocab toks fields range)
  have texts: "concat (map (piece_text keyed_model x_query) (take 4 ?ps)) = ''ax{#1}''"
    "concat (map (piece_tokens keyed_model x_query) (take 4 ?ps)) = [(''#1'', 1)]"
    by (simp_all add: tokens fields del: piece_tokens.simps(2))
  have "take 4 ?ps \<noteq> ?ps" by simp
  then show ?thesis
    using BuildDecoderInput_spells [OF vocab(3) split refl kept, of "[]"] unfolding texts by simp
qed

section \<open>The shape of the encoder input\<close>

definition encoder_ok :: "'f TransformerModel \<Rightarrow> EncoderInput \<Rightarrow> bool" where
  "encoder_ok tm obj \<longleftrightarrow>
     list_all (valid_token tm (tm_encoder_embeddings_rows tm)) (ei_prefix_tokens obj @ ei_suffix_tokens obj)
     \<and> (ei_core_text obj = [] \<longrightarrow> ei_suffix_tokens obj = [])"

lemma encoder_ok_push_text [simp]: "encoder_ok tm obj \<Longrightarrow> encoder_ok tm (push_text s t obj)"
  by (auto simp: encoder_ok_def push_text_def)

lemma encoder_loop_ok:
  "encoder_ok tm obj \<Longrightarrow> encoder_ok tm (BuildEncoderInput_loop tm query rest suffix_str obj)"
proof (induction tm query rest suffix_str obj rule: BuildEncoderInput_loop.induct)
  case (1 tm query rest suffix_str obj)
  show ?case
  proof (cases "rest = [] \<or> next_key rest = None")
    case True
    then show ?thesis using "1.prems" by (auto simp: BuildEncoderInput_loop.simps [of tm query rest])
  next
    case False
    then obtain b k r where p: "rest \<noteq> []" "next_key rest = Some (b, k, r)" by auto
    let ?obj = "if b \<noteq> [] then push_text b suffix_str obj else obj"
    have ok: "encoder_ok tm ?obj" using "1.prems" by simp
    show ?thesis
    proof (cases "encoder_key tm query k")
      case (Inl s)
      have "encoder_ok tm (BuildEncoderInput_loop tm query r suffix_str (push_text s suffix_str ?obj))"
        by (rule "1.IH"(1) [OF p refl refl refl refl Inl]) (rule encoder_ok_push_text [OF ok])
      then show ?thesis using p Inl by (simp add: BuildEncoderInput_loop.simps [of tm query rest])
    next
      case (Inr i)
      note IH = "1.IH"(2-4) [OF p refl refl refl refl Inr]
      show ?thesis using p Inr ok IH
        by (subst BuildEncoderInput_loop.simps) (auto simp: Let_def encoder_ok_def)
    qed
  qed
qed

text \<open>
  C31. Every token of the encoder input, before or behind the text, is an id that is not negative
  and below the size of the vocabulary or below the number of rows of the embedding table (the
  larger of the two bounds), and tokens are placed behind the text only when there is text.
\<close>

theorem BuildEncoderInput_tokens_valid:
  "list_all (\<lambda>i. 0 \<le> i \<and> (i < int (length (token_array (tm_vocabulary tm))) \<or> (case tm_encoder_embeddings_rows tm of
        None \<Rightarrow> False | Some rows \<Rightarrow> i < rows)))
     (ei_prefix_tokens (BuildEncoderInput tm models query) @ ei_suffix_tokens (BuildEncoderInput tm models query))
   \<and> (if ei_core_text (BuildEncoderInput tm models query) = []
      then ei_suffix_tokens (BuildEncoderInput tm models query) = [] else True)"
proof -
  have "valid_token tm rows = (\<lambda>i. 0 \<le> i \<and> (i < int (length (token_array (tm_vocabulary tm))) \<or> (case rows of
      None \<Rightarrow> False | Some rows \<Rightarrow> i < rows)))" for rows
    by (rule ext) (auto simp: valid_token_range id_in_range_def split: option.split)
  moreover have "encoder_ok tm (BuildEncoderInput tm models query)"
    by (auto simp: BuildEncoderInput_def Let_def intro!: encoder_loop_ok) (simp_all add: encoder_ok_def)
  ultimately show ?thesis by (simp add: encoder_ok_def)
qed

text \<open>
  In the encoder input, the names of token keys that are followed by more text are put into
  the text behind that text instead of before it, and again behind every later text.
\<close>

lemma BuildEncoderInput_repeats_keys:
  "ei_core_text (BuildEncoderInput
      \<lparr>tm_spec = default_ModelSpec\<lparr>ms_hyper_params := default_hparams\<lparr>hp_encoder_layers := 1\<rparr>,
         ms_encoder_input_template := ''{query}{#0}a{#1}b''\<rparr>,
       tm_vocabulary = tiny_vocab, tm_output_vocabulary = tiny_vocab, tm_user_token_id = -1,
       tm_assistant_token_id = -1, tm_encoder_embeddings_rows = None, tm_decoder_embeddings_rows = None\<rparr>
      [] \<lparr>lq_system_prompt = [], lq_text = [0x78], lq_response_prefix = [], lq_encoder_input_template = [],
        lq_decoder_input_template = [], lq_code_prefix = [], lq_code_suffix = [], lq_code_language = [],
        lq_code_file_path = []\<rparr>)
    = ''xa#0b#0#1''"
proof -
  have keys: "find_KeyId ''query'' = QueryText" "find_KeyId ''#0'' = UnknownKey" "find_KeyId ''#1'' = UnknownKey"
    by (simp_all add: find_KeyId_def InitKeyMap_def omap_find_of)
  have toks: "other_key_token tiny_vocab ''#0'' = 0" "other_key_token tiny_vocab ''#1'' = 1"
    by (simp_all add: other_key_token_def c_str_def atoi_def is_space_def is_digit_def digits_value_def)
  have x: "char_of (120 :: nat) = CHR ''x''" by code_simp
  have size3: "Vocab_Size tiny_vocab = 3" by (simp add: Vocab_Size_def tiny_vocab_def)
  show ?thesis
    by (simp add: BuildEncoderInput_def GetEncoderInputTemplate_def default_ModelSpec_def default_hparams_def
        BuildEncoderInput_loop.simps next_key_def encoder_key_def keys toks push_text_def valid_token_def
        max_token_id_def size3 ToUtf8_def Ucs2ToUtf8_char_def Let_def x)
qed

section \<open>Tokenisation with role markers\<close>

definition user_key :: string where "user_key = ''{user_token}''"

definition assistant_key :: string where "assistant_key = ''{assistant_token}''"

text \<open>The next marker: its position, and whether it is the one of the user.\<close>

definition next_marker :: "string \<Rightarrow> (nat \<times> bool) option" where
  "next_marker rest =
     (case (find_at user_key rest 0, find_at assistant_key rest 0) of
        (None, None) \<Rightarrow> None
      | (Some pos1, None) \<Rightarrow> Some (pos1, True)
      | (None, Some pos2) \<Rightarrow> Some (pos2, False)
      | (Some pos1, Some pos2) \<Rightarrow> if pos1 < pos2 then Some (pos1, True) else Some (pos2, False))"

definition marker_len :: "bool \<Rightarrow> nat" where
  "marker_len is_user = (if is_user then length user_key else length assistant_key)"

lemma marker_len_pos [simp]: "0 < marker_len b"
  by (simp add: marker_len_def user_key_def assistant_key_def)

function EngineTokenize_loop :: "(string \<Rightarrow> bool \<Rightarrow> int list option) \<Rightarrow> 'f TransformerModel \<Rightarrow> bool \<Rightarrow> string
    \<Rightarrow> bool \<Rightarrow> int list option" where
  "EngineTokenize_loop tokenize tm add_bos rest at_start =
     (if rest = [] then Some []
      else case next_marker rest of
        None \<Rightarrow> tokenize rest (add_bos \<and> at_start)
      | Some (pos, is_user) \<Rightarrow>
          let token_id = (if is_user then tm_user_token_id tm else tm_assistant_token_id tm)
          in case (if pos > 0 then tokenize (take pos rest) (add_bos \<and> at_start) else Some []) of
               None \<Rightarrow> None
             | Some temp_tokens \<Rightarrow>
                 map_option (\<lambda>more. temp_tokens @ (if token_id \<ge> 0 then [token_id] else []) @ more)
                   (EngineTokenize_loop tokenize tm add_bos (drop (pos + marker_len is_user) rest) False))"
  by pat_completeness auto
termination
  by (relation "measure (\<lambda>(tk, tm, b, rest, s). length rest)") auto

declare EngineTokenize_loop.simps [simp del]

text \<open>
  \<open>tt\<close> is the engine's tokenizer; \<open>pq_top\<close> and \<open>inv_score\<close> are the parameters of the byte pair
  encoding (the choice of the priority queue and the score of a merge rank).
\<close>

definition EngineTokenize :: "('f::linorder Bigram list \<Rightarrow> nat) \<Rightarrow> (int \<Rightarrow> 'f) \<Rightarrow> 'f TransformerModel \<Rightarrow> 'f TextTokenizer
    \<Rightarrow> string \<Rightarrow> bool \<Rightarrow> TokenizationAlg \<Rightarrow> int list option" where
  "EngineTokenize pq_top inv_score tm tt input_text add_bos alg =
     (let alg' = (if alg = TA_Auto then ms_tokenization_algorithm (tm_spec tm) else alg)
      in EngineTokenize_loop (\<lambda>s b. Tokenize pq_top inv_score tt s b alg') tm add_bos input_text True)"

text \<open>The text with every marker replaced, as one pass from left to right.\<close>

function replace_markers :: "string \<Rightarrow> string \<Rightarrow> string \<Rightarrow> string" where
  "replace_markers u a [] = []"
| "replace_markers u a (x # xs) =
     (if prefix user_key (x # xs) then u @ replace_markers u a (drop (length user_key) (x # xs))
      else if prefix assistant_key (x # xs) then a @ replace_markers u a (drop (length assistant_key) (x # xs))
      else x # replace_markers u a xs)"
  by pat_completeness auto
termination
  by (relation "measure (\<lambda>(u, a, s). length s)") (auto simp: user_key_def assistant_key_def)

lemma markers_exclusive: "\<not> (prefix user_key s \<and> prefix assistant_key s)"
  by (auto simp: prefix_def user_key_def assistant_key_def)

lemma next_marker_Cons:
  "next_marker (x # xs) =
     (if prefix user_key (x # xs) then Some (0, True)
      else if prefix assistant_key (x # xs) then Some (0, False)
      else map_option (map_prod Suc id) (next_marker xs))"
  using markers_exclusive [of "x # xs"]
  by (auto simp: next_marker_def find_at_shift [of _ xs "Suc 0"] split: option.splits)

lemma next_marker_Nil: "next_marker [] = None"
  by (simp add: next_marker_def user_key_def assistant_key_def)

lemma replace_markers_next:
  "replace_markers u a s = (case next_marker s of None \<Rightarrow> s
    | Some (pos, b) \<Rightarrow> take pos s @ (if b then u else a) @ replace_markers u a (drop (pos + marker_len b) s))"
proof (induction s)
  case Nil
  then show ?case by (simp add: next_marker_Nil)
next
  case (Cons x xs)
  show ?case
  proof (cases "prefix user_key (x # xs) \<or> prefix assistant_key (x # xs)")
    case True
    then show ?thesis by (auto simp: next_marker_Cons marker_len_def)
  next
    case False
    then show ?thesis using Cons.IH
      by (auto simp: next_marker_Cons split: option.splits)
  qed
qed

lemma next_marker_bound: "next_marker s = Some (pos, b) \<Longrightarrow> pos < length s"
  by (induction s arbitrary: pos) (auto simp: next_marker_Cons next_marker_Nil split: if_splits)

lemma tokenize_loop_decodes:
  assumes tok: "\<And>s. s \<noteq> [] \<Longrightarrow> sublist s rest \<Longrightarrow>
      \<exists>toks. tokenize s False = Some toks \<and> concat (map dec toks) = s"
    and neg: "\<And>i. i < 0 \<Longrightarrow> dec i = []"
  shows "\<exists>toks. EngineTokenize_loop tokenize tm False rest st = Some toks
    \<and> concat (map dec toks) = replace_markers (dec (tm_user_token_id tm)) (dec (tm_assistant_token_id tm)) rest"
  using tok
proof (induction "length rest" arbitrary: rest st rule: less_induct)
  case less
  show ?case
  proof (cases "next_marker rest")
    case None
    have "replace_markers u a rest = rest" for u a using None by (simp add: replace_markers_next)
    then show ?thesis using None less.prems [of rest]
      by (cases "rest = []") (simp_all add: EngineTokenize_loop.simps [of _ _ _ rest]
          EngineTokenize_loop.simps [of _ _ _ "[]"])
  next
    case (Some p)
    then obtain pos b where p: "next_marker rest = Some (pos, b)" by (metis surj_pair)
    let ?r = "drop (pos + marker_len b) rest"
    have ne: "rest \<noteq> []" and pos: "pos < length rest" using next_marker_bound [OF p] by auto
    have subs: "sublist ?r rest" "sublist (take pos rest) rest"
      by (simp_all add: suffix_drop suffix_imp_sublist take_is_prefix prefix_imp_sublist)
    have "length ?r < length rest" using ne by simp
    then obtain more where more: "EngineTokenize_loop tokenize tm False ?r False = Some more"
      "concat (map dec more) = replace_markers (dec (tm_user_token_id tm)) (dec (tm_assistant_token_id tm)) ?r"
      using less.hyps [of ?r False] less.prems sublist_order.order_trans [OF _ subs(1)] by blast
    obtain tmp where tmp: "(if pos > 0 then tokenize (take pos rest) False else Some []) = Some tmp"
      "concat (map dec tmp) = take pos rest"
    proof (cases "pos = 0")
      case False
      then show ?thesis using less.prems [OF _ subs(2)] ne that by auto
    qed (use that in auto)
    show ?thesis using p ne more tmp neg
      by (auto simp: EngineTokenize_loop.simps [of _ _ _ rest] replace_markers_next [of _ _ rest] Let_def)
  qed
qed

text \<open>
  C16. With an algorithm other than \<open>Auto\<close>, \<open>FMM\<close> and \<open>FMM2\<close>, tokenising a prompt with role
  markers and decoding the tokens gives the prompt back with every marker replaced by the string
  of its role token (nothing, where the model has none): the markers split the text, and no byte
  of it is lost. The conditions on the model: it has no pre-callbacks, every byte of the text has
  its byte token, and the vocabulary entries that occur in the text decode to themselves.
  (Forward maximum matching drops the bytes that no entry covers.)
\<close>

theorem EngineTokenize_roundtrip:
  assumes "ids_ok (tt_vocab tt)" and "\<And>q. q \<noteq> [] \<Longrightarrow> pq_top q < length q"
    and "tt_pre_callbacks tt = []" and "alg \<notin> {TA_Auto, TA_FMM, TA_FMM2}"
    and bytes: "\<And>c. c \<in> set tx \<Longrightarrow> IdToStr (tt_vocab tt) (of_char c + tt_byte_token_id_start tt) True = [c]"
    and entries: "\<And>s i. sublist s tx \<Longrightarrow> omap_find (str_to_id (tt_vocab tt)) s = Some i \<Longrightarrow>
      IdToStr (tt_vocab tt) i True = s"
  shows "\<exists>toks. EngineTokenize pq_top inv_score tm tt tx False alg = Some toks
    \<and> concat (map (\<lambda>i. IdToStr (tt_vocab tt) i True) toks)
      = replace_markers (IdToStr (tt_vocab tt) (tm_user_token_id tm) True)
          (IdToStr (tt_vocab tt) (tm_assistant_token_id tm) True) tx"
proof -
  have "\<exists>toks. Tokenize pq_top inv_score tt s False alg = Some toks
      \<and> concat (map (\<lambda>i. IdToStr (tt_vocab tt) i True) toks) = s" if "s \<noteq> []" "sublist s tx" for s
  proof (rule Tokenize_decodes)
    show "IdToStr (tt_vocab tt) (of_char c + tt_byte_token_id_start tt) True = [c]" if "c \<in> set s" for c
      using bytes that set_mono_sublist [OF \<open>sublist s tx\<close>] by blast
    show "IdToStr (tt_vocab tt) i True = v" if "sublist v s" "omap_find (str_to_id (tt_vocab tt)) v = Some i" for v i
      using entries that sublist_order.order_trans [OF _ \<open>sublist s tx\<close>] by blast
  qed (use assms that in auto)
  moreover have "IdToStr (tt_vocab tt) i True = []" if "i < 0" for i using that by (simp add: IdToStr_def)
  ultimately show ?thesis using assms(4)
      tokenize_loop_decodes [of tx "\<lambda>s b. Tokenize pq_top inv_score tt s b alg" "\<lambda>i. IdToStr (tt_vocab tt) i True" tm True]
    by (simp add: EngineTokenize_def)
qed

text \<open>A vocabulary of the byte tokens alone.\<close>

definition byte_vocab :: "int StdVocabulary" where
  "byte_vocab = new_StdVocabulary\<lparr>token_array := map (\<lambda>n. \<lparr>tk_id = int n, tk_str = byte_token (char_of n),
     tk_score = 0, tk_type = 0\<rparr>) [0..<256]\<rparr>"

definition byte_tokenizer :: "int TextTokenizer" where
  "byte_tokenizer = Tokenizer_Init new_NaiveTrie byte_vocab 0"

definition byte_model :: "int TransformerModel" where
  "byte_model = \<lparr>tm_spec = default_ModelSpec, tm_vocabulary = byte_vocab, tm_output_vocabulary = byte_vocab,
     tm_user_token_id = 85, tm_assistant_token_id = -1, tm_encoder_embeddings_rows = None,
     tm_decoder_embeddings_rows = None\<rparr>"

lemma byte_tokenizer_simps [simp]:
  "tt_vocab byte_tokenizer = byte_vocab" "tt_pre_callbacks byte_tokenizer = []"
  "tt_byte_token_id_start byte_tokenizer = 0" "str_to_id byte_vocab = []"
  by (simp_all add: byte_tokenizer_def Tokenizer_Init_def byte_vocab_def new_StdVocabulary_def)

lemma byte_vocab_dec: "IdToStr byte_vocab (of_char c) True = [c]"
proof (rule IdToStr_byte_token)
  have n: "(of_char c :: nat) < 256" by (rule nat_of_char_less_256)
  have i: "(of_char c :: int) = int (of_char c)" by (rule of_nat_of_char [symmetric])
  show "0 \<le> (of_char c :: int)" by (subst i) simp
  show "of_char c < int (length (token_array byte_vocab))" using n by (subst i) (simp add: byte_vocab_def)
  show "tk_str (token_array byte_vocab ! nat (of_char c)) = byte_token c"
    using n by (subst i) (simp add: byte_vocab_def del: upt_Suc)
qed

theorem EngineTokenize_roundtrip_witness:
  "\<exists>toks. EngineTokenize first_top uminus byte_model byte_tokenizer ''hi{user_token}x{assistant_token}'' False TA_BPE
      = Some toks
    \<and> concat (map (\<lambda>i. IdToStr (tt_vocab byte_tokenizer) i True) toks) = ''hiUx''"
proof -
  have U: "IdToStr byte_vocab 85 True = ''U''" using byte_vocab_dec [of "CHR ''U''"] by simp
  have A: "IdToStr byte_vocab (-1) True = []" by (simp add: IdToStr_def)
  have "replace_markers ''U'' [] ''hi{user_token}x{assistant_token}'' = ''hiUx''"
    by (simp add: user_key_def assistant_key_def)
  with EngineTokenize_roundtrip [of byte_tokenizer first_top TA_BPE "''hi{user_token}x{assistant_token}''" uminus byte_model]
  show ?thesis by (simp add: ids_ok_def first_top_less byte_vocab_dec byte_model_def U A)
qed

section \<open>The plain prompt\<close>

text \<open>
  \<open>BuildPrompt\<close> substitutes the keys one after the other. \<open>None\<close> stands for a substitution that
  does not return.
\<close>

definition replace_key :: "string \<Rightarrow> string \<Rightarrow> string \<Rightarrow> string option" where
  "replace_key key tgt s = (if str_find s key 0 \<noteq> None then ReplaceAll s key tgt else Some s)"

definition BuildPrompt :: "'f StdVocabulary \<Rightarrow> string \<Rightarrow> string \<Rightarrow> string \<Rightarrow> string \<Rightarrow> string option" where
  "BuildPrompt vocab prompt_template question answer_prefix system_prompt =
     (let pos1 = str_find prompt_template ''{query}'' 0; pos2 = str_find prompt_template ''{_query}'' 0
      in if pos1 \<noteq> None \<or> pos2 \<noteq> None then
           do {
             s1 \<leftarrow> if pos1 \<noteq> None then ReplaceAll prompt_template ''{query}'' question else Some prompt_template;
             s2 \<leftarrow> if pos2 \<noteq> None then ReplaceAll s1 ''{_query}'' ('' '' @ question) else Some s1;
             s3 \<leftarrow> replace_key ''{system_prompt}'' system_prompt s2;
             s4 \<leftarrow> if bos_id vocab \<ge> 0
                  then replace_key ''{bos}'' (IdToStr vocab (bos_id vocab) True) s3 else Some s3;
             let s5 = (case str_find s4 ''{res_prefix}'' 0 of None \<Rightarrow> s4 | Some pos \<Rightarrow> take pos s4);
             Some (s5 @ answer_prefix)
           }
         else Some (question @ answer_prefix))"

definition BuildPrompt_query :: "'f StdVocabulary \<Rightarrow> string \<Rightarrow> LlmQuery \<Rightarrow> string option" where
  "BuildPrompt_query vocab prompt_template query =
     BuildPrompt vocab prompt_template (ToUtf8 (lq_text query)) (ToUtf8 (lq_response_prefix query))
       (ToUtf8 (lq_system_prompt query))"

lemma ReplaceAll_returns: "c_str key \<noteq> [] \<Longrightarrow> \<exists>r. ReplaceAll s key tgt = Some r"
  by (simp add: ReplaceAll_eq)

lemma cut_at_key: "find_at pat s 0 = Some i \<Longrightarrow> pat \<noteq> [] \<Longrightarrow> \<not> sublist pat (take i s)"
proof
  assume i: "find_at pat s 0 = Some i" and ne: "pat \<noteq> []" and "sublist pat (take i s)"
  then obtain us vs where e: "take i s = us @ pat @ vs" by (auto simp: sublist_def)
  then have "s = us @ pat @ vs @ drop i s" by (metis append.assoc append_take_drop_id)
  then have "prefix pat (drop (length us) s)" by (metis append_eq_conv_conj prefixI)
  moreover have "length us < i" using ne arg_cong [OF e, of length] by (cases pat) auto
  ultimately show False using i by (auto simp: find_at_Some)
qed

text \<open>
  Building a prompt always returns. The prompt ends with the answer prefix; what comes before
  it is the question when the template has no question key, and otherwise contains no
  response prefix key.
\<close>

lemma BuildPrompt_result:
  "\<exists>p. BuildPrompt vocab prompt_template question answer_prefix system_prompt = Some (p @ answer_prefix)
    \<and> (if sublist ''{query}'' prompt_template \<or> sublist ''{_query}'' prompt_template
       then \<not> sublist ''{res_prefix}'' p else p = question)"
proof -
  let ?cut = "\<lambda>s. case str_find s ''{res_prefix}'' 0 of None \<Rightarrow> s | Some pos \<Rightarrow> take pos s"
  have find: "str_find s pat 0 = find_at pat s 0" for s pat by (simp add: str_find_def)
  have cut: "\<not> sublist ''{res_prefix}'' (?cut s)" for s
    using cut_at_key [of "''{res_prefix}''" s] by (auto simp: find find_at_None split: option.split)
  have ret: "\<exists>r. ReplaceAll s (c # key) tgt = Some r" if "c \<noteq> CHR 0x00" for s c key tgt
    by (rule ReplaceAll_returns) (simp add: c_str_def that)
  have key: "\<exists>r. replace_key (c # key) tgt s = Some r" if "c \<noteq> CHR 0x00" for s c key tgt
    using ret [OF that] by (auto simp: replace_key_def)
  show ?thesis
  proof (cases "sublist ''{query}'' prompt_template \<or> sublist ''{_query}'' prompt_template")
    case True
    obtain s1 where 1: "(if find_at ''{query}'' prompt_template 0 \<noteq> None then ReplaceAll prompt_template ''{query}'' question
        else Some prompt_template) = Some s1" using ret by fastforce
    obtain s2 where 2: "(if find_at ''{_query}'' prompt_template 0 \<noteq> None then ReplaceAll s1 ''{_query}'' ('' '' @ question)
        else Some s1) = Some s2" using ret by fastforce
    obtain s3 where 3: "replace_key ''{system_prompt}'' system_prompt s2 = Some s3" using key by fastforce
    obtain s4 where 4: "(if bos_id vocab \<ge> 0 then replace_key ''{bos}'' (IdToStr vocab (bos_id vocab) True) s3
        else Some s3) = Some s4" using key by fastforce
    have "BuildPrompt vocab prompt_template question answer_prefix system_prompt = Some (?cut s4 @ answer_prefix)"
      using True 1 2 3 4 by (auto simp: BuildPrompt_def find find_at_None Let_def)
    with True cut show ?thesis by auto
  next
    case False
    then have "find_at ''{query}'' prompt_template 0 = None" "find_at ''{_query}'' prompt_template 0 = None"
      by (simp_all add: find_at_None)
    with False show ?thesis by (simp add: BuildPrompt_def find)
  qed
qed

text \<open>
  The text of a question is searched for template keys as well: a question with the
  response prefix key cuts off the rest of the question and of the template.
\<close>

lemma BuildPrompt_rescans_question:
  "BuildPrompt tiny_vocab ''Q: {query} A:'' ''1{res_prefix}2'' [] [] = Some ''Q: 1''"
  by (simp add: BuildPrompt_def str_find_def replace_key_def ReplaceAll_eq c_str_def tiny_vocab_def
      new_StdVocabulary_def Let_def)

end
