(* ===== verification/TopK.thy ===== *)
theory TopK
  imports Vocabulary
begin

text \<open>
  The bounded queue of the best candidates (src/3rd_party/sslib/top_k_queue.h and .cc) and the
  selection of the best tokens of a row of scores, alone or with several threads
  (\<open>SamplingStrategy::GetSortedTopK\<close> and \<open>TopKBuildingThread\<close> in
  src/src/transformer/sampling_strategy.cc). Scores are compared only, so their type is any
  linear order; a \<open>std::set\<close> is a sorted list without duplicates.
\<close>

section \<open>Items and their order\<close>

datatype 'w IdWeight = IdWeight (iw_id: nat) (iw_weight: 'w)

text \<open>
  The comparison \<open>LessWeight\<close>: by weight, and among equal weights the greater id is the lesser item.
  It is the strict part of a linear order, so that sorted lists of the library apply to items.
\<close>

definition LessWeight :: "'w::linorder IdWeight \<Rightarrow> 'w IdWeight \<Rightarrow> bool" where
  "LessWeight lhs rhs \<longleftrightarrow>
     (if iw_weight lhs = iw_weight rhs then iw_id lhs > iw_id rhs else iw_weight lhs < iw_weight rhs)"

instantiation IdWeight :: (linorder) linorder
begin

definition less_eq_IdWeight :: "'a IdWeight \<Rightarrow> 'a IdWeight \<Rightarrow> bool" where
  "less_eq_IdWeight lhs rhs \<longleftrightarrow> \<not> LessWeight rhs lhs"

definition less_IdWeight :: "'a IdWeight \<Rightarrow> 'a IdWeight \<Rightarrow> bool" where
  "less_IdWeight lhs rhs \<longleftrightarrow> LessWeight lhs rhs"

instance
proof
  fix x y z :: "'a IdWeight"
  note defs = less_eq_IdWeight_def less_IdWeight_def LessWeight_def
  show "x < y \<longleftrightarrow> x \<le> y \<and> \<not> y \<le> x" by (auto simp: defs)
  show "x \<le> x" by (simp add: defs)
  show "x \<le> y \<Longrightarrow> y \<le> z \<Longrightarrow> x \<le> z" by (auto simp: defs split: if_splits)
  show "x \<le> y \<Longrightarrow> y \<le> x \<Longrightarrow> x = y" by (auto simp: defs intro: IdWeight.expand split: if_splits)
  show "x \<le> y \<or> y \<le> x" by (auto simp: defs)
qed

end

section \<open>The queue\<close>

record 'w TopKQueue =
  tq_k :: int
  tq_data :: "'w IdWeight list"

definition new_TopKQueue :: "int \<Rightarrow> 'w TopKQueue" where
  "new_TopKQueue k = \<lparr>tq_k = k, tq_data = []\<rparr>"

definition TopK_Clear :: "'w TopKQueue \<Rightarrow> int \<Rightarrow> 'w TopKQueue" where
  "TopK_Clear q k = q\<lparr>tq_data := [], tq_k := (if k > 0 then k else tq_k q)\<rparr>"

definition UpdateTopK :: "'w::linorder TopKQueue \<Rightarrow> 'w IdWeight \<Rightarrow> 'w TopKQueue" where
  "UpdateTopK q item =
     (if tq_k q \<le> 0 then q
      else case tq_data q of
        [] \<Rightarrow> q\<lparr>tq_data := [item]\<rparr>
      | lowest # rest \<Rightarrow>
          if int (length (tq_data q)) < tq_k q then q\<lparr>tq_data := insort_insert item (tq_data q)\<rparr>
          else if iw_weight item > iw_weight lowest then q\<lparr>tq_data := insort_insert item rest\<rparr>
          else q)"

definition UpdateTopK_queue :: "'w::linorder TopKQueue \<Rightarrow> 'w TopKQueue \<Rightarrow> 'w TopKQueue" where
  "UpdateTopK_queue q topK = fold (\<lambda>item q. UpdateTopK q item) (rev (tq_data topK)) q"

definition TopK_GetList :: "'w TopKQueue \<Rightarrow> nat \<Rightarrow> 'w IdWeight list" where
  "TopK_GetList q k = (if k > 0 then take k (rev (tq_data q)) else rev (tq_data q))"

definition UINT32_MAX_id :: nat where "UINT32_MAX_id = 2 ^ 32 - 1"

definition TopK_GetTop :: "'w::zero TopKQueue \<Rightarrow> 'w IdWeight" where
  "TopK_GetTop q = (if tq_data q \<noteq> [] then last (tq_data q) else IdWeight UINT32_MAX_id 0)"

definition TopK_GetBottom :: "'w::zero TopKQueue \<Rightarrow> 'w IdWeight" where
  "TopK_GetBottom q = (if tq_data q \<noteq> [] then hd (tq_data q) else IdWeight UINT32_MAX_id 0)"

section \<open>The best elements of a set\<close>

definition above :: "'a::linorder set \<Rightarrow> 'a \<Rightarrow> 'a set" where
  "above S x = {y \<in> S. x < y}"

definition tops :: "nat \<Rightarrow> 'a::linorder set \<Rightarrow> 'a set" where
  "tops k S = {x \<in> S. card (above S x) < k}"

lemma finite_above [simp]: "finite S \<Longrightarrow> finite (above S x)"
  by (simp add: above_def)

lemma tops_subset: "tops k S \<subseteq> S"
  by (auto simp: tops_def)

lemma finite_tops [simp]: "finite S \<Longrightarrow> finite (tops k S)"
  by (rule finite_subset [OF tops_subset])

lemma above_antimono:
  assumes "finite S" "x < y" "y \<in> S"
  shows "card (above S y) < card (above S x)"
  using assms by (intro psubset_card_mono) (auto simp: above_def)

lemma tops_up: "finite S \<Longrightarrow> x \<in> tops k S \<Longrightarrow> y \<in> S \<Longrightarrow> x \<le> y \<Longrightarrow> y \<in> tops k S"
  using above_antimono [of S x y] by (auto simp: tops_def le_less intro: less_trans)

lemma tops_greater: "finite S \<Longrightarrow> x \<in> S - tops k S \<Longrightarrow> y \<in> tops k S \<Longrightarrow> x < y"
  using tops_up [of S y k x] by force

lemma ranks: 
  assumes "finite S"
  shows "inj_on (\<lambda>x. card (above S x)) S" "(\<lambda>x. card (above S x)) ` S = {..<card S}"
proof -
  let ?r = "\<lambda>x. card (above S x)"
  show inj: "inj_on ?r S"
    by (rule inj_onI) (metis above_antimono [OF assms] less_irrefl neqE)
  have "?r x < card S" if "x \<in> S" for x
    using assms that by (intro psubset_card_mono) (auto simp: above_def)
  then have "?r ` S \<subseteq> {..<card S}" by auto
  then show "?r ` S = {..<card S}"
    by (rule card_subset_eq [OF finite_lessThan]) (simp add: card_image [OF inj])
qed

lemma card_tops:
  assumes "finite S"
  shows "card (tops k S) = min k (card S)"
proof -
  let ?r = "\<lambda>x. card (above S x)"
  have "?r ` tops k S = {..<k} \<inter> ?r ` S" by (auto simp: tops_def)
  also have "\<dots> = {..<min k (card S)}" by (auto simp: ranks(2) [OF assms])
  finally have "card (?r ` tops k S) = min k (card S)" by simp
  moreover have "inj_on ?r (tops k S)" by (rule inj_on_subset [OF ranks(1) [OF assms] tops_subset])
  ultimately show ?thesis by (simp add: card_image)
qed

lemma tops_all: "finite S \<Longrightarrow> card S \<le> k \<Longrightarrow> tops k S = S"
  using card_tops [of S k] tops_subset [of k S] by (metis card_subset_eq min.absorb2)

lemma tops_0 [simp]: "tops 0 S = {}"
  by (simp add: tops_def)

text \<open>A set of at most \<open>k\<close> elements with everything else below it is the set of the best.\<close>

lemma tops_eqI:
  assumes fin: "finite S" and sub: "T \<subseteq> S" and card: "card T = min k (card S)"
    and gt: "\<And>x y. x \<in> S - T \<Longrightarrow> y \<in> T \<Longrightarrow> x < y"
  shows "tops k S = T"
proof -
  have finT: "finite T" using fin sub finite_subset by blast
  have "T \<subseteq> tops k S"
  proof
    fix y assume y: "y \<in> T"
    have "above S y \<subseteq> T - {y}"
    proof
      fix z assume z: "z \<in> above S y"
      then have "z \<in> T" using gt [of z y] y by (force simp: above_def)
      then show "z \<in> T - {y}" using z by (auto simp: above_def)
    qed
    then have "card (above S y) \<le> card (T - {y})" using finT by (intro card_mono) auto
    also have "\<dots> < card T" using y finT by (intro card_Diff1_less) auto
    finally show "y \<in> tops k S" using y sub card by (auto simp: tops_def)
  qed
  then show ?thesis
    using card_subset_eq [OF finite_tops [OF fin], of T k] card card_tops [OF fin, of k] by simp
qed

lemma tops_insert_below:
  assumes "finite S" "k \<le> card S" "\<And>t. t \<in> tops k S \<Longrightarrow> x < t"
  shows "tops k (insert x S) = tops k S"
proof (rule tops_eqI)
  show "card (tops k S) = min k (card (insert x S))"
    using assms(1,2) by (simp add: card_tops card_insert_if)
  show "a < b" if "a \<in> insert x S - tops k S" "b \<in> tops k S" for a b
    using that assms(3) tops_greater [OF assms(1)] by blast
qed (use assms tops_subset in auto)

lemma tops_insert_above:
  assumes "finite S" "k \<le> card S" "x \<notin> S" "low \<in> tops k S" "\<And>t. t \<in> tops k S \<Longrightarrow> low \<le> t" "low < x"
  shows "tops k (insert x S) = insert x (tops k S - {low})"
proof (rule tops_eqI)
  have fin: "finite (tops k S)" using assms(1) by simp
  have x: "x \<notin> tops k S" using assms(3) tops_subset by blast
  show "card (insert x (tops k S - {low})) = min k (card (insert x S))"
    using assms(1-4) fin x card_Suc_Diff1 [OF fin assms(4)] by (simp add: card_tops)
  show "a < b" if "a \<in> insert x S - insert x (tops k S - {low})" "b \<in> insert x (tops k S - {low})" for a b
  proof -
    have "a \<le> low" using that(1) assms(4) tops_greater [OF assms(1)] by force
    moreover have "low < b" using that(2) assms(5) [of b] assms(6) by force
    ultimately show ?thesis by simp
  qed
qed (use assms tops_subset in auto)

text \<open>The best of the bests of parts are the best of all.\<close>

lemma tops_Union:
  assumes "finite I" "\<And>i. i \<in> I \<Longrightarrow> finite (A i)"
  shows "tops k (\<Union>i \<in> I. tops k (A i)) = tops k (\<Union>i \<in> I. A i)"
proof -
  let ?S = "\<Union>i \<in> I. A i" and ?B = "\<Union>i \<in> I. tops k (A i)"
  have fin: "finite ?S" and sub: "?B \<subseteq> ?S" using assms tops_subset by fastforce+
  have in_B: "tops k ?S \<subseteq> ?B"
  proof
    fix x assume x: "x \<in> tops k ?S"
    then obtain i where i: "i \<in> I" "x \<in> A i" by (auto simp: tops_def)
    then have "card (above (A i) x) \<le> card (above ?S x)"
      using fin by (intro card_mono finite_above) (auto simp: above_def)
    then show "x \<in> ?B" using i x by (auto simp: tops_def)
  qed
  show ?thesis
  proof (rule tops_eqI)
    show "finite ?B" by (rule finite_subset [OF sub fin])
    then have "card (tops k ?S) \<le> card ?B" by (rule card_mono) (rule in_B)
    moreover have "card ?B \<le> card ?S" by (rule card_mono [OF fin sub])
    ultimately show "card (tops k ?S) = min k (card ?B)" using card_tops [OF fin, of k] by linarith
    show "a < b" if "a \<in> ?B - tops k ?S" "b \<in> tops k ?S" for a b
      using that sub by (intro tops_greater [OF fin]) auto
  qed (rule in_B)
qed

section \<open>The queue holds the best items\<close>

definition queue_holds :: "'w::linorder TopKQueue \<Rightarrow> 'w IdWeight set \<Rightarrow> bool" where
  "queue_holds q S \<longleftrightarrow> sorted (tq_data q) \<and> distinct (tq_data q) \<and> set (tq_data q) = tops (nat (tq_k q)) S"

lemma queue_holds_list: "queue_holds q S \<Longrightarrow> finite S \<Longrightarrow> tq_data q = sorted_list_of_set (tops (nat (tq_k q)) S)"
  by (rule sorted_distinct_set_unique) (auto simp: queue_holds_def)

text \<open>
  Items of equal weight must arrive in the order of their ids: then the comparison of weights
  alone decides as the order of items does.
\<close>

lemma UpdateTopK_holds:
  assumes "queue_holds q S" "finite S" "x \<notin> S"
    and ties: "\<And>y. y \<in> S \<Longrightarrow> iw_weight y = iw_weight x \<Longrightarrow> iw_id y < iw_id x"
  shows "queue_holds (UpdateTopK q x) (insert x S) \<and> tq_k (UpdateTopK q x) = tq_k q"
proof (cases "tq_k q \<le> 0")
  case True
  then show ?thesis using assms(1) by (simp add: UpdateTopK_def queue_holds_def)
next
  case False
  let ?k = "nat (tq_k q)"
  have len: "length (tq_data q) = min ?k (card S)"
    using assms(1,2) by (metis card_tops distinct_card queue_holds_def)
  show ?thesis
  proof (cases "card S < ?k")
    case True
    then have "tops ?k S = S" "tops ?k (insert x S) = insert x S"
      using assms(2) by (auto intro!: tops_all simp: card_insert_if)
    then show ?thesis using assms(1) False True len
      by (auto simp: UpdateTopK_def queue_holds_def sorted_insort_insert set_insort_insert
          distinct_insort_insert split: list.split)
  next
    case full: False
    then obtain low rest where q: "tq_data q = low # rest"
      using len False by (cases "tq_data q") auto
    have low: "low \<in> tops ?k S" "\<And>t. t \<in> tops ?k S \<Longrightarrow> low \<le> t"
      "set rest = tops ?k S - {low}" "sorted rest" "distinct rest"
      using assms(1) q by (auto simp: queue_holds_def)
    have "low \<in> S" using low(1) tops_subset by blast
    then have cmp: "iw_weight x > iw_weight low \<longleftrightarrow> low < x"
      using ties [of low] by (auto simp: less_IdWeight_def LessWeight_def)
    have "x < t" if "\<not> low < x" "t \<in> tops ?k S" for t
      using that low(2) [of t] \<open>low \<in> S\<close> assms(3) by (metis antisym_conv3 order.strict_trans2)
    then have "\<not> low < x \<Longrightarrow> tops ?k (insert x S) = tops ?k S"
      using assms(2) full by (intro tops_insert_below) auto
    moreover have "low < x \<Longrightarrow> tops ?k (insert x S) = insert x (tops ?k S - {low})"
      using assms(2,3) full low(1,2) by (intro tops_insert_above) auto
    ultimately show ?thesis using assms(1) False full q low(3-5) cmp len
      by (auto simp: UpdateTopK_def queue_holds_def sorted_insort_insert set_insort_insert
          distinct_insort_insert)
  qed
qed

text \<open>A sequence of items in which equal weights come in the order of their ids.\<close>

definition tie_ordered :: "'w IdWeight list \<Rightarrow> bool" where
  "tie_ordered items \<longleftrightarrow>
     distinct items \<and> sorted_wrt (\<lambda>x y. iw_weight x = iw_weight y \<longrightarrow> iw_id x < iw_id y) items"

lemma tie_ordered_append:
  "tie_ordered (xs @ ys) \<longleftrightarrow> tie_ordered xs \<and> tie_ordered ys \<and> set xs \<inter> set ys = {}
    \<and> (\<forall>x \<in> set xs. \<forall>y \<in> set ys. iw_weight x = iw_weight y \<longrightarrow> iw_id x < iw_id y)"
  by (auto simp: tie_ordered_def sorted_wrt_append)

lemma fold_UpdateTopK_holds:
  assumes "tie_ordered items"
  shows "queue_holds (fold (\<lambda>item q. UpdateTopK q item) items (new_TopKQueue k)) (set items)
    \<and> tq_k (fold (\<lambda>item q. UpdateTopK q item) items (new_TopKQueue k)) = k"
  using assms
proof (induction items rule: rev_induct)
  case Nil
  then show ?case by (simp add: queue_holds_def new_TopKQueue_def tops_def)
next
  case (snoc x xs)
  let ?q = "fold (\<lambda>item q. UpdateTopK q item) xs (new_TopKQueue k)"
  from snoc.prems have xs: "tie_ordered xs" "x \<notin> set xs"
    "\<And>y. y \<in> set xs \<Longrightarrow> iw_weight y = iw_weight x \<Longrightarrow> iw_id y < iw_id x"
    by (auto simp: tie_ordered_append)
  with snoc.IH UpdateTopK_holds [of ?q "set xs" x] show ?case by simp
qed

lemma fold_UpdateTopK_list:
  assumes "tie_ordered items"
  shows "TopK_GetList (fold (\<lambda>item q. UpdateTopK q item) items (new_TopKQueue k)) 0
    = rev (sorted_list_of_set (tops (nat k) (set items)))"
  using fold_UpdateTopK_holds [OF assms, of k] queue_holds_list by (fastforce simp: TopK_GetList_def)

text \<open>The output of a queue is itself such a sequence: descending, so equal weights by rising id.\<close>

lemma tie_ordered_descending: "finite S \<Longrightarrow> tie_ordered (rev (sorted_list_of_set (S :: 'w::linorder IdWeight set)))"
proof -
  assume "finite S"
  have "sorted_wrt (\<lambda>x y. y < x) (rev (sorted_list_of_set S))"
    by (simp add: sorted_wrt_rev strict_sorted_list_of_set)
  then have "sorted_wrt (\<lambda>x y. iw_weight x = iw_weight y \<longrightarrow> iw_id x < iw_id y) (rev (sorted_list_of_set S))"
    by (rule sorted_wrt_mono_rel [rotated]) (auto simp: less_IdWeight_def LessWeight_def)
  then show ?thesis by (simp add: tie_ordered_def)
qed

section \<open>Selecting the best tokens\<close>

record ('w, 'h) SamplingInput =
  si_query_id :: int
  si_prefix :: "int list option"
  si_cur_tokens :: "int list option"
  si_candidates :: "'w list"
  si_candidates_fp16 :: "'h list"

definition CandidateCount :: "('w, 'h) SamplingInput \<Rightarrow> nat" where
  "CandidateCount input = (if si_candidates_fp16 input = [] then length (si_candidates input)
     else length (si_candidates_fp16 input))"

definition TokenType_Invalid :: int where "TokenType_Invalid = 255"

text \<open>\<open>to_float\<close> is the conversion of a half-precision number.\<close>

definition candidate_score :: "('h \<Rightarrow> 'w) \<Rightarrow> ('w, 'h) SamplingInput \<Rightarrow> nat \<Rightarrow> 'w" where
  "candidate_score to_float input idx =
     (if si_candidates_fp16 input \<noteq> [] then to_float (si_candidates_fp16 input ! idx)
      else si_candidates input ! idx)"

definition is_candidate :: "'f StdVocabulary \<Rightarrow> nat \<Rightarrow> bool" where
  "is_candidate vocab idx \<longleftrightarrow> idx < length (token_array vocab)
     \<and> tk_type (token_array vocab ! idx) \<noteq> TokenType_Invalid \<and> tk_id (token_array vocab ! idx) \<noteq> unk_id vocab"

text \<open>The loop over an index range that both variants run.\<close>

definition offer_range :: "('h \<Rightarrow> 'w) \<Rightarrow> ('w, 'h) SamplingInput \<Rightarrow> 'f StdVocabulary \<Rightarrow> nat \<Rightarrow> nat
    \<Rightarrow> 'w::linorder TopKQueue \<Rightarrow> 'w TopKQueue" where
  "offer_range to_float input vocab start_idx end_idx q =
     fold (\<lambda>idx q. if is_candidate vocab idx
         then UpdateTopK q (IdWeight idx (candidate_score to_float input idx)) else q)
       [start_idx..<end_idx] q"

definition TopKBuildingThread_Run :: "('h \<Rightarrow> 'w) \<Rightarrow> ('w, 'h) SamplingInput \<Rightarrow> 'f StdVocabulary \<Rightarrow> int \<Rightarrow> nat
    \<Rightarrow> nat \<Rightarrow> 'w::linorder IdWeight list" where
  "TopKBuildingThread_Run to_float input vocab max_queue_len thread_count thread_id =
     (let item_count = CandidateCount input;
          items_per_thread = item_count div thread_count;
          start_idx = thread_id * items_per_thread;
          end_idx = (if thread_id + 1 < thread_count then (thread_id + 1) * items_per_thread else item_count)
      in TopK_GetList (offer_range to_float input vocab start_idx end_idx (new_TopKQueue max_queue_len)) 0)"

definition GetSortedTopK :: "('h \<Rightarrow> 'w) \<Rightarrow> ('w, 'h) SamplingInput \<Rightarrow> 'f StdVocabulary \<Rightarrow> int \<Rightarrow> int
    \<Rightarrow> 'w::linorder IdWeight list" where
  "GetSortedTopK to_float input vocab max_queue_len thread_count =
     TopK_GetList
       (if thread_count > 1
        then fold (\<lambda>thread_id q. fold (\<lambda>item q. UpdateTopK q item)
               (TopKBuildingThread_Run to_float input vocab max_queue_len (nat thread_count) thread_id) q)
             [0..<nat thread_count] (new_TopKQueue max_queue_len)
        else offer_range to_float input vocab 0 (CandidateCount input) (new_TopKQueue max_queue_len)) 0"

definition range_items :: "('h \<Rightarrow> 'w) \<Rightarrow> ('w, 'h) SamplingInput \<Rightarrow> 'f StdVocabulary \<Rightarrow> nat \<Rightarrow> nat \<Rightarrow> 'w IdWeight list" where
  "range_items to_float input vocab a b =
     map (\<lambda>idx. IdWeight idx (candidate_score to_float input idx)) (filter (is_candidate vocab) [a..<b])"

lemma offer_range_items:
  "offer_range to_float input vocab a b q = fold (\<lambda>item q. UpdateTopK q item) (range_items to_float input vocab a b) q"
proof -
  have "fold (\<lambda>idx q. if is_candidate vocab idx then UpdateTopK q (IdWeight idx (f idx)) else q) is q
      = fold (\<lambda>item q. UpdateTopK q item) (map (\<lambda>idx. IdWeight idx (f idx)) (filter (is_candidate vocab) is)) q"
    for "is" f q by (induction "is" arbitrary: q) simp_all
  then show ?thesis by (simp add: offer_range_def range_items_def)
qed

lemma tie_ordered_ids: "sorted_wrt (<) (map iw_id items) \<Longrightarrow> tie_ordered items"
  unfolding tie_ordered_def
proof
  assume ids: "sorted_wrt (<) (map iw_id items)"
  then show "distinct items" by (simp add: strict_sorted_iff distinct_map)
  show "sorted_wrt (\<lambda>x y. iw_weight x = iw_weight y \<longrightarrow> iw_id x < iw_id y) items"
    using ids by (auto simp: sorted_wrt_map elim: sorted_wrt_mono_rel [rotated])
qed

lemma range_items_props:
  "tie_ordered (range_items to_float input vocab a b)"
  "set (range_items to_float input vocab a b) =
     (\<lambda>idx. IdWeight idx (candidate_score to_float input idx)) ` {idx \<in> {a..<b}. is_candidate vocab idx}"
proof -
  have "sorted_wrt (<) (filter (is_candidate vocab) [a..<b])" by (simp add: sorted_wrt_filter)
  then show "tie_ordered (range_items to_float input vocab a b)"
    by (intro tie_ordered_ids) (simp add: range_items_def o_def)
qed (auto simp: range_items_def)

text \<open>The index range of a thread.\<close>

definition thread_range :: "nat \<Rightarrow> nat \<Rightarrow> nat \<Rightarrow> nat set" where
  "thread_range n count i = {i * (count div n)..<(if i + 1 < n then (i + 1) * (count div n) else count)}"

lemma thread_ranges_ordered:
  assumes "i < j" "j < n" "x \<in> thread_range n count i" "y \<in> thread_range n count j"
  shows "x < y"
proof -
  have "x < (i + 1) * (count div n)" using assms by (auto simp: thread_range_def split: if_splits)
  also have "\<dots> \<le> j * (count div n)" using assms(1) by (intro mult_right_mono) auto
  also have "\<dots> \<le> y" using assms(4) by (simp add: thread_range_def)
  finally show ?thesis .
qed

lemma thread_ranges_cover:
  assumes "0 < n"
  shows "(\<Union>i < n. thread_range n count i) = {0..<count}"
proof
  have "(i + 1) * (count div n) \<le> count" if "i + 1 < n" for i
  proof -
    have "(i + 1) * (count div n) \<le> n * (count div n)" using that by (intro mult_right_mono) auto
    also have "\<dots> \<le> count" by simp
    finally show ?thesis .
  qed
  then show "(\<Union>i < n. thread_range n count i) \<subseteq> {0..<count}"
    by (fastforce simp: thread_range_def split: if_splits)
  show "{0..<count} \<subseteq> (\<Union>i < n. thread_range n count i)"
  proof
    fix x assume x: "x \<in> {0..<count}"
    let ?p = "count div n"
    show "x \<in> (\<Union>i < n. thread_range n count i)"
    proof (cases "x < (n - 1) * ?p")
      case True
      let ?i = "x div ?p"
      have "0 < ?p" using True by (cases ?p) auto
      then have "?i < n - 1" "?i * ?p \<le> x" "x < (?i + 1) * ?p"
        using True by (simp_all add: div_less_iff_less_mult dividend_less_div_times add.commute)
      then show ?thesis by (auto simp: thread_range_def intro!: bexI [of _ ?i])
    next
      case False
      then show ?thesis using x assms by (auto simp: thread_range_def intro!: bexI [of _ "n - 1"])
    qed
  qed
qed

lemma thread_output:
  "TopKBuildingThread_Run to_float input vocab k n i = rev (sorted_list_of_set (tops (nat k)
     ((\<lambda>idx. IdWeight idx (candidate_score to_float input idx)) `
        {idx \<in> thread_range n (CandidateCount input) i. is_candidate vocab idx})))"
  by (simp add: TopKBuildingThread_Run_def Let_def offer_range_items fold_UpdateTopK_list range_items_props
      thread_range_def)

lemma fold_fold_concat: "fold (\<lambda>i q. fold g (f i) q) is q = fold g (concat (map f is)) q"
  by (induction "is" arbitrary: q) simp_all

lemma tie_ordered_concat:
  assumes "\<And>i. i < n \<Longrightarrow> tie_ordered (f i)"
    and "\<And>i j x y. i < j \<Longrightarrow> j < n \<Longrightarrow> x \<in> set (f i) \<Longrightarrow> y \<in> set (f j) \<Longrightarrow> iw_id x < iw_id y"
  shows "tie_ordered (concat (map f [0..<n]))"
  using assms
proof (induction n)
  case (Suc n)
  then show ?case by (fastforce simp: tie_ordered_append)
qed (simp add: tie_ordered_def)

lemma threads_select:
  fixes to_float :: "'h \<Rightarrow> 'w::linorder" and input :: "('w, 'h) SamplingInput" and vocab :: "'f StdVocabulary" and k :: int
  assumes "0 < n"
  defines "item \<equiv> \<lambda>idx. IdWeight idx (candidate_score to_float input idx)"
  defines "outs \<equiv> concat (map (TopKBuildingThread_Run to_float input vocab k n) [0..<n])"
  shows "tie_ordered outs"
    "tops (nat k) (set outs) = tops (nat k) (item ` {idx. idx < CandidateCount input \<and> is_candidate vocab idx})"
proof -
  let ?A = "\<lambda>i. item ` {idx \<in> thread_range n (CandidateCount input) i. is_candidate vocab idx}"
  have fin: "finite (?A i)" for i by (simp add: thread_range_def)
  have out: "TopKBuildingThread_Run to_float input vocab k n i = rev (sorted_list_of_set (tops (nat k) (?A i)))" for i
    by (simp add: thread_output item_def)
  have mem: "set (TopKBuildingThread_Run to_float input vocab k n i) = tops (nat k) (?A i)" for i
    using fin by (simp add: out)
  show "tie_ordered outs" unfolding outs_def
  proof (rule tie_ordered_concat)
    show "tie_ordered (TopKBuildingThread_Run to_float input vocab k n i)" for i
      using fin by (simp add: out tie_ordered_descending)
    show "iw_id x < iw_id y" if "i < j" "j < n" "x \<in> set (TopKBuildingThread_Run to_float input vocab k n i)"
      "y \<in> set (TopKBuildingThread_Run to_float input vocab k n j)" for i j x y
      using that(3,4) thread_ranges_ordered [OF that(1,2)] unfolding mem by (auto simp: tops_def item_def)
  qed
  have "set outs = (\<Union>i \<in> {..<n}. tops (nat k) (?A i))" by (auto simp: outs_def mem)
  then have "tops (nat k) (set outs) = tops (nat k) (\<Union>i \<in> {..<n}. ?A i)" using fin by (simp add: tops_Union)
  also have "(\<Union>i \<in> {..<n}. ?A i) = item ` {idx \<in> (\<Union>i < n. thread_range n (CandidateCount input) i). is_candidate vocab idx}"
    by auto
  finally show "tops (nat k) (set outs) = tops (nat k) (item ` {idx. idx < CandidateCount input \<and> is_candidate vocab idx})"
    by (simp add: thread_ranges_cover [OF assms(1)])
qed

lemma GetSortedTopK_select:
  "GetSortedTopK to_float input vocab max_queue_len thread_count =
     rev (sorted_list_of_set (tops (nat max_queue_len)
       ((\<lambda>idx. IdWeight idx (candidate_score to_float input idx)) `
          {idx. idx < CandidateCount input \<and> is_candidate vocab idx})))"
proof (cases "thread_count > 1")
  case True
  then have n: "0 < nat thread_count" by simp
  show ?thesis using True threads_select [OF n, where to_float = to_float and input = input and vocab = vocab and k = max_queue_len]
    by (simp add: GetSortedTopK_def fold_fold_concat fold_UpdateTopK_list)
next
  case False
  then show ?thesis
    by (simp add: GetSortedTopK_def offer_range_items fold_UpdateTopK_list range_items_props)
qed

text \<open>
  C8. Whatever the number of threads, selecting the best tokens yields the \<open>max_queue_len\<close> greatest
  of the valid candidates (by score, and for equal scores by the smaller index), best first: the
  parallel variant returns what the loop over all candidates returns.
\<close>

theorem GetSortedTopK_best:
  "GetSortedTopK to_float input vocab max_queue_len thread_count =
     rev (sorted_list_of_set (tops (nat max_queue_len)
       ((\<lambda>idx. IdWeight idx (candidate_score to_float input idx)) `
          {idx. idx < CandidateCount input \<and> is_candidate vocab idx})))"
  by (rule GetSortedTopK_select)

end
