(* ===== verification/Sampling.thy ===== *)
theory Sampling
  imports Complex_Main TopK "HOL-Library.Multiset"
begin

text \<open>
  Decoding strategies (src/src/transformer/sampling_strategy.h and .cc, decoding_strategies.h and
  .cc) and the random choice of src/3rd_party/sslib/random.cc. Weights are elements of an
  ordered field: the arithmetic is the one of the source without rounding. Outside the model
  and therefore parameters: the exponential function (\<open>exp_fn\<close>), \<open>std::sort\<close> (\<open>sort_desc\<close>, any
  descending order), and the draw of a number below a bound (\<open>next_double\<close>, with its state \<open>'r\<close>).
\<close>

section \<open>Strategy ids and names\<close>

datatype DecodingStrategyId = DS_Auto | DS_StdSampling | DS_Greedy | DS_TopK | DS_TopP | DS_FSD
  | DS_RandomizedFSD | DS_MinP | DS_TFS | DS_Typical | DS_Mirostat

primrec DecodingStrategyId_value :: "DecodingStrategyId \<Rightarrow> int" where
  "DecodingStrategyId_value DS_Auto = 0"
| "DecodingStrategyId_value DS_StdSampling = 1"
| "DecodingStrategyId_value DS_Greedy = 2"
| "DecodingStrategyId_value DS_TopK = 3"
| "DecodingStrategyId_value DS_TopP = 4"
| "DecodingStrategyId_value DS_FSD = 5"
| "DecodingStrategyId_value DS_RandomizedFSD = 6"
| "DecodingStrategyId_value DS_MinP = 7"
| "DecodingStrategyId_value DS_TFS = 8"
| "DecodingStrategyId_value DS_Typical = 9"
| "DecodingStrategyId_value DS_Mirostat = 10"

lemma DecodingStrategyId_value_inj: "DecodingStrategyId_value a = DecodingStrategyId_value b \<Longrightarrow> a = b"
  by (cases a; cases b) simp_all

instantiation DecodingStrategyId :: linorder
begin

definition less_eq_DecodingStrategyId :: "DecodingStrategyId \<Rightarrow> DecodingStrategyId \<Rightarrow> bool" where
  "less_eq_DecodingStrategyId a b \<longleftrightarrow> DecodingStrategyId_value a \<le> DecodingStrategyId_value b"

definition less_DecodingStrategyId :: "DecodingStrategyId \<Rightarrow> DecodingStrategyId \<Rightarrow> bool" where
  "less_DecodingStrategyId a b \<longleftrightarrow> DecodingStrategyId_value a < DecodingStrategyId_value b"

instance
  by standard (auto simp: less_eq_DecodingStrategyId_def less_DecodingStrategyId_def DecodingStrategyId_value_inj)

end

text \<open>The integer cast \<open>(SamplingStrategyId)n\<close> of the engine; other numbers name no strategy.\<close>

definition DecodingStrategyId_of :: "int \<Rightarrow> DecodingStrategyId option" where
  "DecodingStrategyId_of n = find (\<lambda>s. DecodingStrategyId_value s = n)
     [DS_Auto, DS_StdSampling, DS_Greedy, DS_TopK, DS_TopP, DS_FSD, DS_RandomizedFSD, DS_MinP, DS_TFS,
      DS_Typical, DS_Mirostat]"

lemma DecodingStrategyId_of_value [simp]: "DecodingStrategyId_of (DecodingStrategyId_value s) = Some s"
  by (cases s) (simp_all add: DecodingStrategyId_of_def)

text \<open>The strategy objects that \<open>Init\<close> creates.\<close>

datatype StrategyObject = StdSamplingStrategy | FsdSamplingStrategy | RandomizedFSDSamplingStrategy
  | MinPSamplingStrategy | TFSSamplingStrategy | TypicalSamplingStrategy | MirostatSamplingStrategy

definition strategy_map :: "(DecodingStrategyId, StrategyObject) omap" where
  "strategy_map = omap_of
    [(DS_StdSampling, StdSamplingStrategy), (DS_Greedy, StdSamplingStrategy), (DS_TopK, StdSamplingStrategy),
     (DS_TopP, StdSamplingStrategy), (DS_FSD, FsdSamplingStrategy),
     (DS_RandomizedFSD, RandomizedFSDSamplingStrategy), (DS_MinP, MinPSamplingStrategy),
     (DS_TFS, TFSSamplingStrategy), (DS_Typical, TypicalSamplingStrategy), (DS_Mirostat, MirostatSamplingStrategy)]"

definition DecodingStrategies_Get :: "DecodingStrategyId \<Rightarrow> StrategyObject option" where
  "DecodingStrategies_Get sid = omap_find strategy_map (if sid = DS_Auto then DS_StdSampling else sid)"

definition strategy_assignments :: "(string \<times> DecodingStrategyId) list" where
  "strategy_assignments =
    [(''sample.std'', DS_StdSampling), (''greedy'', DS_Greedy), (''sample.greedy'', DS_Greedy),
     (''top_k'', DS_TopK), (''sample.top_k'', DS_TopK), (''top_p'', DS_TopP), (''sample.top_p'', DS_TopP),
     (''fsd'', DS_FSD), (''sample.fsd'', DS_FSD), (''random_fsd'', DS_RandomizedFSD),
     (''sample.random_fsd'', DS_RandomizedFSD), (''min_p'', DS_MinP), (''tfs'', DS_TFS),
     (''typical'', DS_Typical), (''mirostat'', DS_Mirostat)]"

text \<open>The map compares names without regard to case.\<close>

definition InitStrategyMap :: "(string, DecodingStrategyId) omap" where
  "InitStrategyMap = nocase_table strategy_assignments"

definition DecodingStrategies_GetId :: "string \<Rightarrow> DecodingStrategyId" where
  "DecodingStrategies_GetId strategy_name =
     (case nocase_find InitStrategyMap strategy_name of Some s \<Rightarrow> s | None \<Rightarrow> DS_Auto)"

lemma Get_total: "DecodingStrategies_Get sid \<noteq> None"
  by (cases sid) (simp_all add: DecodingStrategies_Get_def strategy_map_def omap_find_of)

section \<open>Data per query\<close>

record 'w QueryOptions =
  qo_strategy_id :: DecodingStrategyId
  qo_random_seed :: int
  qo_temperature :: 'w
  qo_max_output_tokens :: int

definition AddOrFindQueryData :: "'d \<Rightarrow> (int, 'd) omap \<Rightarrow> int \<Rightarrow> 'd \<times> (int, 'd) omap" where
  "AddOrFindQueryData new_data m query_id =
     (case omap_find m query_id of Some d \<Rightarrow> (d, m) | None \<Rightarrow> (new_data, omap_put query_id new_data m))"

definition EndQuery :: "(int, 'd) omap \<Rightarrow> int \<Rightarrow> (int, 'd) omap" where
  "EndQuery m query_id = (case omap_find m query_id of None \<Rightarrow> m | Some _ \<Rightarrow> omap_erase query_id m)"

record 'w StdConfig =
  sc_min_k :: int
  sc_max_k :: int
  sc_top_p :: 'w
  sc_pool_size :: int
  sc_eos_bypassing_max :: int

definition default_StdConfig :: "'w::field StdConfig" where
  "default_StdConfig = \<lparr>sc_min_k = 1, sc_max_k = 8, sc_top_p = 9 / 10, sc_pool_size = 50, sc_eos_bypassing_max = 0\<rparr>"

record ('w, 'r) StdQueryData =
  qd_options :: "'w QueryOptions"
  qd_rng :: 'r
  qd_config :: "'w StdConfig"
  qd_eos_bypassing_count :: int

definition default_QueryOptions :: "'w::one QueryOptions" where
  "default_QueryOptions = \<lparr>qo_strategy_id = DS_Auto, qo_random_seed = 0, qo_temperature = 1, qo_max_output_tokens = -1\<rparr>"

definition new_StdQueryData :: "'r \<Rightarrow> ('w::field, 'r) StdQueryData" where
  "new_StdQueryData rng = \<lparr>qd_options = default_QueryOptions, qd_rng = rng, qd_config = default_StdConfig,
     qd_eos_bypassing_count = 0\<rparr>"

text \<open>
  \<open>BeginQuery\<close>: the options and the seed, then the configuration of the strategy, overridden by the
  fields of the query's JSON text (\<open>apply_json\<close>; \<open>None\<close> for a text that is no JSON).
\<close>

definition Std_BeginQuery :: "(int \<Rightarrow> 'r) \<Rightarrow> 'r \<Rightarrow> (string \<Rightarrow> 'w StdConfig \<Rightarrow> 'w StdConfig option) \<Rightarrow> 'w::field StdConfig
    \<Rightarrow> (int, ('w, 'r) StdQueryData) omap \<Rightarrow> int \<Rightarrow> 'w QueryOptions \<Rightarrow> string \<Rightarrow> (int, ('w, 'r) StdQueryData) omap" where
  "Std_BeginQuery set_seed new_rng apply_json config m query_id opt config_str =
     (let (d, m1) = AddOrFindQueryData (new_StdQueryData new_rng) m query_id;
          d1 = d\<lparr>qd_options := opt,
                 qd_rng := (if qo_random_seed opt \<noteq> 0 then set_seed (qo_random_seed opt) else qd_rng d)\<rparr>;
          cfg = (if config_str = [] then config
                 else case apply_json config_str config of None \<Rightarrow> config | Some c \<Rightarrow> c)
      in omap_put query_id (d1\<lparr>qd_config := cfg\<rparr>) m1)"

section \<open>Filters and weights\<close>

primrec topp_topk_loop :: "'w::linordered_field \<Rightarrow> int \<Rightarrow> 'w IdWeight list \<Rightarrow> 'w \<Rightarrow> 'w IdWeight list \<Rightarrow> 'w IdWeight list" where
  "topp_topk_loop top_p top_k [] cumulative_p new_pool = new_pool"
| "topp_topk_loop top_p top_k (item # rest) cumulative_p new_pool =
     (let c = cumulative_p + iw_weight item; p = new_pool @ [item]
      in if c \<ge> top_p \<or> int (length p) \<ge> top_k then p else topp_topk_loop top_p top_k rest c p)"

definition topp_topk_filter_on_sorted :: "'w::linordered_field IdWeight list \<Rightarrow> 'w \<Rightarrow> int \<Rightarrow> 'w IdWeight list" where
  "topp_topk_filter_on_sorted pool top_p top_k = topp_topk_loop top_p top_k pool 0 []"

definition get_sorted_topk :: "'w::linorder IdWeight list \<Rightarrow> int \<Rightarrow> 'w IdWeight list" where
  "get_sorted_topk pool max_queue_len =
     TopK_GetList (fold (\<lambda>item q. UpdateTopK q item) pool (new_TopKQueue max_queue_len)) 0"

definition SoftMax :: "('w \<Rightarrow> 'w) \<Rightarrow> ('w IdWeight list \<Rightarrow> 'w IdWeight list) \<Rightarrow> 'w::linordered_field IdWeight list \<Rightarrow> 'w
    \<Rightarrow> 'w IdWeight list" where
  "SoftMax exp_fn sort_desc items temperature =
     (if items = [] then []
      else
        let sorted_items = sort_desc items;
            t = (if temperature < 1 / 1000 then 1 / 1000 else temperature);
            max_value = fold (\<lambda>item m. if m < iw_weight item then iw_weight item else m) sorted_items
              (iw_weight (hd sorted_items));
            scaled = map (\<lambda>item. IdWeight (iw_id item) (exp_fn ((iw_weight item - max_value) / t))) sorted_items;
            total = fold (\<lambda>item s. s + iw_weight item) scaled 0;
            total' = (if total < 1 / 100000 then 1 / 100000 else total)
        in map (\<lambda>item. IdWeight (iw_id item) (iw_weight item / total')) scaled)"

section \<open>Random choice\<close>

text \<open>
  \<open>RandomSampling\<close> with the count 1, the only one used: the running sums of the weights, a number
  below the total, and a binary search for its range.
\<close>

primrec range_bases :: "'w::linordered_field IdWeight list \<Rightarrow> 'w \<Rightarrow> 'w list" where
  "range_bases [] upper_bound = []"
| "range_bases (item # rest) upper_bound = upper_bound # range_bases rest (upper_bound + max 0 (iw_weight item))"

definition upper_bound_of :: "'w::linordered_field IdWeight list \<Rightarrow> 'w" where
  "upper_bound_of items = fold (\<lambda>item u. u + max 0 (iw_weight item)) items 0"

function range_lookup :: "'w::linorder list \<Rightarrow> 'w \<Rightarrow> nat \<Rightarrow> nat \<Rightarrow> nat \<Rightarrow> nat" where
  "range_lookup bases random_value begin_idx end_idx mid =
     (if begin_idx < end_idx then
        let mid1 = (end_idx + begin_idx) div 2
        in if random_value < bases ! mid1 then range_lookup bases random_value begin_idx mid1 mid1
           else if random_value > bases ! (mid1 + 1) then range_lookup bases random_value (mid1 + 1) end_idx (mid1 + 1)
           else mid1
      else mid)"
  by pat_completeness auto
termination
  by (relation "measure (\<lambda>(b, r, i, j, m). j - i)") auto

declare range_lookup.simps [simp del]

definition RandomSampling :: "('r \<Rightarrow> 'w \<Rightarrow> 'w \<times> 'r) \<Rightarrow> 'r \<Rightarrow> 'w::linordered_field IdWeight list \<Rightarrow> 'w IdWeight list \<times> 'r" where
  "RandomSampling next_double rng input =
     (if input = [] then ([], rng)
      else
        let (random_value, rng') = next_double rng (upper_bound_of input);
            mid = range_lookup (range_bases input 0) random_value 0 (length input - 1) 0
        in ([input ! mid], rng'))"

section \<open>Choosing tokens with the standard strategy\<close>

record 'w SamplingOutput =
  so_token_pool :: "'w IdWeight list"
  so_selected :: "'w IdWeight list"
  so_flag :: int
  so_flag_score :: 'w

definition eos_item :: "'f StdVocabulary \<Rightarrow> 'w IdWeight \<Rightarrow> bool" where
  "eos_item vocab item = IsEos vocab (int (iw_id item))"

text \<open>The end token is passed over while the query has bypasses left.\<close>

definition bypass_eos :: "'f StdVocabulary \<Rightarrow> ('w, 'r) StdQueryData \<Rightarrow> 'w SamplingOutput
    \<Rightarrow> 'w SamplingOutput \<times> ('w, 'r) StdQueryData" where
  "bypass_eos vocab d out =
     (if sc_eos_bypassing_max (qd_config d) > 0 \<and> so_selected out \<noteq> [] then
        let selected = hd (so_selected out)
        in if eos_item vocab selected \<and> length (so_token_pool out) > 1
             \<and> qd_eos_bypassing_count d < sc_eos_bypassing_max (qd_config d)
           then
             let out1 = out\<lparr>so_flag := 2, so_flag_score := iw_weight selected\<rparr>
             in case find (\<lambda>item. \<not> eos_item vocab item) (so_token_pool out) of
                  None \<Rightarrow> (out1, d)
                | Some item \<Rightarrow> (out1\<lparr>so_selected := item # tl (so_selected out)\<rparr>,
                    d\<lparr>qd_eos_bypassing_count := qd_eos_bypassing_count d + 1\<rparr>)
           else (out, d)
      else (out, d))"

definition Std_token_pool :: "('w \<Rightarrow> 'w) \<Rightarrow> ('w IdWeight list \<Rightarrow> 'w IdWeight list) \<Rightarrow> ('h \<Rightarrow> 'w)
    \<Rightarrow> ('w, 'r) StdQueryData \<Rightarrow> ('w, 'h) SamplingInput \<Rightarrow> 'f StdVocabulary \<Rightarrow> DecodingStrategyId \<Rightarrow> int
    \<Rightarrow> 'w::linordered_field IdWeight list" where
  "Std_token_pool exp_fn sort_desc to_float d input vocab strategy_id thread_count =
     (let config = qd_config d;
          max_queue_len = (if strategy_id \<noteq> DS_Greedy then min (sc_pool_size config) (int (CandidateCount input)) else 1);
          top_p = (if strategy_id = DS_StdSampling \<or> strategy_id = DS_TopP then sc_top_p config else 1);
          pool = SoftMax exp_fn sort_desc (GetSortedTopK to_float input vocab max_queue_len thread_count)
            (qo_temperature (qd_options d));
          top_k = min (int (length pool)) (sc_max_k config)
      in topp_topk_filter_on_sorted pool top_p top_k)"

definition Std_ChooseTokens :: "('w \<Rightarrow> 'w) \<Rightarrow> ('w IdWeight list \<Rightarrow> 'w IdWeight list) \<Rightarrow> ('r \<Rightarrow> 'w \<Rightarrow> 'w \<times> 'r) \<Rightarrow> ('h \<Rightarrow> 'w)
    \<Rightarrow> 'r \<Rightarrow> (int, ('w, 'r) StdQueryData) omap \<Rightarrow> ('w, 'h) SamplingInput \<Rightarrow> 'f StdVocabulary \<Rightarrow> DecodingStrategyId \<Rightarrow> int
    \<Rightarrow> 'w::linordered_field SamplingOutput \<times> (int, ('w, 'r) StdQueryData) omap" where
  "Std_ChooseTokens exp_fn sort_desc next_double to_float new_rng m input vocab strategy_id thread_count =
     (let (d, m1) = AddOrFindQueryData (new_StdQueryData new_rng) m (si_query_id input);
          token_pool = Std_token_pool exp_fn sort_desc to_float d input vocab strategy_id thread_count;
          (selected, rng') = RandomSampling next_double (qd_rng d) token_pool;
          flagged = (selected \<noteq> [] \<and> eos_item vocab (hd token_pool) \<and> \<not> eos_item vocab (hd selected));
          out = \<lparr>so_token_pool = token_pool, so_selected = selected, so_flag = (if flagged then 1 else 0),
                 so_flag_score = (if flagged then iw_weight (hd selected) else 0)\<rparr>;
          (out', d') = bypass_eos vocab (d\<lparr>qd_rng := rng'\<rparr>) out
      in (out', omap_put (si_query_id input) d' m1))"

section \<open>The binary search finds the range of the number\<close>

lemma length_range_bases [simp]: "length (range_bases items u) = length items"
  by (induction items arbitrary: u) simp_all

lemma range_bases_ge: "b \<in> set (range_bases items u) \<Longrightarrow> u \<le> b"
proof (induction items arbitrary: u)
  case (Cons x xs)
  then show ?case using add_increasing2 [of "max 0 (iw_weight x)" u u] by (fastforce intro: order_trans)
qed simp

lemma range_bases_sorted: "sorted (range_bases items u)"
proof (induction items arbitrary: u)
  case (Cons x xs)
  have "u \<le> b" if "b \<in> set (range_bases xs (u + max 0 (iw_weight x)))" for b
    using range_bases_ge [OF that] by (meson le_add_same_cancel1 max.cobounded1 order_trans)
  with Cons show ?case by simp
qed simp

lemma range_lookup_finds:
  assumes "sorted bases" "begin_idx \<le> end_idx" "end_idx < length bases" "bases ! begin_idx \<le> r"
    "end_idx + 1 < length bases \<Longrightarrow> r \<le> bases ! (end_idx + 1)" "begin_idx = end_idx \<Longrightarrow> mid = begin_idx"
  defines "m \<equiv> range_lookup bases r begin_idx end_idx mid"
  shows "m < length bases \<and> bases ! m \<le> r \<and> (m + 1 < length bases \<longrightarrow> r \<le> bases ! (m + 1))"
  using assms(1-6) unfolding m_def
proof (induction bases r begin_idx end_idx mid rule: range_lookup.induct)
  case (1 bases r i j mid)
  let ?m = "(j + i) div 2"
  show ?case
  proof (cases "i < j")
    case True
    then have m: "i \<le> ?m" "?m < j" by auto
    have le: "bases ! a \<le> bases ! b" if "a \<le> b" "b < length bases" for a b
      using "1.prems"(1) that by (rule sorted_nth_mono)
    consider "r < bases ! ?m" | "bases ! ?m \<le> r" "bases ! (?m + 1) < r" | "bases ! ?m \<le> r" "r \<le> bases ! (?m + 1)"
      by (meson not_le)
    then show ?thesis
    proof cases
      case lo: 1
      then have "r \<le> bases ! (?m + 1)" using le [of ?m "?m + 1"] m "1.prems"(3) by simp
      moreover have "range_lookup bases r i j mid = range_lookup bases r i ?m ?m"
        using lo True by (simp add: range_lookup.simps [of bases r i j mid] Let_def)
      ultimately show ?thesis using "1.IH"(1) [OF True refl lo] "1.prems" m by simp
    next
      case hi: 2
      then have "range_lookup bases r i j mid = range_lookup bases r (?m + 1) j (?m + 1)"
        using True by (auto simp: range_lookup.simps [of bases r i j mid] Let_def)
      then show ?thesis using "1.IH"(2) [OF True refl _ hi(2)] hi "1.prems" m by simp
    next
      case 3
      then have "range_lookup bases r i j mid = ?m"
        using True by (auto simp: range_lookup.simps [of bases r i j mid] Let_def)
      then show ?thesis using 3 "1.prems"(3) m by simp
    qed
  next
    case False
    then have "range_lookup bases r i j mid = mid" by (simp add: range_lookup.simps [of bases r i j mid] Let_def)
    then show ?thesis using False "1.prems" by auto
  qed
qed

lemma RandomSampling_range:
  assumes "items \<noteq> []" "0 \<le> fst (next_double rng (upper_bound_of items))"
  obtains m where "m < length items" "RandomSampling next_double rng items = ([items ! m], snd (next_double rng (upper_bound_of items)))"
    "range_bases items 0 ! m \<le> fst (next_double rng (upper_bound_of items))"
    "m + 1 < length items \<Longrightarrow> fst (next_double rng (upper_bound_of items)) \<le> range_bases items 0 ! (m + 1)"
proof -
  let ?r = "fst (next_double rng (upper_bound_of items))"
  have "range_bases items 0 ! 0 \<le> ?r" using assms by (cases items) auto
  with range_lookup_finds [OF range_bases_sorted, of 0 "length items - 1" items 0 ?r 0] assms(1)
  show ?thesis
    by (intro that [of "range_lookup (range_bases items 0) ?r 0 (length items - 1) 0"])
      (auto simp: RandomSampling_def case_prod_beta)
qed

section \<open>What is chosen\<close>

lemma topp_topk_loop_prefix:
  "\<exists>n. topp_topk_loop top_p top_k pool c acc = acc @ take n pool \<and> (pool \<noteq> [] \<longrightarrow> 0 < n)"
proof (induction pool arbitrary: c acc)
  case (Cons x xs)
  obtain n where n: "topp_topk_loop top_p top_k xs (c + iw_weight x) (acc @ [x]) = (acc @ [x]) @ take n xs"
    using Cons.IH by blast
  show ?case
  proof (cases "c + iw_weight x \<ge> top_p \<or> int (length (acc @ [x])) \<ge> top_k")
    case True
    then show ?thesis by (intro exI [of _ 1]) (auto simp: Let_def)
  next
    case False
    then show ?thesis using n by (intro exI [of _ "Suc n"]) (auto simp: Let_def)
  qed
qed simp

lemma filter_on_sorted:
  "set (topp_topk_filter_on_sorted pool top_p top_k) \<subseteq> set pool"
  "topp_topk_filter_on_sorted pool top_p top_k = [] \<longleftrightarrow> pool = []"
  using topp_topk_loop_prefix [of top_p top_k pool 0 "[]"]
  by (auto simp: topp_topk_filter_on_sorted_def dest: in_set_takeD)

lemma SoftMax_ids:
  assumes "\<And>xs. mset (sort_desc xs) = mset xs"
  shows "mset (map iw_id (SoftMax exp_fn sort_desc items t)) = mset (map iw_id items)"
proof (cases "items = []")
  case False
  then have "map iw_id (SoftMax exp_fn sort_desc items t) = map iw_id (sort_desc items)"
    by (simp add: SoftMax_def Let_def o_def)
  then have "mset (map iw_id (SoftMax exp_fn sort_desc items t)) = image_mset iw_id (mset (sort_desc items))"
    by (metis mset_map)
  then show ?thesis by (simp add: assms)
qed (simp add: SoftMax_def)

lemma token_pool_ids:
  assumes sort: "\<And>xs. mset (sort_desc xs) = mset xs"
    and item: "item \<in> set (Std_token_pool exp_fn sort_desc to_float d input vocab sid threads)"
  shows "iw_id item < CandidateCount input \<and> is_candidate vocab (iw_id item)"
proof -
  obtain k where "iw_id item \<in> iw_id ` set (SoftMax exp_fn sort_desc (GetSortedTopK to_float input vocab k threads)
      (qo_temperature (qd_options d)))"
    using item unfolding Std_token_pool_def Let_def using filter_on_sorted(1) by blast
  then have "iw_id item \<in> set (map iw_id (GetSortedTopK to_float input vocab k threads))"
    using mset_eq_setD [OF SoftMax_ids [OF sort]] by (metis list.set_map)
  then show ?thesis by (auto simp: GetSortedTopK_select tops_def)
qed

text \<open>Greedy decoding keeps the best candidate alone.\<close>

lemma greedy_pool:
  assumes sort: "\<And>xs. mset (sort_desc xs) = mset xs"
    and best: "best < CandidateCount input" "is_candidate vocab best"
      "\<And>i. i < CandidateCount input \<Longrightarrow> is_candidate vocab i \<Longrightarrow> i \<noteq> best \<Longrightarrow>
        IdWeight i (candidate_score to_float input i) < IdWeight best (candidate_score to_float input best)"
  shows "map iw_id (Std_token_pool exp_fn sort_desc to_float d input vocab DS_Greedy threads) = [best]"
proof -
  let ?item = "\<lambda>i. IdWeight i (candidate_score to_float input i)"
  let ?S = "?item ` {i. i < CandidateCount input \<and> is_candidate vocab i}"
  let ?pool = "SoftMax exp_fn sort_desc (GetSortedTopK to_float input vocab 1 threads) (qo_temperature (qd_options d))"
  have S: "finite ?S" "?item best \<in> ?S" using best by auto
  have "tops 1 ?S = {?item best}"
  proof (rule tops_eqI [OF S(1)])
    have "0 < card ?S" using S card_gt_0_iff by blast
    then show "card {?item best} = min 1 (card ?S)" by simp
    show "x < y" if "x \<in> ?S - {?item best}" "y \<in> {?item best}" for x y using that best(3) by auto
  qed (use S in simp)
  then have "GetSortedTopK to_float input vocab 1 threads = [?item best]" by (simp add: GetSortedTopK_select)
  then have "mset (map iw_id ?pool) = {#best#}" using SoftMax_ids [OF sort, of exp_fn "[?item best]"] by simp
  then obtain w where pool: "?pool = [IdWeight best w]"
    by (cases ?pool) (auto intro: IdWeight.expand simp: iw_id_def split: IdWeight.splits)
  have "topp_topk_filter_on_sorted [IdWeight best w] p k = [IdWeight best w]" for p k
    by (simp add: topp_topk_filter_on_sorted_def Let_def)
  then show ?thesis using pool by (simp add: Std_token_pool_def Let_def)
qed

lemma bypass_eos_selected:
  assumes "so_selected out = [item]" "item \<in> set (so_token_pool out)"
  shows "\<exists>item' \<in> set (so_token_pool out). so_selected (fst (bypass_eos vocab d out)) = [item']
      \<and> (so_token_pool (fst (bypass_eos vocab d out)) = so_token_pool out)
      \<and> (length (so_token_pool out) = 1 \<longrightarrow> item' = item)"
  using assms by (auto simp: bypass_eos_def Let_def find_Some_iff split: option.split)

lemma token_pool_nonempty:
  assumes sort: "\<And>xs. mset (sort_desc xs) = mset xs"
    and "i < CandidateCount input" "is_candidate vocab i" "sid = DS_Greedy \<or> 0 < sc_pool_size (qd_config d)"
  shows "Std_token_pool exp_fn sort_desc to_float d input vocab sid threads \<noteq> []"
proof -
  let ?k = "if sid \<noteq> DS_Greedy then min (sc_pool_size (qd_config d)) (int (CandidateCount input)) else 1"
  let ?S = "(\<lambda>idx. IdWeight idx (candidate_score to_float input idx)) ` {idx. idx < CandidateCount input \<and> is_candidate vocab idx}"
  have "finite ?S" "?S \<noteq> {}" using assms(2,3) by auto
  moreover have "0 < nat ?k" using assms(2,4) by auto
  ultimately have "0 < card (tops (nat ?k) ?S)" by (simp add: card_tops card_gt_0_iff)
  then have "tops (nat ?k) ?S \<noteq> {}" by (metis card.empty less_irrefl)
  then have "GetSortedTopK to_float input vocab ?k threads \<noteq> []"
    unfolding GetSortedTopK_select using \<open>finite ?S\<close> by simp
  then have "SoftMax exp_fn sort_desc (GetSortedTopK to_float input vocab ?k threads) t \<noteq> []" for t
    using SoftMax_ids [OF sort, of exp_fn "GetSortedTopK to_float input vocab ?k threads" t] by auto
  then show ?thesis by (simp add: Std_token_pool_def Let_def filter_on_sorted(2) del: not_less)
qed

lemma ChooseTokens_bypass:
  assumes "Std_ChooseTokens exp_fn sort_desc next_double to_float new_rng m input vocab sid threads = (out, m')"
  defines "d \<equiv> fst (AddOrFindQueryData (new_StdQueryData new_rng) m (si_query_id input))"
  defines "pool \<equiv> Std_token_pool exp_fn sort_desc to_float d input vocab sid threads"
  assumes "RandomSampling next_double (qd_rng d) pool = ([item], rng')"
  shows "\<exists>flag score. out = fst (bypass_eos vocab (d\<lparr>qd_rng := rng'\<rparr>)
      \<lparr>so_token_pool = pool, so_selected = [item], so_flag = flag, so_flag_score = score\<rparr>)"
proof -
  obtain d' m1 where d': "AddOrFindQueryData (new_StdQueryData new_rng) m (si_query_id input) = (d', m1)"
    by (meson surj_pair)
  then have "d = d'" by (simp add: d_def)
  let ?f = "eos_item vocab (hd pool) \<and> \<not> eos_item vocab item"
  have "fst (Std_ChooseTokens exp_fn sort_desc next_double to_float new_rng m input vocab sid threads)
      = fst (bypass_eos vocab (d\<lparr>qd_rng := rng'\<rparr>) \<lparr>so_token_pool = pool, so_selected = [item],
       so_flag = (if ?f then 1 else 0), so_flag_score = (if ?f then iw_weight item else 0)\<rparr>)"
    using assms(4) unfolding pool_def \<open>d = d'\<close> by (simp add: Std_ChooseTokens_def d' Let_def case_prod_beta)
  then show ?thesis using assms(1) by auto
qed

text \<open>
  The pool is the front part of the candidates in descending order of their scores. \<open>sort_desc\<close> is
  what the code relies on of \<open>std::sort\<close> with \<open>IdWeight::GreaterWeight\<close>.
\<close>

definition sorts_descending :: "('w::linorder IdWeight list \<Rightarrow> 'w IdWeight list) \<Rightarrow> bool" where
  "sorts_descending sort_desc \<longleftrightarrow> (\<forall>xs. mset (sort_desc xs) = mset xs \<and> sorted_wrt (\<lambda>a b. iw_weight a \<ge> iw_weight b) (sort_desc xs))"

lemma topp_topk_loop_length:
  "int (length (topp_topk_loop top_p top_k pool c acc)) \<le> max top_k (int (length acc) + 1)"
proof (induction pool arbitrary: c acc)
  case (Cons x xs)
  show ?case using Cons.IH [of "c + iw_weight x" "acc @ [x]"] by (auto simp: Let_def)
qed simp

lemma token_pool_front:
  assumes "sorts_descending sort_desc"
  shows "\<exists>n k. map iw_id (Std_token_pool exp_fn sort_desc to_float d input vocab sid threads)
    = take n (map iw_id (sort_desc (GetSortedTopK to_float input vocab k threads)))"
proof -
  let ?k = "if sid \<noteq> DS_Greedy then min (sc_pool_size (qd_config d)) (int (CandidateCount input)) else 1"
  let ?L = "GetSortedTopK to_float input vocab ?k threads"
  let ?pool = "SoftMax exp_fn sort_desc ?L (qo_temperature (qd_options d))"
  have "sort_desc [] = []" using assms by (metis mset_zero_iff sorts_descending_def mset.simps(1))
  then have ids: "map iw_id ?pool = map iw_id (sort_desc ?L)" by (simp add: SoftMax_def Let_def o_def)
  obtain n where "Std_token_pool exp_fn sort_desc to_float d input vocab sid threads = take n ?pool"
    using topp_topk_loop_prefix [where acc = "[]"] unfolding Std_token_pool_def topp_topk_filter_on_sorted_def Let_def
    by (metis append_Nil)
  then show ?thesis using ids by (metis take_map)
qed

lemma token_pool_order:
  assumes sort: "sorts_descending sort_desc"
    and pool: "pool = Std_token_pool exp_fn sort_desc to_float d input vocab sid threads"
  shows "sorted_wrt (\<lambda>a b. candidate_score to_float input (iw_id a) \<ge> candidate_score to_float input (iw_id b)) pool
    \<and> distinct (map iw_id pool)
    \<and> (\<forall>item \<in> set pool. \<forall>i < CandidateCount input. is_candidate vocab i \<longrightarrow> i \<notin> iw_id ` set pool \<longrightarrow>
        candidate_score to_float input i \<le> candidate_score to_float input (iw_id item))"
proof -
  let ?score = "candidate_score to_float input"
  let ?S = "(\<lambda>i. IdWeight i (?score i)) ` {i. i < CandidateCount input \<and> is_candidate vocab i}"
  obtain n k where front: "map iw_id pool = take n (map iw_id (sort_desc (GetSortedTopK to_float input vocab k threads)))"
    using token_pool_front [OF sort] unfolding pool by blast
  define L where "L = GetSortedTopK to_float input vocab k threads"
  define ids where "ids = map iw_id (sort_desc L)"
  have L: "set L = tops (nat k) ?S" "distinct L" by (simp_all add: L_def GetSortedTopK_select)
  have perm: "mset (sort_desc L) = mset L" and desc: "sorted_wrt (\<lambda>a b. iw_weight a \<ge> iw_weight b) (sort_desc L)"
    using sort by (simp_all add: sorts_descending_def)
  have "set (sort_desc L) \<subseteq> ?S" using mset_eq_setD [OF perm] L(1) tops_subset by metis
  then have weight: "iw_weight x = ?score (iw_id x)" if "x \<in> set (sort_desc L)" for x
    using that by auto
  have sorted: "sorted_wrt (\<lambda>i j. ?score i \<ge> ?score j) ids"
    unfolding ids_def sorted_wrt_map by (rule sorted_wrt_mono_rel [OF _ desc]) (simp add: weight)
  have "inj_on iw_id ?S" by (auto simp: inj_on_def)
  from inj_on_subset [OF this tops_subset] have "distinct (map iw_id L)" using L by (simp add: distinct_map)
  moreover have "mset ids = mset (map iw_id L)" by (simp add: ids_def perm)
  ultimately have dist: "distinct ids" using mset_eq_imp_distinct_iff by blast
  have "?score i \<le> ?score j" if "j \<in> set (take n ids)" "i < CandidateCount input" "is_candidate vocab i" "i \<notin> set (take n ids)" for i j
  proof (cases "i \<in> set ids")
    case True
    then have "i \<in> set (drop n ids)" using that(4) by (metis append_take_drop_id set_append Un_iff)
    then show ?thesis using sorted that(1) by (metis append_take_drop_id sorted_wrt_append)
  next
    case False
    have ids_set: "set ids = iw_id ` tops (nat k) ?S" using L(1) mset_eq_setD [OF perm] by (simp add: ids_def)
    have "j \<in> set ids" using that(1) by (rule in_set_takeD)
    then obtain x where x: "x \<in> tops (nat k) ?S" "iw_id x = j" unfolding ids_set by auto
    then have "x \<in> ?S" using tops_subset by blast
    then have "iw_weight x = ?score j" using x(2) by auto
    moreover have "IdWeight i (?score i) \<in> ?S - tops (nat k) ?S"
      using False that(2,3) unfolding ids_set by force
    then have "IdWeight i (?score i) < x" using tops_greater [of ?S] x(1) by simp
    ultimately show ?thesis by (auto simp: less_IdWeight_def LessWeight_def split: if_splits)
  qed
  moreover have "map iw_id pool = take n ids" using front unfolding L_def ids_def .
  moreover have "iw_id ` set pool = set (map iw_id pool)" by simp
  moreover have "sorted_wrt (\<lambda>i j. ?score i \<ge> ?score j) (map iw_id pool)" "distinct (map iw_id pool)"
    using sorted_wrt_take [OF sorted, of n] distinct_take [OF dist, of n] calculation(2) by simp_all
  ultimately show ?thesis unfolding sorted_wrt_map by (metis imageI)
qed

text \<open>
  C13. The standard strategy always chooses, and only valid tokens: when there is a valid
  candidate and the pool size is positive, exactly one token is selected, it comes from the token
  pool, and it is a candidate that is neither invalid nor the unknown token. With the greedy
  strategy it has the highest score of all candidates. The pool holds different valid tokens in
  descending order of their scores, no token with a better score is left out, and at most \<open>max_k\<close>
  tokens (one, if \<open>max_k\<close> is not positive).
\<close>

theorem Std_ChooseTokens_selects:
  assumes sort: "sorts_descending sort_desc"
    and draw: "\<And>r u. 0 \<le> fst (next_double r u)"
    and run: "Std_ChooseTokens exp_fn sort_desc next_double to_float new_rng m input vocab sid threads = (out, m')"
    and cand: "i0 < CandidateCount input" "is_candidate vocab i0"
    and size: "0 < sc_pool_size (qd_config (fst (AddOrFindQueryData (new_StdQueryData new_rng) m (si_query_id input))))"
  shows "(\<exists>item \<in> set (so_token_pool out). so_selected out = [item]
      \<and> iw_id item < CandidateCount input \<and> is_candidate vocab (iw_id item)
      \<and> (sid = DS_Greedy \<longrightarrow> (\<forall>i < CandidateCount input. is_candidate vocab i \<longrightarrow>
          candidate_score to_float input i \<le> candidate_score to_float input (iw_id item))))
    \<and> (\<forall>item \<in> set (so_token_pool out). iw_id item < CandidateCount input \<and> is_candidate vocab (iw_id item))
    \<and> distinct (map iw_id (so_token_pool out))
    \<and> sorted_wrt (\<lambda>a b. candidate_score to_float input (iw_id a) \<ge> candidate_score to_float input (iw_id b)) (so_token_pool out)
    \<and> (\<forall>item \<in> set (so_token_pool out). \<forall>i < CandidateCount input. is_candidate vocab i \<longrightarrow> i \<notin> iw_id ` set (so_token_pool out) \<longrightarrow>
        candidate_score to_float input i \<le> candidate_score to_float input (iw_id item))
    \<and> int (length (so_token_pool out))
        \<le> max 1 (sc_max_k (qd_config (fst (AddOrFindQueryData (new_StdQueryData new_rng) m (si_query_id input)))))"
proof -
  let ?d = "fst (AddOrFindQueryData (new_StdQueryData new_rng) m (si_query_id input))"
  let ?pool = "Std_token_pool exp_fn sort_desc to_float ?d input vocab sid threads"
  let ?item = "\<lambda>i. IdWeight i (candidate_score to_float input i)"
  let ?C = "{i. i < CandidateCount input \<and> is_candidate vocab i}"
  have perm: "\<And>xs. mset (sort_desc xs) = mset xs" using sort by (simp add: sorts_descending_def)
  have ne: "?pool \<noteq> []" using token_pool_nonempty [OF perm cand] size by blast
  obtain k where k: "k < length ?pool" "RandomSampling next_double (qd_rng ?d) ?pool
      = ([?pool ! k], snd (next_double (qd_rng ?d) (upper_bound_of ?pool)))"
    using RandomSampling_range [where next_double = next_double, OF ne] draw by metis
  let ?d1 = "?d\<lparr>qd_rng := snd (next_double (qd_rng ?d) (upper_bound_of ?pool))\<rparr>"
  obtain flag score where "out = fst (bypass_eos vocab ?d1
      \<lparr>so_token_pool = ?pool, so_selected = [?pool ! k], so_flag = flag, so_flag_score = score\<rparr>)"
    using ChooseTokens_bypass [OF run k(2)] by blast
  with bypass_eos_selected [of "\<lparr>so_token_pool = ?pool, so_selected = [?pool ! k], so_flag = flag, so_flag_score = score\<rparr>"
      "?pool ! k" vocab ?d1] k(1)
  obtain item where item: "item \<in> set ?pool" "so_selected out = [item]" "so_token_pool out = ?pool"
    by auto
  note ok = token_pool_ids [OF perm]
  have "candidate_score to_float input i \<le> candidate_score to_float input (iw_id item)"
    if "sid = DS_Greedy" "i < CandidateCount input" "is_candidate vocab i" for i
  proof -
    have C: "finite (?item ` ?C)" "?item ` ?C \<noteq> {}" using cand by auto
    then obtain b where b: "b \<in> ?C" "Max (?item ` ?C) = ?item b" using Max_in by blast
    have le: "?item j \<le> ?item b" if "j \<in> ?C" for j
      using that Max_ge [OF C(1), of "?item j"] b(2) by auto
    then have "?item j < ?item b" if "j \<in> ?C" "j \<noteq> b" for j
      using that by (metis IdWeight.inject order_le_imp_less_or_eq)
    then have "map iw_id ?pool = [b]"
      unfolding \<open>sid = DS_Greedy\<close> using b(1) by (intro greedy_pool perm) auto
    then have "iw_id item = b" using item(1) by auto
    moreover have "candidate_score to_float input i \<le> candidate_score to_float input b"
      using le [of i] that by (auto simp: less_eq_IdWeight_def LessWeight_def split: if_splits)
    ultimately show ?thesis by simp
  qed
  then have "\<exists>item \<in> set (so_token_pool out). so_selected out = [item]
      \<and> iw_id item < CandidateCount input \<and> is_candidate vocab (iw_id item)
      \<and> (sid = DS_Greedy \<longrightarrow> (\<forall>i < CandidateCount input. is_candidate vocab i \<longrightarrow>
          candidate_score to_float input i \<le> candidate_score to_float input (iw_id item)))"
    using item ok [OF item(1)] by auto
  moreover have "int (length ?pool) \<le> max 1 (sc_max_k (qd_config ?d))"
    unfolding Std_token_pool_def Let_def topp_topk_filter_on_sorted_def
    by (rule order_trans [OF topp_topk_loop_length]) auto
  ultimately show ?thesis
    using token_pool_order [OF sort refl [of ?pool]] ok unfolding item(3) by blast
qed

definition three_vocab :: "unit StdVocabulary" where
  "three_vocab = new_StdVocabulary\<lparr>token_array :=
     map (\<lambda>i. \<lparr>tk_id = i, tk_str = [], tk_score = (), tk_type = 1\<rparr>) [0, 1, 2]\<rparr>"

definition three_scores :: "(rat, rat) SamplingInput" where
  "three_scores = \<lparr>si_query_id = 1, si_prefix = None, si_cur_tokens = None, si_candidates = [7, 3, 5],
     si_candidates_fp16 = []\<rparr>"

theorem Std_ChooseTokens_selects_witness:
  "\<exists>item. so_selected (fst (Std_ChooseTokens (\<lambda>x. 1 / (1 - x)) (\<lambda>xs. rev (sort xs)) (\<lambda>r u. (0, r)) id ()
      [] three_scores three_vocab DS_Greedy 4)) = [item] \<and> iw_id item = 2"
proof -
  have cand: "is_candidate three_vocab i \<longleftrightarrow> i = 1 \<or> i = 2" for i
    by (auto simp: three_vocab_def is_candidate_def new_StdVocabulary_def TokenType_Invalid_def less_Suc_eq)
  have score: "candidate_score id three_scores 1 = 3" "candidate_score id three_scores 2 = 5" "CandidateCount three_scores = 3"
    by (simp_all add: three_scores_def candidate_score_def CandidateCount_def)
  let ?run = "Std_ChooseTokens (\<lambda>x. 1 / (1 - x)) (\<lambda>xs. rev (sort xs)) (\<lambda>r u. (0, r)) id () [] three_scores three_vocab DS_Greedy 4"
  obtain out m' where run: "?run = (out, m')" by (meson surj_pair)
  have size: "0 < sc_pool_size (qd_config (fst (AddOrFindQueryData (new_StdQueryData () :: (rat, unit) StdQueryData) []
      (si_query_id three_scores))))"
    by (simp add: AddOrFindQueryData_def new_StdQueryData_def default_StdConfig_def)
  have "sorted_wrt (\<lambda>a b. iw_weight a \<ge> iw_weight b) (rev (sort xs))" for xs :: "rat IdWeight list"
    unfolding sorted_wrt_rev by (rule sorted_wrt_mono_rel [rotated, OF sorted_sort])
      (auto simp: less_eq_IdWeight_def LessWeight_def split: if_splits)
  then have "sorts_descending (\<lambda>xs :: rat IdWeight list. rev (sort xs))" by (simp add: sorts_descending_def)
  from Std_ChooseTokens_selects [OF this _ run, of 2] size cand [of 2] score(3)
  obtain item where item: "so_selected out = [item]" "is_candidate three_vocab (iw_id item)"
    "\<forall>i < 3. is_candidate three_vocab i \<longrightarrow> candidate_score id three_scores i \<le> candidate_score id three_scores (iw_id item)"
    by auto
  from item(3) cand [of 2] have "candidate_score id three_scores 2 \<le> candidate_score id three_scores (iw_id item)" by simp
  then have "iw_id item = 2" using item(2) score unfolding cand by auto
  then show ?thesis using run item(1) by simp
qed

text \<open>
  The strategy chosen by default does not apply the configured \<open>top_p\<close>: a query with the id
  \<open>Auto\<close> is served by the standard sampling strategy, but is sampled as top-k.
\<close>

lemma Auto_ignores_top_p:
  "DecodingStrategies_Get DS_Auto = DecodingStrategies_Get DS_StdSampling
   \<and> Std_ChooseTokens exp_fn sort_desc next_double to_float new_rng m input vocab DS_Auto threads
     = Std_ChooseTokens exp_fn sort_desc next_double to_float new_rng m input vocab DS_TopK threads"
  by (simp add: DecodingStrategies_Get_def Std_ChooseTokens_def Std_token_pool_def)

end
