(* ===== verification/Engine.thy ===== *)
theory Engine
  imports QueryTable EngineInput Sampling
begin

text \<open>
  The inference engine (src/src/transformer/inference_engine.h and .cc): admission of queries, the
  batch of a round, the rounds themselves, and the commit of their results. The mutex of the query
  table is held for every access, so an operation is one step on the engine state. The forward
  pass of the network is a parameter (\<open>forward\<close>, from the batch to the output tensor), as is the
  sampling of a row of it where only the token matters (\<open>sample\<close>).
\<close>

section \<open>State\<close>

text \<open>
  Of the data per query that the strategies keep, the engine state holds the options, per strategy
  object and query id.
\<close>

record ('f, 't, 'w) Engine =
  en_model :: "'f TransformerModel"
  en_models :: "ModelSpec list"
  en_tokenizer :: "'f TextTokenizer"
  en_max_concurrent_queries :: int
  en_table :: "'t QueryStateTable"
  en_query_data :: "StrategyObject \<Rightarrow> (int, 'w QueryOptions) omap"

section \<open>Initialisation\<close>

text \<open>
  The limits that \<open>Init\<close> sets: the number of concurrent queries (bounded by the number of cache
  slots, and by 3 when the CPU takes part) and the length of the context.
\<close>

definition Init_is_cpu_only :: "bool \<Rightarrow> ModelSpec \<Rightarrow> bool" where
  "Init_is_cpu_only use_cuda spec =
     (if use_cuda then ms_decoder_cpu_layer_count spec \<ge> hp_decoder_layers (ms_hyper_params spec)
        \<and> ms_encoder_cpu_layer_count spec \<ge> hp_encoder_layers (ms_hyper_params spec)
      else True)"

definition Init_is_cpu_involved :: "bool \<Rightarrow> ModelSpec \<Rightarrow> bool" where
  "Init_is_cpu_involved use_cuda spec =
     (let cpu_only = Init_is_cpu_only use_cuda spec;
          encoder_cpu_layer_count = (if cpu_only then hp_encoder_layers (ms_hyper_params spec) else ms_encoder_cpu_layer_count spec);
          decoder_cpu_layer_count = (if cpu_only then hp_decoder_layers (ms_hyper_params spec) else ms_decoder_cpu_layer_count spec)
      in decoder_cpu_layer_count > 0 \<or> encoder_cpu_layer_count > 0)"

definition Init_max_context_len :: "ModelSpec \<Rightarrow> ModelSpec" where
  "Init_max_context_len spec =
     (if ms_max_context_len spec \<le> 0 \<and> hp_training_context_len (ms_hyper_params spec) > 0
      then spec\<lparr>ms_max_context_len := hp_training_context_len (ms_hyper_params spec)\<rparr>
      else if ms_max_context_len spec \<le> 16 then spec\<lparr>ms_max_context_len := DEFAULT_MAX_CONTEXT_LEN\<rparr>
      else spec)"

definition Init_max_concurrent_queries :: "bool \<Rightarrow> ModelSpec \<Rightarrow> int \<Rightarrow> int" where
  "Init_max_concurrent_queries use_cuda spec cfg_max =
     (let m = min cfg_max (1 + int MAX_PROC_ID)
      in if Init_is_cpu_involved use_cuda spec then min 3 m else m)"

text \<open>
  \<open>Init\<close> on the state of this model: it fails without a model and for CPU layers of a network that
  is not decoder-only. \<open>load\<close> stands for reading the model files, \<open>None\<close> when that fails, and
  \<open>build\<close> for those later steps (building and checking the host and the device network, creating the
  CPU worker) whose failure makes \<open>Init\<close> fail.
\<close>

definition Engine_Init :: "bool \<Rightarrow> (ModelSpec \<Rightarrow> 'f TransformerModel option) \<Rightarrow> ('f TransformerModel \<Rightarrow> 'f TextTokenizer)
    \<Rightarrow> ('f TransformerModel \<Rightarrow> bool) \<Rightarrow> ModelSpec list \<Rightarrow> int \<Rightarrow> ('f, 't, 'w) Engine option" where
  "Engine_Init use_cuda load init_tokenizer build models cfg_max =
     (if models = [] then None
      else case load (hd models) of
        None \<Rightarrow> None
      | Some tm0 \<Rightarrow>
          let spec = Init_max_context_len (tm_spec tm0);
              tm = tm0\<lparr>tm_spec := spec\<rparr>
          in if \<not> build tm \<or> Init_is_cpu_involved use_cuda spec \<and> \<not> IsDecoderOnlyTransformer (ms_network_structure spec) then None
             else Some \<lparr>en_model = tm, en_models = models, en_tokenizer = init_tokenizer tm,
               en_max_concurrent_queries = Init_max_concurrent_queries use_cuda spec cfg_max,
               en_table = new_QueryStateTable, en_query_data = (\<lambda>_. [])\<rparr>)"

definition GetDefaultDevice :: "ModelSpec \<Rightarrow> int" where
  "GetDefaultDevice spec =
     (if ms_device_groups spec \<noteq> [] \<and> last (ms_device_groups spec) \<noteq> [] then last (last (ms_device_groups spec)) else 0)"

section \<open>Admission\<close>

definition net_type :: "('f, 't, 'w) Engine \<Rightarrow> NetworkType" where
  "net_type eng = ms_network_structure (tm_spec (en_model eng))"

definition GetSamplingStrategy :: "DecodingStrategyId \<Rightarrow> StrategyObject option" where
  "GetSamplingStrategy sid = DecodingStrategies_Get sid"

definition GetSamplingStrategyId :: "('f, 't, 'w) Engine \<Rightarrow> string \<Rightarrow> DecodingStrategyId" where
  "GetSamplingStrategyId eng str =
     DecodingStrategies_GetId (if str = [] then ms_decoding_strategy (tm_spec (en_model eng)) else str)"

definition BeginQuery :: "(int, 'w QueryOptions) omap \<Rightarrow> int \<Rightarrow> 'w QueryOptions \<Rightarrow> (int, 'w::one QueryOptions) omap" where
  "BeginQuery m query_id opt =
     (let (d, m1) = AddOrFindQueryData default_QueryOptions m query_id in omap_put query_id opt m1)"

definition AddQuery_tokens :: "('f, 't, 'w::one) Engine \<Rightarrow> int list \<Rightarrow> int list \<Rightarrow> 'w QueryOptions
    \<Rightarrow> int \<times> ('f, 't, 'w) Engine" where
  "AddQuery_tokens eng encoder_input_tokens decoder_prefix_tokens opts =
     (if decoder_prefix_tokens = [] \<and> \<not> IsEncoderOnlyTransformer (net_type eng) then (-1, eng)
      else if QST_Size (en_table eng) < en_max_concurrent_queries eng then
        let (query_id, t) = QST_Add (en_table eng) encoder_input_tokens decoder_prefix_tokens
              (tm_spec (en_model eng)) (DecodingStrategyId_value (qo_strategy_id opts)) (qo_max_output_tokens opts);
            data = (case GetSamplingStrategy (qo_strategy_id opts) of
                      None \<Rightarrow> en_query_data eng
                    | Some obj \<Rightarrow> (en_query_data eng)(obj := BeginQuery (en_query_data eng obj) query_id opts))
        in (query_id, eng\<lparr>en_table := t, en_query_data := data\<rparr>)
      else (0, eng))"

definition section_tokens :: "(string \<Rightarrow> int list option) \<Rightarrow> DecoderPrefixSection \<Rightarrow> int list option" where
  "section_tokens tokenize sec =
     (if sec_is_text sec then tokenize (sec_text sec)
      else Some (if sec_token_id sec \<ge> 0 then [sec_token_id sec] else []))"

fun concat_options :: "'a list option list \<Rightarrow> 'a list option" where
  "concat_options [] = Some []"
| "concat_options (x # xs) = do { a \<leftarrow> x; b \<leftarrow> concat_options xs; Some (a @ b) }"

text \<open>
  \<open>AddQuery\<close> on text: the result is the query id, the two token lists and the engine. \<open>None\<close> is an
  undefined access in the tokenizer (see there).
\<close>

definition AddQuery :: "('f::linorder Bigram list \<Rightarrow> nat) \<Rightarrow> (int \<Rightarrow> 'f) \<Rightarrow> ('f, 't, 'w::one) Engine \<Rightarrow> EncoderInput
    \<Rightarrow> DecoderPrefix \<Rightarrow> 'w QueryOptions \<Rightarrow> TokenizationAlg
    \<Rightarrow> (int \<times> int list \<times> int list \<times> ('f, 't, 'w) Engine) option" where
  "AddQuery pq_top inv_score eng encoder_input decoder_prefix opts alg =
     (let tokenize = (\<lambda>s. EngineTokenize pq_top inv_score (en_model eng) (en_tokenizer eng) s False alg)
      in if QST_Size (en_table eng) \<ge> en_max_concurrent_queries eng then Some (0, [], [], eng)
         else do {
           core \<leftarrow> if ei_core_text encoder_input \<noteq> [] then tokenize (ei_core_text encoder_input) else Some [];
           let encoder_input_tokens = ei_prefix_tokens encoder_input @ core @ ei_suffix_tokens encoder_input;
           sections \<leftarrow> concat_options (map (section_tokens tokenize) (dp_sections decoder_prefix));
           res_prefix \<leftarrow> tokenize (dp_res_prefix decoder_prefix);
           let decoder_prefix_tokens = sections @ res_prefix;
           let (query_id, eng') = AddQuery_tokens eng encoder_input_tokens decoder_prefix_tokens opts;
           Some (query_id, encoder_input_tokens, decoder_prefix_tokens, eng')
         })"

definition AddQuery_count :: "int list \<Rightarrow> int list \<Rightarrow> nat" where
  "AddQuery_count encoder_input_tokens decoder_prefix_tokens =
     (if encoder_input_tokens = [] then length decoder_prefix_tokens else length encoder_input_tokens)"

definition RemoveQuery :: "('f, 't, 'w) Engine \<Rightarrow> int \<Rightarrow> bool \<times> ('f, 't, 'w) Engine" where
  "RemoveQuery eng query_id = (let (ret, t) = QST_Remove (en_table eng) query_id in (ret, eng\<lparr>en_table := t\<rparr>))"

definition QueryCount :: "('f, 't, 'w) Engine \<Rightarrow> int" where
  "QueryCount eng = QST_Size (en_table eng)"

section \<open>Commit\<close>

definition end_query_data :: "('f, 't, 'w) Engine \<Rightarrow> int \<Rightarrow> ('f, 't, 'w) Engine" where
  "end_query_data eng query_id =
     (case GetQueryState (en_table eng) query_id of
        None \<Rightarrow> eng
      | Some q \<Rightarrow>
          (case Option.bind (DecodingStrategyId_of (qs_sampling_strategy q)) GetSamplingStrategy of
             None \<Rightarrow> eng
           | Some obj \<Rightarrow> eng\<lparr>en_query_data := (en_query_data eng)(obj := EndQuery (en_query_data eng obj) query_id)\<rparr>))"

definition commit_one :: "('f, 't, 'w) Engine \<Rightarrow> int \<Rightarrow> int \<Rightarrow> bool \<Rightarrow> bool \<times> ('f, 't, 'w) Engine" where
  "commit_one eng query_id tok is_end =
     (let eng1 = (if is_end then end_query_data eng query_id else eng);
          (is_succ, t) = QST_Update (en_table eng1) query_id tok is_end
      in (is_succ, eng1\<lparr>en_table := t\<rparr>))"

definition CommitInferenceResult :: "('f, 't, 'w) Engine \<Rightarrow> (int, int \<times> bool) omap \<Rightarrow> bool \<times> ('f, 't, 'w) Engine" where
  "CommitInferenceResult eng qmap =
     fold (\<lambda>(query_id, tok, is_end) (ret, eng).
         let (is_succ, eng') = commit_one eng query_id tok is_end in (ret \<and> is_succ, eng'))
       qmap (True, eng)"

section \<open>Token strings\<close>

definition TokenIdToStr :: "('f, 't, 'w) Engine \<Rightarrow> int \<Rightarrow> bool \<Rightarrow> string" where
  "TokenIdToStr eng i enable_decoding = IdToStr (tm_vocabulary (en_model eng)) i enable_decoding"

definition TokenStrToId :: "('f, 't, 'w) Engine \<Rightarrow> string \<Rightarrow> int" where
  "TokenStrToId eng str = StrToId (tm_vocabulary (en_model eng)) str"

definition output_vocab :: "('f, 't, 'w) Engine \<Rightarrow> 'f StdVocabulary" where
  "output_vocab eng = (if Vocab_Size (tm_output_vocabulary (en_model eng)) > 0
     then tm_output_vocabulary (en_model eng) else tm_vocabulary (en_model eng))"

definition OutputTokenIdToStr :: "('f, 't, 'w) Engine \<Rightarrow> int \<Rightarrow> bool \<Rightarrow> string" where
  "OutputTokenIdToStr eng i enable_decoding = IdToStr (output_vocab eng) i enable_decoding"

definition OutputTokenStrToId :: "('f, 't, 'w) Engine \<Rightarrow> string \<Rightarrow> int" where
  "OutputTokenStrToId eng str = StrToId (output_vocab eng) str"

section \<open>Invariant\<close>

text \<open>The data that the strategy of a live query keeps for it.\<close>

definition registered :: "('f, 't, 'w) Engine \<Rightarrow> int \<Rightarrow> 't QueryState \<Rightarrow> bool" where
  "registered eng k q \<longleftrightarrow>
     (case Option.bind (DecodingStrategyId_of (qs_sampling_strategy q)) GetSamplingStrategy of
        None \<Rightarrow> False
      | Some obj \<Rightarrow> omap_find (en_query_data eng obj) k \<noteq> None)"

definition engine_ok :: "('f, 't, 'w) Engine \<Rightarrow> bool" where
  "engine_ok eng \<longleftrightarrow> table_ok (en_table eng)
     \<and> en_max_concurrent_queries eng \<le> 1 + int MAX_PROC_ID
     \<and> (\<forall>p \<in> set (query_map (en_table eng)). registered eng (fst p) (snd p))"

lemma engine_okD:
  assumes "engine_ok eng"
  shows "table_ok (en_table eng)" "en_max_concurrent_queries eng \<le> 1 + int MAX_PROC_ID"
    "omap_find (query_map (en_table eng)) k = Some q \<Longrightarrow> registered eng k q"
  using assms omap_find_in_set [of "query_map (en_table eng)" k q]
  by (auto simp: engine_ok_def table_ok_def)

lemma engine_ok_I:
  assumes "table_ok (en_table eng)" "en_max_concurrent_queries eng \<le> 1 + int MAX_PROC_ID"
    "\<And>k q. omap_find (query_map (en_table eng)) k = Some q \<Longrightarrow> registered eng k q"
  shows "engine_ok eng"
  using assms omap_find_in_set by (fastforce simp: engine_ok_def table_ok_def)

lemma engine_ok_Init:
  assumes "Engine_Init use_cuda load init_tokenizer build models cfg_max = Some eng"
  shows "engine_ok eng" "en_table eng = new_QueryStateTable"
  using assms by (auto simp: Engine_Init_def Let_def Init_max_concurrent_queries_def engine_ok_def
      new_QueryStateTable_def [of] split: if_splits option.splits) (simp_all add: table_ok_new [unfolded new_QueryStateTable_def])

lemma QST_Add_state:
  assumes "table_ok t" "length (query_map t) \<noteq> Suc MAX_PROC_ID"
  shows "\<exists>q. QST_Add t enc dec spec strat mx = (next_query_id t,
      t\<lparr>query_map := omap_put (next_query_id t) q (query_map t),
        next_query_id := (if next_query_id t < MAX_QUERY_ID then next_query_id t + 1 else 1)\<rparr>)
    \<and> qs_sampling_strategy q = strat \<and> qs_max_output_tokens q = mx \<and> history q = dec"
proof -
  have "FindFreeProcId t \<noteq> -1" using FindFreeProcId_full [OF assms(1)] assms(2) by simp
  then have "\<not> (FindFreeProcId t < 0 \<or> FindFreeProcId t > int MAX_PROC_ID)"
    using FindFreeProcId_range [OF assms(1)] by fastforce
  then show ?thesis by (auto simp: QST_Add_def Let_def new_QueryState_def history_def)
qed

lemma BeginQuery_find: "omap_find (BeginQuery m k opt) j = (if j = k then Some opt else omap_find m j)"
  by (auto simp: BeginQuery_def AddOrFindQueryData_def omap_find_put split: option.splits)

lemma EndQuery_find: "j \<noteq> k \<Longrightarrow> omap_find (EndQuery m k) j = omap_find m j"
  by (auto simp: EndQuery_def omap_find_erase split: option.splits)

text \<open>Admission while there is room.\<close>

lemma AddQuery_tokens_room:
  assumes ok: "engine_ok eng" and dec: "dec \<noteq> [] \<or> IsEncoderOnlyTransformer (net_type eng)"
    and room: "QST_Size (en_table eng) < en_max_concurrent_queries eng"
  shows "\<exists>q obj. GetSamplingStrategy (qo_strategy_id opts) = Some obj
    \<and> qs_sampling_strategy q = DecodingStrategyId_value (qo_strategy_id opts) \<and> history q = dec
    \<and> AddQuery_tokens eng enc dec opts = (next_query_id (en_table eng),
      eng\<lparr>en_table := (en_table eng)\<lparr>query_map := omap_put (next_query_id (en_table eng)) q (query_map (en_table eng)),
            next_query_id := (if next_query_id (en_table eng) < MAX_QUERY_ID then next_query_id (en_table eng) + 1 else 1)\<rparr>,
          en_query_data := (en_query_data eng)(obj := BeginQuery (en_query_data eng obj) (next_query_id (en_table eng)) opts)\<rparr>)"
proof -
  have "length (query_map (en_table eng)) \<noteq> Suc MAX_PROC_ID"
    using room engine_okD(2) [OF ok] by (simp add: QST_Size_def)
  from QST_Add_state [OF engine_okD(1) [OF ok] this, of enc dec "tm_spec (en_model eng)"
      "DecodingStrategyId_value (qo_strategy_id opts)" "qo_max_output_tokens opts"]
  obtain q where q: "QST_Add (en_table eng) enc dec (tm_spec (en_model eng))
      (DecodingStrategyId_value (qo_strategy_id opts)) (qo_max_output_tokens opts) = (next_query_id (en_table eng),
      (en_table eng)\<lparr>query_map := omap_put (next_query_id (en_table eng)) q (query_map (en_table eng)),
        next_query_id := (if next_query_id (en_table eng) < MAX_QUERY_ID then next_query_id (en_table eng) + 1 else 1)\<rparr>)"
    "qs_sampling_strategy q = DecodingStrategyId_value (qo_strategy_id opts)" "history q = dec" by blast
  obtain obj where obj: "GetSamplingStrategy (qo_strategy_id opts) = Some obj"
    using Get_total by (auto simp: GetSamplingStrategy_def)
  show ?thesis using assms(2,3) q obj
    by (intro exI [of _ q] exI [of _ obj]) (auto simp: AddQuery_tokens_def Let_def)
qed

lemma engine_ok_AddQuery_tokens:
  assumes ok: "engine_ok eng"
  shows "engine_ok (snd (AddQuery_tokens eng enc dec opts))"
proof (cases "(dec = [] \<and> \<not> IsEncoderOnlyTransformer (net_type eng)) \<or> \<not> QST_Size (en_table eng) < en_max_concurrent_queries eng")
  case True
  then show ?thesis using ok by (auto simp: AddQuery_tokens_def)
next
  case False
  let ?n = "next_query_id (en_table eng)"
  from False AddQuery_tokens_room [OF ok, of dec opts enc] obtain q obj where
    obj: "GetSamplingStrategy (qo_strategy_id opts) = Some obj"
    and q: "qs_sampling_strategy q = DecodingStrategyId_value (qo_strategy_id opts)"
    and add: "AddQuery_tokens eng enc dec opts = (?n,
      eng\<lparr>en_table := (en_table eng)\<lparr>query_map := omap_put ?n q (query_map (en_table eng)),
            next_query_id := (if ?n < MAX_QUERY_ID then ?n + 1 else 1)\<rparr>,
          en_query_data := (en_query_data eng)(obj := BeginQuery (en_query_data eng obj) ?n opts)\<rparr>)" by auto
  have "en_table (snd (AddQuery_tokens eng enc dec opts)) = snd (QST_Add (en_table eng) enc dec (tm_spec (en_model eng))
      (DecodingStrategyId_value (qo_strategy_id opts)) (qo_max_output_tokens opts))"
    using False by (auto simp: AddQuery_tokens_def Let_def split_beta)
  then have t: "table_ok (en_table (snd (AddQuery_tokens eng enc dec opts)))"
    using table_ok_Add [OF engine_okD(1) [OF ok]] by simp
  show ?thesis
  proof (rule engine_ok_I [OF t])
    show "registered (snd (AddQuery_tokens eng enc dec opts)) k q'"
      if "omap_find (query_map (en_table (snd (AddQuery_tokens eng enc dec opts)))) k = Some q'" for k q'
    proof (cases "k = ?n")
      case True
      then show ?thesis using that obj q by (simp add: add omap_find_put registered_def BeginQuery_find)
    next
      case False
      then have "registered eng k q'" using that engine_okD(3) [OF ok] by (simp add: add omap_find_put)
      then show ?thesis using False by (auto simp: add registered_def BeginQuery_find split: option.splits)
    qed
  qed (use engine_okD(2) [OF ok] add in simp)
qed

lemma engine_ok_RemoveQuery:
  assumes "engine_ok eng"
  shows "engine_ok (snd (RemoveQuery eng k))"
proof (rule engine_ok_I)
  show "table_ok (en_table (snd (RemoveQuery eng k)))"
    using table_ok_Remove [OF engine_okD(1) [OF assms]] by (simp add: RemoveQuery_def split_beta)
  show "registered (snd (RemoveQuery eng k)) j q"
    if "omap_find (query_map (en_table (snd (RemoveQuery eng k)))) j = Some q" for j q
    using that engine_okD(3) [OF assms, of j q]
    by (auto simp: RemoveQuery_def split_beta QST_Remove_def omap_find_erase registered_def split: option.splits if_splits)
qed (use engine_okD(2) [OF assms] in \<open>simp add: RemoveQuery_def split_beta\<close>)

lemma end_query_data_simps [simp]:
  "en_table (end_query_data eng k) = en_table eng" "en_model (end_query_data eng k) = en_model eng"
  "en_max_concurrent_queries (end_query_data eng k) = en_max_concurrent_queries eng"
  by (auto simp: end_query_data_def split: option.splits)

lemma commit_one_table: 
  "fst (commit_one eng k tok e) = fst (QST_Update (en_table eng) k tok e)"
  "en_table (snd (commit_one eng k tok e)) = snd (QST_Update (en_table eng) k tok e)"
  "en_model (snd (commit_one eng k tok e)) = en_model eng"
  "en_max_concurrent_queries (snd (commit_one eng k tok e)) = en_max_concurrent_queries eng"
  by (auto simp: commit_one_def Let_def split_beta)

lemma QST_Update_find:
  assumes "table_ok t"
  shows "omap_find (query_map (snd (QST_Update t k tok e))) j =
    (if j = k then (if e then None else map_option (\<lambda>q. q\<lparr>qs_prefix_tokens := qs_prefix_tokens q @ qs_decoder_tokens q,
         qs_prefix_len := int (length (qs_prefix_tokens q @ qs_decoder_tokens q)), qs_decoder_tokens := [tok]\<rparr>)
       (omap_find (query_map t) k))
     else omap_find (query_map t) j)"
  using table_okD(1) [OF assms]
  by (auto simp: QST_Update_def QST_Remove_def Let_def omap_find_put omap_find_erase omap_ok_put split: option.splits)

lemma engine_ok_commit_one:
  assumes "engine_ok eng"
  shows "engine_ok (snd (commit_one eng k tok e))"
proof (rule engine_ok_I)
  note t = engine_okD(1) [OF assms]
  show "table_ok (en_table (snd (commit_one eng k tok e)))" by (simp add: commit_one_table table_ok_Update [OF t])
  show "registered (snd (commit_one eng k tok e)) j q"
    if found: "omap_find (query_map (en_table (snd (commit_one eng k tok e)))) j = Some q" for j q
  proof -
    obtain q0 where q0: "omap_find (query_map (en_table eng)) j = Some q0"
      "qs_sampling_strategy q = qs_sampling_strategy q0" "j = k \<Longrightarrow> \<not> e"
      using found by (auto simp: commit_one_table QST_Update_find [OF t] split: if_splits)
    have "en_query_data (snd (commit_one eng k tok e)) = en_query_data (if e then end_query_data eng k else eng)"
      by (simp add: commit_one_def Let_def split_beta)
    moreover have "omap_find (en_query_data (end_query_data eng k) obj) j = omap_find (en_query_data eng obj) j" if "j \<noteq> k" for obj
      using that by (auto simp: end_query_data_def EndQuery_find split: option.splits)
    ultimately show ?thesis using engine_okD(3) [OF assms q0(1)] q0(2,3)
      by (cases "e \<and> j \<noteq> k") (auto simp: registered_def split: option.splits)
  qed
qed (use engine_okD(2) [OF assms] in \<open>simp add: commit_one_table\<close>)

text \<open>The commit as a run of updates.\<close>

lemma Commit_run:
  "fst (CommitInferenceResult eng qmap) = fst (run_updates QST_Update (en_table eng) qmap)
   \<and> en_table (snd (CommitInferenceResult eng qmap)) = snd (run_updates QST_Update (en_table eng) qmap)
   \<and> en_model (snd (CommitInferenceResult eng qmap)) = en_model eng
   \<and> en_max_concurrent_queries (snd (CommitInferenceResult eng qmap)) = en_max_concurrent_queries eng"
proof -
  let ?f = "\<lambda>(query_id, tok, is_end) (ret, eng).
         let (is_succ, eng') = commit_one eng query_id tok is_end in (ret \<and> is_succ, eng')"
  have "fst (fold ?f qmap (b, eng)) = (b \<and> fst (run_updates QST_Update (en_table eng) qmap))
     \<and> en_table (snd (fold ?f qmap (b, eng))) = snd (run_updates QST_Update (en_table eng) qmap)
     \<and> en_model (snd (fold ?f qmap (b, eng))) = en_model eng
     \<and> en_max_concurrent_queries (snd (fold ?f qmap (b, eng))) = en_max_concurrent_queries eng" for b
  proof (induction qmap arbitrary: b eng)
    case (Cons x qmap)
    obtain k tok e where x: "x = (k, tok, e)" by (cases x)
    show ?case using Cons [of "b \<and> fst (commit_one eng k tok e)" "snd (commit_one eng k tok e)"]
      by (auto simp: x Let_def split_beta commit_one_table)
  qed simp
  then show ?thesis by (simp add: CommitInferenceResult_def)
qed

lemma engine_ok_Commit:
  assumes "engine_ok eng"
  shows "engine_ok (snd (CommitInferenceResult eng qmap))"
proof -
  let ?f = "\<lambda>(query_id, tok, is_end) (ret, eng).
         let (is_succ, eng') = commit_one eng query_id tok is_end in (ret \<and> is_succ, eng')"
  have "engine_ok (snd (fold ?f qmap (b, eng)))" for b
    using assms
  proof (induction qmap arbitrary: b eng)
    case (Cons x qmap)
    obtain k tok e where x: "x = (k, tok, e)" by (cases x)
    show ?case using Cons.IH [OF engine_ok_commit_one [OF Cons.prems]] by (simp add: x Let_def split_beta)
  qed simp
  then show ?thesis by (simp add: CommitInferenceResult_def)
qed

section \<open>Reachable engines\<close>

definition engine_encoder_end :: "('o \<Rightarrow> int \<Rightarrow> int \<Rightarrow> 't) \<Rightarrow> ('f, 't, 'w) Engine \<Rightarrow> int \<Rightarrow> 'o \<Rightarrow> int \<Rightarrow> int
    \<Rightarrow> ('f, 't, 'w) Engine" where
  "engine_encoder_end copy_rows eng k out start_row row_num =
     eng\<lparr>en_table := snd (QST_UpdateEncoderEnd copy_rows (en_table eng) k out start_row row_num)\<rparr>"

lemma engine_ok_encoder_end:
  assumes "engine_ok eng"
  shows "engine_ok (engine_encoder_end copy_rows eng k out r n)"
proof (rule engine_ok_I)
  show "table_ok (en_table (engine_encoder_end copy_rows eng k out r n))"
    using table_ok_UpdateEncoderEnd [OF engine_okD(1) [OF assms]] by (simp add: engine_encoder_end_def)
  show "registered (engine_encoder_end copy_rows eng k out r n) j q"
    if found: "omap_find (query_map (en_table (engine_encoder_end copy_rows eng k out r n))) j = Some q" for j q
  proof -
    obtain q0 where "omap_find (query_map (en_table eng)) j = Some q0" "qs_sampling_strategy q = qs_sampling_strategy q0"
      using found table_okD(1) [OF engine_okD(1) [OF assms]]
      by (auto simp: engine_encoder_end_def QST_UpdateEncoderEnd_def QST_Remove_def Let_def omap_find_put
          omap_find_erase omap_ok_put split: option.splits if_splits)
    then show ?thesis using engine_okD(3) [OF assms, of j q0]
      by (auto simp: registered_def engine_encoder_end_def split: option.splits)
  qed
qed (use engine_okD(2) [OF assms] in \<open>simp add: engine_encoder_end_def\<close>)

text \<open>
  The states of an engine: any sequence of the public operations and of the end of the encoder
  phase, from an initialised engine.
\<close>

inductive engine_reach :: "('o \<Rightarrow> int \<Rightarrow> int \<Rightarrow> 't) \<Rightarrow> ('f, 't, 'w::one) Engine \<Rightarrow> bool"
  for copy_rows :: "'o \<Rightarrow> int \<Rightarrow> int \<Rightarrow> 't" where
  reach_init: "Engine_Init use_cuda load init_tokenizer build models cfg_max = Some eng \<Longrightarrow> engine_reach copy_rows eng"
| reach_add: "engine_reach copy_rows eng \<Longrightarrow> engine_reach copy_rows (snd (AddQuery_tokens eng enc dec opts))"
| reach_remove: "engine_reach copy_rows eng \<Longrightarrow> engine_reach copy_rows (snd (RemoveQuery eng k))"
| reach_encoder: "engine_reach copy_rows eng \<Longrightarrow> engine_reach copy_rows (engine_encoder_end copy_rows eng k out r n)"
| reach_commit: "engine_reach copy_rows eng \<Longrightarrow> engine_reach copy_rows (snd (CommitInferenceResult eng qmap))"

lemma engine_reach_ok: "engine_reach copy_rows eng \<Longrightarrow> engine_ok eng"
  by (induction rule: engine_reach.induct)
    (simp_all add: engine_ok_Init engine_ok_AddQuery_tokens engine_ok_RemoveQuery engine_ok_encoder_end engine_ok_Commit)

definition count_bounded :: "('f, 't, 'w) Engine \<Rightarrow> bool" where
  "count_bounded eng \<longleftrightarrow> QueryCount eng \<le> max 0 (en_max_concurrent_queries eng)"

lemma length_omap_put_le: "length (omap_put k v m) \<le> Suc (length m)"
  by (induction k v m rule: omap_put.induct) auto

lemma length_Add_le: "length (query_map (snd (QST_Add t enc dec spec strat mx))) \<le> Suc (length (query_map t))"
  by (simp add: QST_Add_def Let_def length_omap_put_le)

lemma length_omap_put_present: "omap_ok m \<Longrightarrow> omap_find m k \<noteq> None \<Longrightarrow> length (omap_put k v m) = length m"
  by (simp add: length_omap_put omap_find_None_iff)

lemma length_omap_erase_le: "length (omap_erase k m) \<le> length m"
  by (simp add: omap_erase_def)

lemma length_Update_le: "table_ok t \<Longrightarrow> length (query_map (snd (QST_Update t k tok e))) \<le> length (query_map t)"
  by (auto simp: QST_Update_def QST_Remove_def Let_def table_ok_def length_omap_put_present
      intro!: order_trans [OF length_omap_erase_le] split: option.splits)

lemma length_run_updates_le:
  "table_ok t \<Longrightarrow> length (query_map (snd (run_updates QST_Update t xs))) \<le> length (query_map t)"
proof (induction xs arbitrary: t)
  case (Cons x xs)
  obtain k tok e where x: "x = (k, tok, e)" by (cases x)
  show ?case using Cons.IH [OF table_ok_Update [OF Cons.prems], of k tok e] length_Update_le [OF Cons.prems, of k tok e]
    by (simp add: x split_beta)
qed simp

lemma engine_reach_count: "engine_reach copy_rows eng \<Longrightarrow> count_bounded eng"
proof (induction rule: engine_reach.induct)
  case (reach_init use_cuda load init_tokenizer models cfg_max eng)
  then show ?case
    using engine_ok_Init(2) [OF reach_init]
    by (simp add: count_bounded_def QueryCount_def QST_Size_def new_QueryStateTable_def)
next
  case (reach_add eng enc dec opts)
  then show ?case
    using length_Add_le [of "en_table eng" enc dec "tm_spec (en_model eng)"
        "DecodingStrategyId_value (qo_strategy_id opts)" "qo_max_output_tokens opts"]
    by (auto simp: count_bounded_def AddQuery_tokens_def QueryCount_def QST_Size_def split_beta)
next
  case (reach_remove eng k)
  then show ?case
    using length_omap_erase_le [of k "query_map (en_table eng)"]
    by (auto simp: count_bounded_def RemoveQuery_def QueryCount_def QST_Size_def QST_Remove_def split_beta split: option.splits)
next
  case (reach_encoder eng k out r n)
  have "length (query_map (snd (QST_UpdateEncoderEnd copy_rows (en_table eng) k out r n))) \<le> length (query_map (en_table eng))"
    using engine_okD(1) [OF engine_reach_ok [OF reach_encoder.hyps]]
    by (auto simp: QST_UpdateEncoderEnd_def QST_Remove_def Let_def table_ok_def length_omap_put_present
        intro!: order_trans [OF length_omap_erase_le] split: option.splits)
  then show ?case using reach_encoder by (simp add: count_bounded_def engine_encoder_end_def QueryCount_def QST_Size_def)
next
  case (reach_commit eng qmap)
  then show ?case
    using length_run_updates_le [OF engine_okD(1) [OF engine_reach_ok [OF reach_commit.hyps]], of qmap] Commit_run [of eng qmap]
    by (simp add: count_bounded_def QueryCount_def QST_Size_def)
qed

text \<open>The states after an initialisation, for the limits that it set.\<close>

inductive engine_steps :: "('o \<Rightarrow> int \<Rightarrow> int \<Rightarrow> 't) \<Rightarrow> ('f, 't, 'w::one) Engine \<Rightarrow> ('f, 't, 'w) Engine \<Rightarrow> bool"
  for copy_rows :: "'o \<Rightarrow> int \<Rightarrow> int \<Rightarrow> 't" and eng0 :: "('f, 't, 'w::one) Engine" where
  steps_refl: "engine_steps copy_rows eng0 eng0"
| steps_add: "engine_steps copy_rows eng0 eng \<Longrightarrow> engine_steps copy_rows eng0 (snd (AddQuery_tokens eng enc dec opts))"
| steps_remove: "engine_steps copy_rows eng0 eng \<Longrightarrow> engine_steps copy_rows eng0 (snd (RemoveQuery eng k))"
| steps_encoder: "engine_steps copy_rows eng0 eng \<Longrightarrow> engine_steps copy_rows eng0 (engine_encoder_end copy_rows eng k out r n)"
| steps_commit: "engine_steps copy_rows eng0 eng \<Longrightarrow> engine_steps copy_rows eng0 (snd (CommitInferenceResult eng qmap))"

lemma engine_steps_reach:
  "engine_steps copy_rows eng0 eng \<Longrightarrow> engine_reach copy_rows eng0 \<Longrightarrow> engine_reach copy_rows eng"
  by (induction rule: engine_steps.induct) (auto intro: engine_reach.intros)

lemma engine_steps_limit:
  "engine_steps copy_rows eng0 eng \<Longrightarrow> en_max_concurrent_queries eng = en_max_concurrent_queries eng0 \<and> en_model eng = en_model eng0"
  by (induction rule: engine_steps.induct)
    (simp_all add: AddQuery_tokens_def RemoveQuery_def engine_encoder_end_def Commit_run split_beta Let_def)

text \<open>The CPU computes layers: all of them without CUDA, otherwise those it is assigned.\<close>

definition cpu_takes_part :: "bool \<Rightarrow> ModelSpec \<Rightarrow> bool" where
  "cpu_takes_part use_cuda spec \<longleftrightarrow>
     hp_decoder_layers (ms_hyper_params spec) > 0 \<and> (use_cuda \<longrightarrow> ms_decoder_cpu_layer_count spec > 0)
     \<or> hp_encoder_layers (ms_hyper_params spec) > 0 \<and> (use_cuda \<longrightarrow> ms_encoder_cpu_layer_count spec > 0)"

lemma Init_limit:
  assumes "Engine_Init use_cuda load init_tokenizer build models cfg_max = Some eng"
  shows "en_max_concurrent_queries eng \<le> cfg_max \<and> en_max_concurrent_queries eng \<le> 64
    \<and> (cpu_takes_part use_cuda (tm_spec (en_model eng)) \<longrightarrow> en_max_concurrent_queries eng \<le> 3)"
  using assms by (auto simp: Engine_Init_def Let_def Init_max_concurrent_queries_def MAX_PROC_ID_def cpu_takes_part_def
      Init_is_cpu_involved_def Init_is_cpu_only_def split: if_splits option.splits)

text \<open>
  C11. After an initialisation with a configured limit, in every later state of the engine the number
  of live queries is at most this limit (none when it is negative), at most the 64 cache slots, and
  at most 3 when the CPU computes layers, that is without CUDA or with layers assigned to it. The
  strategy of every live query holds its data.
\<close>

theorem engine_capacity:
  assumes "Engine_Init use_cuda load init_tokenizer build models cfg_max = Some eng0" and "engine_steps copy_rows eng0 eng"
  shows "QueryCount eng \<le> max 0 cfg_max
    \<and> QueryCount eng \<le> 64
    \<and> (cpu_takes_part use_cuda (tm_spec (en_model eng)) \<longrightarrow> QueryCount eng \<le> 3)
    \<and> list_all (\<lambda>(k, q). registered eng k q) (query_map (en_table eng))"
proof -
  have reach: "engine_reach copy_rows eng" by (rule engine_steps_reach [OF assms(2) reach_init [OF assms(1)]])
  have "QueryCount eng \<le> max 0 (en_max_concurrent_queries eng0)"
    using engine_reach_count [OF reach] engine_steps_limit [OF assms(2)] by (simp add: count_bounded_def)
  then show ?thesis
    using Init_limit [OF assms(1)] engine_steps_limit [OF assms(2)] engine_reach_ok [OF reach]
    by (auto simp: engine_ok_def list_all_iff)
qed

definition tiny_spec :: ModelSpec where
  "tiny_spec = default_ModelSpec\<lparr>ms_network_structure := NT_DecoderOnly_Transformer, ms_max_context_len := 20,
     ms_hyper_params := default_hparams\<lparr>hp_decoder_layers := 2\<rparr>\<rparr>"

definition tiny_engine :: "(int, unit, rat) Engine" where
  "tiny_engine = \<lparr>en_model = byte_model\<lparr>tm_spec := tiny_spec\<rparr>, en_models = [tiny_spec],
     en_tokenizer = byte_tokenizer, en_max_concurrent_queries = 3, en_table = new_QueryStateTable,
     en_query_data = (\<lambda>_. [])\<rparr>"

lemma tiny_engine_Init:
  "Engine_Init False (\<lambda>spec. Some (byte_model\<lparr>tm_spec := spec\<rparr>)) (\<lambda>_. byte_tokenizer) (\<lambda>_. True) [tiny_spec] 10 = Some tiny_engine"
  by (simp add: Engine_Init_def tiny_engine_def tiny_spec_def Init_max_context_len_def Init_is_cpu_involved_def
      Init_is_cpu_only_def Init_max_concurrent_queries_def IsDecoderOnlyTransformer_def default_ModelSpec_def
      default_hparams_def MAX_PROC_ID_def byte_model_def Let_def)

lemma tiny_engine_reach: "engine_reach copy_rows tiny_engine"
  by (rule reach_init [OF tiny_engine_Init])

definition one_query :: "(int, unit, rat) Engine" where
  "one_query = snd (AddQuery_tokens tiny_engine [] [7] default_QueryOptions)"

lemma one_query_reach: "engine_reach copy_rows one_query"
  unfolding one_query_def by (rule reach_add [OF tiny_engine_reach])

lemma one_query_state:
  obtains q where "history q = [7]" "qs_sampling_strategy q = 0"
    "query_map (en_table one_query) = [(1, q)]" "next_query_id (en_table one_query) = 2"
    "en_query_data one_query = (\<lambda>_. [])(StdSamplingStrategy := [(1, default_QueryOptions)])"
    "en_max_concurrent_queries one_query = 3"
proof -
  let ?o = "default_QueryOptions :: rat QueryOptions"
  have ok: "engine_ok tiny_engine" by (rule engine_reach_ok [OF tiny_engine_reach])
  have room: "QST_Size (en_table tiny_engine) < en_max_concurrent_queries tiny_engine"
    by (simp add: tiny_engine_def QST_Size_def new_QueryStateTable_def)
  have fresh: "next_query_id (en_table tiny_engine) = 1" "query_map (en_table tiny_engine) = []"
    "en_query_data tiny_engine obj = []" "en_max_concurrent_queries tiny_engine = 3" for obj
    by (simp_all add: tiny_engine_def new_QueryStateTable_def)
  from AddQuery_tokens_room [OF ok _ room, of "[7]" ?o "[]"] fresh
  obtain q obj where q: "GetSamplingStrategy (qo_strategy_id ?o) = Some obj"
    "qs_sampling_strategy q = DecodingStrategyId_value (qo_strategy_id ?o)" "history q = [7]"
    "query_map (en_table one_query) = [(1, q)]" "next_query_id (en_table one_query) = 2"
    "en_query_data one_query = (en_query_data tiny_engine)(obj := BeginQuery [] 1 ?o)"
    "en_max_concurrent_queries one_query = 3"
    by (fastforce simp: one_query_def MAX_QUERY_ID_def)
  have "obj = StdSamplingStrategy" "qo_strategy_id ?o = DS_Auto"
    using q(1) by (simp_all add: GetSamplingStrategy_def DecodingStrategies_Get_def default_QueryOptions_def
        strategy_map_def omap_find_of)
  moreover have "BeginQuery [] 1 ?o = [(1, ?o)]"
    by (simp add: BeginQuery_def AddOrFindQueryData_def)
  moreover have "en_query_data tiny_engine = (\<lambda>_. [])" by (simp add: tiny_engine_def)
  ultimately show ?thesis using q by (intro that [of q]) simp_all
qed

lemma one_query_table:
  "abs_table (en_table one_query) = [1 \<mapsto> [7]]" "next_query_id (en_table one_query) = 2"
  "QueryCount one_query = 1" "en_max_concurrent_queries one_query = 3"
proof -
  obtain q where "history q = [7]" "query_map (en_table one_query) = [(1, q)]" "next_query_id (en_table one_query) = 2"
    "en_max_concurrent_queries one_query = 3" by (rule one_query_state)
  then show "abs_table (en_table one_query) = [1 \<mapsto> [7]]" "next_query_id (en_table one_query) = 2"
    "QueryCount one_query = 1" "en_max_concurrent_queries one_query = 3"
    by (simp_all add: abs_table_def omap_find_Cons fun_eq_iff QueryCount_def QST_Size_def)
qed

theorem engine_capacity_witness:
  "QueryCount one_query \<le> 3 \<and> list_all (\<lambda>(k, q). registered one_query k q) (query_map (en_table one_query))"
proof -
  have steps: "engine_steps (\<lambda>(_ :: unit) _ _. ()) tiny_engine one_query"
    unfolding one_query_def by (rule steps_add [OF steps_refl])
  have "en_model one_query = en_model tiny_engine" using engine_steps_limit [OF steps] by simp
  then have "cpu_takes_part False (tm_spec (en_model one_query))"
    by (simp add: cpu_takes_part_def tiny_engine_def tiny_spec_def default_ModelSpec_def default_hparams_def)
  then show ?thesis using engine_capacity [OF tiny_engine_Init steps] by blast
qed

text \<open>
  C29. The result of adding a query: -1 exactly for an empty decoder prefix outside encoder-only
  networks, 0 exactly when the limit of concurrent queries is reached, otherwise the next
  query id, whose session starts with the given prompt. The table is never full at that point.
\<close>

theorem AddQuery_tokens_codes:
  assumes "engine_reach copy_rows eng"
  shows "if dec = [] \<and> \<not> IsEncoderOnlyTransformer (net_type eng) then AddQuery_tokens eng enc dec opts = (-1, eng)
    else if QueryCount eng \<ge> en_max_concurrent_queries eng then AddQuery_tokens eng enc dec opts = (0, eng)
    else fst (AddQuery_tokens eng enc dec opts) = next_query_id (en_table eng)
      \<and> 1 \<le> next_query_id (en_table eng)
      \<and> abs_table (en_table (snd (AddQuery_tokens eng enc dec opts)))
        = (abs_table (en_table eng))(next_query_id (en_table eng) \<mapsto> dec)"
proof -
  note ok = engine_reach_ok [OF assms]
  have "1 \<le> next_query_id (en_table eng)" by (rule table_okD(2) [OF engine_okD(1) [OF ok]])
  moreover have "fst (AddQuery_tokens eng enc dec opts) = next_query_id (en_table eng)
      \<and> abs_table (en_table (snd (AddQuery_tokens eng enc dec opts)))
        = (abs_table (en_table eng))(next_query_id (en_table eng) \<mapsto> dec)"
    if "dec \<noteq> [] \<or> IsEncoderOnlyTransformer (net_type eng)" "\<not> QueryCount eng \<ge> en_max_concurrent_queries eng"
    using AddQuery_tokens_room [OF ok that(1), of opts enc] that(2)
    by (auto simp: QueryCount_def abs_table_def omap_find_put fun_eq_iff)
  ultimately show ?thesis by (auto simp: AddQuery_tokens_def QueryCount_def)
qed

text \<open>
  C10. Committing a round implements the session specification: it succeeds exactly when all
  queries of the round are live, every listed session gets its token or ends, and every other
  session is as before.
\<close>

theorem Commit_refines:
  assumes "engine_reach copy_rows eng" and "omap_ok qmap"
  shows "(fst (CommitInferenceResult eng qmap) \<longleftrightarrow> fst ` set qmap \<subseteq> dom (abs_table (en_table eng)))
    \<and> abs_table (en_table (snd (CommitInferenceResult eng qmap))) k =
      (case omap_find qmap k of None \<Rightarrow> abs_table (en_table eng) k
       | Some (tok, is_end) \<Rightarrow>
           (case abs_table (en_table eng) k of None \<Rightarrow> None | Some h \<Rightarrow> if is_end then None else Some (h @ [tok])))"
proof -
  note t = engine_okD(1) [OF engine_reach_ok [OF assms(1)]]
  note d = omap_distinct [OF assms(2)]
  show ?thesis
    using Commit_run [of eng qmap] qst.run_updates_fst [OF t d] qst.run_updates_view [OF t d, of k]
    by (simp add: omap_find_def)
qed

theorem AddQuery_tokens_codes_witness:
  "fst (AddQuery_tokens one_query [] [8, 9] default_QueryOptions) = 2
   \<and> abs_table (en_table (snd (AddQuery_tokens one_query [] [8, 9] default_QueryOptions))) = [1 \<mapsto> [7], 2 \<mapsto> [8, 9]]"
  using AddQuery_tokens_codes [OF one_query_reach, of "[8, 9]" "[]" default_QueryOptions]
  by (simp add: one_query_table)

theorem Commit_refines_witness:
  "fst (CommitInferenceResult one_query [(1, 5, False)])
   \<and> abs_table (en_table (snd (CommitInferenceResult one_query [(1, 5, False)]))) 1 = Some [7, 5]"
  using Commit_refines [OF one_query_reach, of "[(1, 5, False)]" 1]
  by (simp add: one_query_table omap_ok_Cons omap_find_Cons)

text \<open>
  Removing a query leaves the data that its strategy keeps for it: only the commit of an
  end token releases them.
\<close>

lemma RemoveQuery_keeps_data:
  "fst (RemoveQuery one_query 1) \<and> GetQueryState (en_table (snd (RemoveQuery one_query 1))) 1 = None
   \<and> omap_find (en_query_data (snd (RemoveQuery one_query 1)) StdSamplingStrategy) 1 \<noteq> None
   \<and> omap_find (en_query_data (snd (CommitInferenceResult one_query [(1, 2, True)])) StdSamplingStrategy) 1 = None"
proof -
  obtain q where q: "qs_sampling_strategy q = 0" "query_map (en_table one_query) = [(1, q)]"
    "en_query_data one_query = (\<lambda>_. [])(StdSamplingStrategy := [(1, default_QueryOptions)])" by (rule one_query_state)
  have "DecodingStrategyId_of 0 = Some DS_Auto" "GetSamplingStrategy DS_Auto = Some StdSamplingStrategy"
    by (simp_all add: DecodingStrategyId_of_def GetSamplingStrategy_def DecodingStrategies_Get_def strategy_map_def omap_find_of)
  then show ?thesis
    by (simp add: q RemoveQuery_def QST_Remove_def GetQueryState_def omap_find_Cons omap_erase_def
        CommitInferenceResult_def commit_one_def end_query_data_def EndQuery_def split_beta)
qed

end
