(* ===== verification/EngineRounds.thy ===== *)
theory EngineRounds
  imports Engine
begin

text \<open>
  The rounds of the engine: collecting the batch (\<open>GetLocalInput\<close>), running the network and
  sampling (\<open>Infer_CpuOnly\<close>, \<open>Infer_Gpu\<close>), and the loop of the service
  (src/src/service/inferflow_service.cc, \<open>InferFlowServiceCore::Infer\<close>) that commits the results.
\<close>

section \<open>The batch\<close>

record 't QueryProcInput =
  qp_query_id :: int
  qp_proc_id :: int
  qp_prefix_len :: int
  qp_token_num :: int
  qp_start_row :: int
  qp_sampling_strategy :: int
  qp_state :: "'t QueryState"

record 't LocalInput =
  li_query_list :: "'t QueryProcInput list"
  li_tokens :: "int list"
  li_is_encoder :: bool

definition empty_LocalInput :: "'t LocalInput" where
  "empty_LocalInput = \<lparr>li_query_list = [], li_tokens = [], li_is_encoder = False\<rparr>"

definition is_saturated :: "int \<Rightarrow> int list \<Rightarrow> 't QueryState \<Rightarrow> bool" where
  "is_saturated max_context_len state_tokens state \<longleftrightarrow>
     (let total_len = qs_prefix_len state + int (length state_tokens);
          output_len = qs_prefix_len state - qs_initial_prefix_len state;
          max_output_len = qs_max_output_tokens state
      in (qs_prefix_len state \<ge> max_context_len \<or> (max_output_len \<ge> 0 \<and> output_len \<ge> max_output_len))
         \<or> total_len > max_context_len)"

definition local_step :: "bool \<Rightarrow> int \<Rightarrow> 't QueryState \<Rightarrow> 't LocalInput \<times> int list \<Rightarrow> 't LocalInput \<times> int list" where
  "local_step is_decoder_only max_context_len state acc =
     (let (input, saturated_queries) = acc;
          is_encoder = (li_is_encoder input \<or> qs_next_net state = 0 \<and> \<not> is_decoder_only);
          state_tokens = (if is_encoder then qs_encoder_input_tokens state else qs_decoder_tokens state);
          query = \<lparr>qp_query_id = qs_query_id state, qp_proc_id = qs_proc_id state, qp_prefix_len = qs_prefix_len state,
            qp_token_num = int (length state_tokens), qp_start_row = int (length (li_tokens input)),
            qp_sampling_strategy = qs_sampling_strategy state, qp_state = state\<rparr>
      in if is_saturated max_context_len state_tokens state
         then (input\<lparr>li_is_encoder := is_encoder, li_tokens := li_tokens input @ state_tokens\<rparr>,
               saturated_queries @ [qs_query_id state])
         else (input\<lparr>li_is_encoder := is_encoder, li_tokens := li_tokens input @ state_tokens,
                 li_query_list := li_query_list input @ [query]\<rparr>, saturated_queries))"

text \<open>The result: whether there is a query, the batch, and the saturated queries appended to the given ones.\<close>

definition GetLocalInput :: "('f, 't, 'w) Engine \<Rightarrow> int list \<Rightarrow> bool \<times> 't LocalInput \<times> int list" where
  "GetLocalInput eng saturated_queries =
     (let spec = tm_spec (en_model eng);
          selected = QST_Get (en_table eng) (ms_network_structure spec) (ms_max_context_len spec) (-1) 256
      in if selected = [] then (False, empty_LocalInput, saturated_queries)
         else (True, fold (local_step (IsDecoderOnlyTransformer (ms_network_structure spec)) (ms_max_context_len spec))
           (map snd selected) (empty_LocalInput, saturated_queries)))"

section \<open>Results\<close>

record 'x QueryInferenceResult =
  qr_query_id :: int
  qr_prefix_len :: int
  qr_next_tokens :: "(int \<times> 'x) list"

definition HandleSaturatedQueries :: "'x::one QueryInferenceResult list \<Rightarrow> int list \<Rightarrow> 'f TransformerModel
    \<Rightarrow> 'x QueryInferenceResult list" where
  "HandleSaturatedQueries res saturated_queries tm =
     res @ map (\<lambda>query_id. \<lparr>qr_query_id = query_id, qr_prefix_len = ms_max_context_len (tm_spec tm),
         qr_next_tokens = [(eos_id (tm_vocabulary tm), 1)]\<rparr>) saturated_queries"

text \<open>
  Sampling the row of a query: \<open>sample out row query_id prefix tokens strategy\<close>. The row is the last
  one of the query's tokens.
\<close>

definition sample_query :: "('o \<Rightarrow> int \<Rightarrow> int \<Rightarrow> int list \<Rightarrow> int list \<Rightarrow> int \<Rightarrow> (int \<times> 'x) list) \<Rightarrow> 'o \<Rightarrow> 't QueryProcInput
    \<Rightarrow> 'x QueryInferenceResult" where
  "sample_query sample out q =
     \<lparr>qr_query_id = qp_query_id q, qr_prefix_len = qp_prefix_len q,
      qr_next_tokens = sample out (qp_start_row q + qp_token_num q - 1) (qp_query_id q)
        (qs_prefix_tokens (qp_state q)) (qs_decoder_tokens (qp_state q)) (qp_sampling_strategy q)\<rparr>"

definition Infer_CpuOnly :: "('t QueryProcInput list \<Rightarrow> int list \<Rightarrow> 'o)
    \<Rightarrow> ('o \<Rightarrow> int \<Rightarrow> int \<Rightarrow> int list \<Rightarrow> int list \<Rightarrow> int \<Rightarrow> (int \<times> 'x::one) list)
    \<Rightarrow> ('f, 't, 'w) Engine \<Rightarrow> 'x QueryInferenceResult list" where
  "Infer_CpuOnly forward sample eng =
     (let (has_query, input, saturated_queries) = GetLocalInput eng []
      in if \<not> has_query then []
         else HandleSaturatedQueries
           (map (sample_query sample (forward (li_query_list input) (li_tokens input))) (li_query_list input))
           saturated_queries (en_model eng))"

text \<open>The row that an encoder-only network is asked for: the one of the first mask token.\<close>

definition mask_row :: "int \<Rightarrow> 't QueryProcInput \<Rightarrow> int" where
  "mask_row mask_token_id q =
     (case first_index (\<lambda>t. t = mask_token_id) (qs_encoder_input_tokens (qp_state q)) of
        Some i \<Rightarrow> qp_start_row q + int i | None \<Rightarrow> qp_start_row q)"

definition encoder_sample_query :: "('o \<Rightarrow> int \<Rightarrow> int \<Rightarrow> int \<Rightarrow> (int \<times> 'x) list) \<Rightarrow> int \<Rightarrow> 'o \<Rightarrow> 't QueryProcInput
    \<Rightarrow> 'x QueryInferenceResult" where
  "encoder_sample_query enc_sample mask_token_id out q =
     \<lparr>qr_query_id = qp_query_id q, qr_prefix_len = qp_prefix_len q,
      qr_next_tokens = enc_sample out (mask_row mask_token_id q) (qp_query_id q) (qp_sampling_strategy q)\<rparr>"

text \<open>
  The GPU round: after the encoder phase of an encoder-decoder network the encoder outputs are
  stored and a second batch is collected and run; the list of saturated queries carries over.
\<close>

definition Infer_Gpu :: "('o \<Rightarrow> int \<Rightarrow> int \<Rightarrow> 't) \<Rightarrow> ('t LocalInput \<Rightarrow> 'o)
    \<Rightarrow> ('o \<Rightarrow> int \<Rightarrow> int \<Rightarrow> int list \<Rightarrow> int list \<Rightarrow> int \<Rightarrow> (int \<times> 'x::one) list)
    \<Rightarrow> ('o \<Rightarrow> int \<Rightarrow> int \<Rightarrow> int \<Rightarrow> (int \<times> 'x) list) \<Rightarrow> int
    \<Rightarrow> ('f, 't, 'w) Engine \<Rightarrow> 'x QueryInferenceResult list \<times> ('f, 't, 'w) Engine" where
  "Infer_Gpu copy_rows forward sample enc_sample mask_token_id eng =
     (let is_encoder_only = IsEncoderOnlyTransformer (net_type eng);
          (has_query, input, saturated_queries) = GetLocalInput eng []
      in if \<not> has_query then ([], eng)
         else
           let out = forward input;
               (input', saturated', out', eng') =
                 (if li_query_list input \<noteq> [] \<and> li_is_encoder input \<and> \<not> is_encoder_only then
                    let eng1 = fold (\<lambda>q e. engine_encoder_end copy_rows e (qp_query_id q) out (qp_start_row q) (qp_token_num q))
                          (li_query_list input) eng;
                        (_, input1, saturated1) = GetLocalInput eng1 saturated_queries
                    in (input1, saturated1, forward input1, eng1)
                  else (input, saturated_queries, out, eng));
               items = map (if is_encoder_only then encoder_sample_query enc_sample mask_token_id out'
                            else sample_query sample out') (li_query_list input')
           in (HandleSaturatedQueries items saturated' (en_model eng), eng'))"

section \<open>The service loop\<close>

text \<open>
  One call of \<open>InferFlowServiceCore::Infer\<close>: the first of the next tokens of every result is
  committed; \<open>None\<close> is the access to the first element of an empty list of next tokens.
\<close>

definition next_token_map :: "'f StdVocabulary \<Rightarrow> int \<Rightarrow> 'x QueryInferenceResult list \<Rightarrow> (int, int \<times> bool) omap option" where
  "next_token_map vocab max_output_len items =
     (if \<exists>r \<in> set items. qr_next_tokens r = [] then None
      else Some (fold (\<lambda>r m.
          let next_token_id = fst (hd (qr_next_tokens r))
          in omap_put (qr_query_id r)
               (next_token_id, IsEos vocab next_token_id \<or> qr_prefix_len r + 1 \<ge> max_output_len) m) items []))"

definition Service_Infer_Cpu :: "('t QueryProcInput list \<Rightarrow> int list \<Rightarrow> 'o)
    \<Rightarrow> ('o \<Rightarrow> int \<Rightarrow> int \<Rightarrow> int list \<Rightarrow> int list \<Rightarrow> int \<Rightarrow> (int \<times> 'x::one) list)
    \<Rightarrow> int \<Rightarrow> ('f, 't, 'w) Engine \<Rightarrow> ('f, 't, 'w) Engine option" where
  "Service_Infer_Cpu forward sample max_output_len eng =
     (let items = Infer_CpuOnly forward sample eng
      in if items = [] then Some eng
         else map_option (\<lambda>m. snd (CommitInferenceResult eng m))
           (next_token_map (tm_vocabulary (en_model eng)) max_output_len items))"

section \<open>The batch in closed form\<close>

lemma distinct_subseq: "subseq xs ys \<Longrightarrow> distinct ys \<Longrightarrow> distinct xs"
  by (induction rule: list_emb.induct) (auto dest: list_emb_set)

definition phase_tokens :: "bool \<Rightarrow> 't QueryState \<Rightarrow> int list" where
  "phase_tokens is_encoder q = (if is_encoder then qs_encoder_input_tokens q else qs_decoder_tokens q)"

definition proc_input :: "bool \<Rightarrow> nat \<Rightarrow> 't QueryState \<Rightarrow> 't QueryProcInput" where
  "proc_input is_encoder offset q = \<lparr>qp_query_id = qs_query_id q, qp_proc_id = qs_proc_id q, qp_prefix_len = qs_prefix_len q,
     qp_token_num = int (length (phase_tokens is_encoder q)), qp_start_row = int offset,
     qp_sampling_strategy = qs_sampling_strategy q, qp_state = q\<rparr>"

primrec place :: "bool \<Rightarrow> int \<Rightarrow> 't QueryState list \<Rightarrow> nat \<Rightarrow> 't QueryProcInput list" where
  "place E mc [] offset = []"
| "place E mc (q # qs) offset =
     (if is_saturated mc (phase_tokens E q) q then [] else [proc_input E offset q])
     @ place E mc qs (offset + length (phase_tokens E q))"

text \<open>All queries of a batch are in the same phase, so one flag serves them all.\<close>

lemma local_fold:
  assumes "\<forall>q \<in> set qs. (qs_next_net q = 0 \<and> \<not> dec_only) = E" "li_is_encoder input \<longrightarrow> E" "qs \<noteq> []"
  shows "fold (local_step dec_only mc) qs (input, sat) =
    (input\<lparr>li_is_encoder := E, li_tokens := li_tokens input @ concat (map (phase_tokens E) qs),
       li_query_list := li_query_list input @ place E mc qs (length (li_tokens input))\<rparr>,
     sat @ map qs_query_id (filter (\<lambda>q. is_saturated mc (phase_tokens E q) q) qs))"
  using assms
proof (induction qs arbitrary: input sat)
  case (Cons q qs)
  have E: "(li_is_encoder input \<or> qs_next_net q = 0 \<and> \<not> dec_only) = E" using Cons.prems by auto
  show ?case
  proof (cases "qs = []")
    case True
    then show ?thesis using E by (auto simp: local_step_def Let_def phase_tokens_def proc_input_def)
  next
    case False
    then show ?thesis using E Cons.prems(1) Cons.IH
      by (auto simp: local_step_def Let_def phase_tokens_def proc_input_def)
  qed
qed simp

lemma place_states: "map qp_state (place E mc qs offset) = filter (\<lambda>q. \<not> is_saturated mc (phase_tokens E q) q) qs"
  by (induction qs arbitrary: offset) (auto simp: proc_input_def)

lemma place_ids:
  "map qp_query_id (place E mc qs offset) = map qs_query_id (filter (\<lambda>q. \<not> is_saturated mc (phase_tokens E q) q) qs)"
  "map qp_proc_id (place E mc qs offset) = map qs_proc_id (filter (\<lambda>q. \<not> is_saturated mc (phase_tokens E q) q) qs)"
  by (induction qs arbitrary: offset) (auto simp: proc_input_def)

definition row_ok :: "bool \<Rightarrow> int \<Rightarrow> int list \<Rightarrow> 't QueryProcInput \<Rightarrow> bool" where
  "row_ok E mc tokens p \<longleftrightarrow>
     0 \<le> qp_start_row p \<and> qp_start_row p + qp_token_num p \<le> int (length tokens)
     \<and> take (nat (qp_token_num p)) (drop (nat (qp_start_row p)) tokens) = phase_tokens E (qp_state p)
     \<and> qp_prefix_len p + qp_token_num p \<le> mc \<and> qp_prefix_len p < mc
     \<and> qp_query_id p = qs_query_id (qp_state p) \<and> qp_proc_id p = qs_proc_id (qp_state p)
     \<and> qp_prefix_len p = qs_prefix_len (qp_state p)"

lemma place_rows:
  "length pre = offset \<Longrightarrow> list_all (row_ok E mc (pre @ concat (map (phase_tokens E) qs))) (place E mc qs offset)"
proof (induction qs arbitrary: pre offset)
  case (Cons q qs)
  have "list_all (row_ok E mc ((pre @ phase_tokens E q) @ concat (map (phase_tokens E) qs)))
      (place E mc qs (offset + length (phase_tokens E q)))"
    using Cons.prems by (intro Cons.IH) simp
  moreover have "row_ok E mc (pre @ concat (map (phase_tokens E) (q # qs))) (proc_input E offset q)"
    if "\<not> is_saturated mc (phase_tokens E q) q"
    using that Cons.prems by (auto simp: row_ok_def proc_input_def is_saturated_def Let_def)
  ultimately show ?case by simp
qed simp

lemma selected_batch:
  assumes "table_ok t"
  shows "QST_Get t nt mc mq mt = take_batch (IsEncoderOnlyTransformer nt) (IsDecoderOnlyTransformer nt) mq mt (query_map t) 0 (-1) 0"
  using QST_Get_loop_take_batch [of "[]" "query_map t"] table_okD(1) [OF assms] by (simp add: QST_Get_def)

lemma take_batch_uniform:
  assumes "\<not> enc_only" "\<forall>p \<in> set rest. qs_next_net (snd p) \<ge> 0"
    "rest \<noteq> []" "sel = take_batch enc_only dec_only mq mt rest num (-1) tn" "p \<in> set sel"
  shows "(qs_next_net (snd p) = 0 \<and> \<not> dec_only) = (qs_next_net (snd (hd rest)) = 0 \<and> \<not> dec_only)"
proof (cases "dec_only \<or> p = hd rest")
  case False
  obtain r rs where rest: "rest = r # rs" using assms(3) by (cases rest) auto
  with False assms have "p \<in> set (take_batch False False mq mt rs (num + 1) (qs_next_net (snd r))
      (tn + batch_cost dec_only (-1) (snd r)))"
    by (auto split: if_splits)
  with take_batch_same_net [OF _ this] assms(2) rest show ?thesis by simp
qed auto

text \<open>What a round works on.\<close>

lemma GetLocalInput_closed:
  assumes t: "table_ok (en_table eng)" and ne: "query_map (en_table eng) \<noteq> []"
    and enc: "\<not> IsEncoderOnlyTransformer (net_type eng)"
  obtains E qs where "subseq qs (map snd (query_map (en_table eng)))" "qs \<noteq> []" "hd qs = snd (hd (query_map (en_table eng)))"
    "E = (qs_next_net (snd (hd (query_map (en_table eng)))) = 0 \<and> \<not> IsDecoderOnlyTransformer (net_type eng))"
    "GetLocalInput eng sat = (True, \<lparr>li_query_list = place E (ms_max_context_len (tm_spec (en_model eng))) qs 0,
        li_tokens = concat (map (phase_tokens E) qs), li_is_encoder = E\<rparr>,
      sat @ map qs_query_id (filter (\<lambda>q. is_saturated (ms_max_context_len (tm_spec (en_model eng))) (phase_tokens E q) q) qs))"
proof -
  let ?nt = "net_type eng" and ?mc = "ms_max_context_len (tm_spec (en_model eng))" and ?m = "query_map (en_table eng)"
  let ?sel = "QST_Get (en_table eng) ?nt ?mc (-1) 256"
  let ?E = "qs_next_net (snd (hd ?m)) = 0 \<and> \<not> IsDecoderOnlyTransformer ?nt"
  have sel: "?sel = take_batch (IsEncoderOnlyTransformer ?nt) (IsDecoderOnlyTransformer ?nt) (-1) 256 ?m 0 (-1) 0"
    by (rule selected_batch [OF t])
  obtain rest where hd: "?sel = hd ?m # rest" using take_batch_first [OF _ ne] sel by fastforce
  have nets: "\<forall>p \<in> set ?m. qs_next_net (snd p) \<ge> 0" using table_okD(4) [OF t] by (fastforce simp: qs_ok_def)
  have "\<forall>q \<in> set (map snd ?sel). (qs_next_net q = 0 \<and> \<not> IsDecoderOnlyTransformer ?nt) = ?E"
    using take_batch_uniform [OF enc nets ne sel] by auto
  from local_fold [OF this, of empty_LocalInput ?mc sat] hd
  have "GetLocalInput eng sat = (True, \<lparr>li_query_list = place ?E ?mc (map snd ?sel) 0,
        li_tokens = concat (map (phase_tokens ?E) (map snd ?sel)), li_is_encoder = ?E\<rparr>,
      sat @ map qs_query_id (filter (\<lambda>q. is_saturated ?mc (phase_tokens ?E q) q) (map snd ?sel)))"
    by (simp add: GetLocalInput_def net_type_def Let_def empty_LocalInput_def del: list.map)
  moreover have "subseq (map snd ?sel) (map snd ?m)" unfolding sel by (intro subseq_map take_batch_subseq)
  ultimately show ?thesis using hd by (intro that [of "map snd ?sel" ?E]) auto
qed

text \<open>The rows of an entry of the batch end before those of the next one start.\<close>

definition rows_before :: "'t QueryProcInput \<Rightarrow> 't QueryProcInput \<Rightarrow> bool" where
  "rows_before p q \<longleftrightarrow> qp_start_row p + qp_token_num p \<le> qp_start_row q"

lemma place_start: "\<forall>p \<in> set (place E mc qs offset). int offset \<le> qp_start_row p"
proof (induction qs arbitrary: offset)
  case (Cons q qs)
  from Cons [of "offset + length (phase_tokens E q)"] show ?case by (auto simp: proc_input_def)
qed simp

lemma place_disjoint: "sorted_wrt rows_before (place E mc qs offset)"
proof (induction qs arbitrary: offset)
  case (Cons q qs)
  then show ?case using place_start [of E mc qs "offset + length (phase_tokens E q)"]
    by (auto simp: rows_before_def proc_input_def)
qed simp



section \<open>The limit on output tokens\<close>

definition committed :: "int \<Rightarrow> 't QueryState \<Rightarrow> 't QueryState" where
  "committed tok q = q\<lparr>qs_prefix_tokens := qs_prefix_tokens q @ qs_decoder_tokens q,
     qs_prefix_len := int (length (qs_prefix_tokens q @ qs_decoder_tokens q)), qs_decoder_tokens := [tok]\<rparr>"

lemma run_updates_find:
  assumes "table_ok t" "distinct (map fst xs)"
  shows "omap_find (query_map (snd (run_updates QST_Update t xs))) k =
    (case map_of xs k of None \<Rightarrow> omap_find (query_map t) k
     | Some (tok, e) \<Rightarrow> if e then None else map_option (committed tok) (omap_find (query_map t) k))"
  using assms
proof (induction xs arbitrary: t)
  case (Cons x xs)
  obtain j tok e where x: "x = (j, tok, e)" by (cases x)
  have "map_of xs j = None" using Cons.prems x by (simp add: map_of_eq_None_iff)
  then show ?case using Cons.IH [OF table_ok_Update [OF Cons.prems(1)], of j tok e] Cons.prems
    by (auto simp: x split_beta QST_Update_find committed_def [abs_def] split: option.splits)
qed simp

text \<open>One query that receives a list of tokens, one per round.\<close>

definition commit_tokens :: "'t QueryStateTable \<Rightarrow> int \<Rightarrow> int list \<Rightarrow> 't QueryStateTable" where
  "commit_tokens t k toks = fold (\<lambda>tok t. snd (QST_Update t k tok False)) toks t"

lemma commit_tokens_state:
  assumes "table_ok t" "omap_find (query_map t) k = Some q" "toks \<noteq> []"
  shows "omap_find (query_map (commit_tokens t k toks)) k = Some (q\<lparr>
      qs_prefix_tokens := qs_prefix_tokens q @ qs_decoder_tokens q @ butlast toks,
      qs_prefix_len := int (length (qs_prefix_tokens q @ qs_decoder_tokens q @ butlast toks)),
      qs_decoder_tokens := [last toks]\<rparr>) \<and> table_ok (commit_tokens t k toks)"
  using assms(3)
proof (induction toks rule: rev_nonempty_induct)
  case (single x)
  then show ?case using assms(1,2) by (simp add: commit_tokens_def QST_Update_find table_ok_Update)
next
  case (snoc x xs)
  have "int (length xs - Suc 0) = int (length xs) - 1" using snoc(1) by (cases xs) auto
  with snoc show ?case by (simp add: commit_tokens_def QST_Update_find table_ok_Update)
qed

text \<open>
  C32. A limit of \<open>N\<close> output tokens lets a query produce \<open>N + 1\<close> tokens: after \<open>n\<close> committed tokens
  a query of a decoder-only network is saturated exactly when \<open>n\<close> exceeds the limit or its text no
  longer fits the context.
\<close>

theorem output_limit_off_by_one:
  assumes "table_ok t" and "GetQueryState t k = Some q" and "toks \<noteq> []"
    and "qs_prefix_tokens q = []" and "qs_initial_prefix_len q = int (length (qs_decoder_tokens q))"
    and "0 \<le> qs_max_output_tokens q"
  shows "\<exists>q'. GetQueryState (commit_tokens t k toks) k = Some q'
    \<and> (is_saturated mc (qs_decoder_tokens q') q' \<longleftrightarrow>
        int (length toks) > qs_max_output_tokens q \<or> int (length (qs_decoder_tokens q) + length toks) > mc)"
proof -
  have "int (length toks - Suc 0) = int (length toks) - 1" using assms(3) by (cases toks) auto
  then show ?thesis
    using commit_tokens_state [OF assms(1) assms(2) [unfolded GetQueryState_def] assms(3)] assms(4-6)
    by (auto simp: GetQueryState_def is_saturated_def Let_def)
qed

theorem output_limit_off_by_one_witness:
  "\<exists>q'. GetQueryState (commit_tokens (snd (QST_Add (new_QueryStateTable :: unit QueryStateTable) [] [7] default_ModelSpec 0 2)) 1 [4, 5]) 1 = Some q'
    \<and> \<not> is_saturated 100 (qs_decoder_tokens q') q'"
proof -
  let ?t = "snd (QST_Add (new_QueryStateTable :: unit QueryStateTable) [] [7] default_ModelSpec 0 2)"
  have ok: "table_ok ?t" by (rule table_ok_Add [OF table_ok_new])
  have free: "FindFreeProcId (new_QueryStateTable :: unit QueryStateTable) = 0"
    unfolding FindFreeProcId_eq [OF table_ok_new]
    by (simp add: procs_used_def new_QueryStateTable_def upt_rec [of 0] del: upt_Suc)
  then obtain q where "GetQueryState ?t 1 = Some q" "qs_prefix_tokens q = []" "qs_initial_prefix_len q = 1"
    "qs_decoder_tokens q = [7]" "qs_max_output_tokens q = 2"
    by (simp add: QST_Add_def Let_def new_QueryState_def GetQueryState_def omap_find_put)
      (simp add: new_QueryStateTable_def)
  with output_limit_off_by_one [OF ok, of 1 q "[4, 5]" 100] show ?thesis by auto
qed

section \<open>Every query is served to its end\<close>

primrec service_rounds :: "('t QueryProcInput list \<Rightarrow> int list \<Rightarrow> 'o)
    \<Rightarrow> ('o \<Rightarrow> int \<Rightarrow> int \<Rightarrow> int list \<Rightarrow> int list \<Rightarrow> int \<Rightarrow> (int \<times> 'x::one) list)
    \<Rightarrow> int \<Rightarrow> nat \<Rightarrow> ('f, 't, 'w) Engine \<Rightarrow> ('f, 't, 'w) Engine option" where
  "service_rounds forward sample max_output_len 0 eng = Some eng"
| "service_rounds forward sample max_output_len (Suc n) eng =
     Option.bind (Service_Infer_Cpu forward sample max_output_len eng) (service_rounds forward sample max_output_len n)"

lemma omap_head:
  assumes "omap_ok m" "omap_find m h = Some v" "\<And>k. k \<in> fst ` set m \<Longrightarrow> h \<le> k"
  shows "\<exists>rest. m = (h, v) # rest"
proof (cases m)
  case (Cons p rest)
  obtain k w where p: "p = (k, w)" by (cases p)
  have "h \<in> fst ` set m" using assms(2) omap_find_None_iff [of m h] by force
  moreover have "h \<le> k" using assms(3) Cons p by simp
  ultimately have "h = k" using assms(1) Cons p by (auto simp: omap_ok_Cons)
  then show ?thesis using Cons p assms(2) by (simp add: omap_find_Cons)
qed (use assms in simp)

text \<open>The tokens that a round commits, when the results have pairwise different ids.\<close>

lemma next_token_map_find:
  assumes "next_token_map vocab mo items = Some m" "distinct (map qr_query_id items)" "r \<in> set items"
  shows "omap_find m (qr_query_id r) = Some (fst (hd (qr_next_tokens r)),
      IsEos vocab (fst (hd (qr_next_tokens r))) \<or> qr_prefix_len r + 1 \<ge> mo)" "omap_ok m"
proof -
  let ?f = "\<lambda>r. (qr_query_id r, fst (hd (qr_next_tokens r)),
      IsEos vocab (fst (hd (qr_next_tokens r))) \<or> qr_prefix_len r + 1 \<ge> mo)"
  have m: "m = omap_of (map ?f items)"
    using assms(1) by (simp add: next_token_map_def omap_of_def fold_map comp_def Let_def split: if_splits)
  then show "omap_ok m" by (simp add: omap_ok_of)
  have "distinct (map fst (rev (map ?f items)))" using assms(2) by (simp add: rev_map [symmetric] comp_def)
  moreover have "?f r \<in> set (rev (map ?f items))" using assms(3) by simp
  ultimately show "omap_find m (qr_query_id r) = Some (fst (hd (qr_next_tokens r)),
      IsEos vocab (fst (hd (qr_next_tokens r))) \<or> qr_prefix_len r + 1 \<ge> mo)"
    unfolding m omap_find_of by (rule map_of_is_SomeI)
qed

lemma distinct_split:
  "distinct (map f xs) \<Longrightarrow> distinct (map f (filter (\<lambda>x. \<not> P x) xs) @ map f (filter P xs))"
  by (induction xs) auto

text \<open>The results of a round, one per query that was looked at.\<close>

lemma Infer_items:
  fixes forward :: "'t QueryProcInput list \<Rightarrow> int list \<Rightarrow> 'o" and eng :: "('f, 't, 'w) Engine"
    and sample :: "'o \<Rightarrow> int \<Rightarrow> int \<Rightarrow> int list \<Rightarrow> int list \<Rightarrow> int \<Rightarrow> (int \<times> 'x::one) list"
  assumes t: "table_ok (en_table eng)" and q: "query_map (en_table eng) = (h, q) # rest"
    and dec: "IsDecoderOnlyTransformer (net_type eng)"
    and some: "\<And>out row i p d s. sample out row i p d s \<noteq> []"
  defines "items \<equiv> Infer_CpuOnly forward sample eng"
  defines "sat \<equiv> is_saturated (ms_max_context_len (tm_spec (en_model eng))) (qs_decoder_tokens q) q"
  shows "distinct (map qr_query_id items)" "\<forall>r \<in> set items. qr_next_tokens r \<noteq> []"
    "\<exists>r \<in> set items. qr_query_id r = h \<and> (sat \<longrightarrow> fst (hd (qr_next_tokens r)) = eos_id (tm_vocabulary (en_model eng)))"
proof -
  let ?mc = "ms_max_context_len (tm_spec (en_model eng))"
  have enc: "\<not> IsEncoderOnlyTransformer (net_type eng)" using dec network_kinds_disjoint(1) by blast
  obtain E qs where qs: "subseq qs (map snd (query_map (en_table eng)))" "qs \<noteq> []" "hd qs = snd (hd (query_map (en_table eng)))"
    "E = (qs_next_net (snd (hd (query_map (en_table eng)))) = 0 \<and> \<not> IsDecoderOnlyTransformer (net_type eng))"
    "GetLocalInput eng [] = (True, \<lparr>li_query_list = place E ?mc qs 0,
        li_tokens = concat (map (phase_tokens E) qs), li_is_encoder = E\<rparr>,
      [] @ map qs_query_id (filter (\<lambda>q. is_saturated ?mc (phase_tokens E q) q) qs))"
    by (rule GetLocalInput_closed [OF t _ enc, of "[]"]) (simp add: q)
  have E: "phase_tokens E x = qs_decoder_tokens x" for x :: "'t QueryState"
    using qs(4) dec by (simp add: phase_tokens_def)
  let ?sat = "\<lambda>q. is_saturated ?mc (qs_decoder_tokens q) q"
  let ?out = "forward (place E ?mc qs 0) (concat (map (phase_tokens E) qs))"
  let ?eos = "\<lambda>i. \<lparr>qr_query_id = i, qr_prefix_len = ?mc, qr_next_tokens = [(eos_id (tm_vocabulary (en_model eng)), 1)]\<rparr>"
  have items: "items = map (sample_query sample ?out) (place E ?mc qs 0) @ map ?eos (map qs_query_id (filter ?sat qs))"
    by (simp add: items_def Infer_CpuOnly_def qs(5) HandleSaturatedQueries_def E del: map_map)
  have ids: "map qs_query_id (map snd (query_map (en_table eng))) = map fst (query_map (en_table eng))"
    using table_okD(4) [OF t] by (auto simp: qs_ok_def)
  have "distinct (map qs_query_id qs)"
    using distinct_subseq [OF subseq_map [OF qs(1), of qs_query_id]] omap_distinct [OF table_okD(1) [OF t]] ids by metis
  moreover have "map qr_query_id items = map qs_query_id (filter (\<lambda>q. \<not> ?sat q) qs) @ map qs_query_id (filter ?sat qs)"
    using place_ids(1) [of E ?mc qs 0] by (simp add: items comp_def sample_query_def E)
  ultimately show "distinct (map qr_query_id items)"
    using distinct_split [of qs_query_id qs ?sat] by metis
  show "\<forall>r \<in> set items. qr_next_tokens r \<noteq> []" using some by (auto simp: items sample_query_def)
  have hq: "q \<in> set qs" "qs_query_id q = h" using qs(2,3) q table_okD(4) [OF t, of "(h, q)"] list.set_sel(1) [of qs]
    by (auto simp: qs_ok_def)
  show "\<exists>r \<in> set items. qr_query_id r = h \<and> (sat \<longrightarrow> fst (hd (qr_next_tokens r)) = eos_id (tm_vocabulary (en_model eng)))"
  proof (cases sat)
    case True
    then have "?eos h \<in> set items" using hq by (auto simp: items sat_def)
    then show ?thesis by force
  next
    case False
    then have "h \<in> set (map qp_query_id (place E ?mc qs 0))" unfolding place_ids using hq by (auto simp: sat_def E)
    then obtain p where "p \<in> set (place E ?mc qs 0)" "qp_query_id p = h" by auto
    then have "sample_query sample ?out p \<in> set items" "qr_query_id (sample_query sample ?out p) = h"
      by (auto simp: items sample_query_def)
    then show ?thesis using False by blast
  qed
qed

lemma round_head:
  fixes forward :: "'t QueryProcInput list \<Rightarrow> int list \<Rightarrow> 'o" and eng :: "('f, 't, 'w) Engine"
    and sample :: "'o \<Rightarrow> int \<Rightarrow> int \<Rightarrow> int list \<Rightarrow> int list \<Rightarrow> int \<Rightarrow> (int \<times> 'x::one) list"
  assumes t: "table_ok (en_table eng)" and q: "query_map (en_table eng) = (h, q) # rest"
    and dec: "IsDecoderOnlyTransformer (net_type eng)"
    and some: "\<And>out row i p d s. sample out row i p d s \<noteq> []"
    and eos: "IsEos (tm_vocabulary (en_model eng)) (eos_id (tm_vocabulary (en_model eng)))"
  shows "\<exists>eng'. Service_Infer_Cpu forward sample mo eng = Some eng' \<and> en_model eng' = en_model eng \<and> table_ok (en_table eng')
    \<and> (GetQueryState (en_table eng') h = None
       \<or> (\<exists>tok rest'. query_map (en_table eng') = (h, committed tok q) # rest'
          \<and> \<not> is_saturated (ms_max_context_len (tm_spec (en_model eng))) (qs_decoder_tokens q) q))"
proof -
  let ?v = "tm_vocabulary (en_model eng)" and ?items = "Infer_CpuOnly forward sample eng"
  let ?sat = "is_saturated (ms_max_context_len (tm_spec (en_model eng))) (qs_decoder_tokens q) q"
  note items = Infer_items [where forward = forward and sample = sample, OF t q dec some]
  from items(3) obtain r where r: "r \<in> set ?items" "qr_query_id r = h" "?sat \<longrightarrow> fst (hd (qr_next_tokens r)) = eos_id ?v" by blast
  from items(2) obtain m where m: "next_token_map ?v mo ?items = Some m" by (auto simp: next_token_map_def)
  note find = next_token_map_find [OF m items(1) r(1), unfolded r(2)]
  let ?eng = "snd (CommitInferenceResult eng m)"
  have run: "Service_Infer_Cpu forward sample mo eng = Some ?eng"
    using m r(1) by (auto simp: Service_Infer_Cpu_def Let_def)
  have t': "en_table ?eng = snd (run_updates QST_Update (en_table eng) m)" "en_model ?eng = en_model eng"
    using Commit_run [of eng m] by simp_all
  have ok: "table_ok (en_table ?eng)" unfolding t'(1) by (rule qst.run_updates_ok [OF t])
  note upd = run_updates_find [OF t omap_distinct [OF find(2)]]
  let ?tok = "fst (hd (qr_next_tokens r))"
  have here: "omap_find (query_map (en_table ?eng)) h =
      (if IsEos ?v ?tok \<or> qr_prefix_len r + 1 \<ge> mo then None else Some (committed ?tok q))"
    unfolding t'(1) upd using find(1) q by (simp add: omap_find_def)
  show ?thesis
  proof (cases "omap_find (query_map (en_table ?eng)) h")
    case None
    then show ?thesis using run t'(2) ok by (auto simp: GetQueryState_def)
  next
    case (Some q')
    then have q': "q' = committed ?tok q" "\<not> IsEos ?v ?tok" using here by (auto split: if_splits)
    have "omap_find (query_map (en_table eng)) k = None \<Longrightarrow> omap_find (query_map (en_table ?eng)) k = None" for k
      using upd [of k] unfolding t'(1) by (auto split: option.splits)
    then have "k \<in> fst ` set (query_map (en_table ?eng)) \<Longrightarrow> k \<in> fst ` set (query_map (en_table eng))" for k
      using omap_find_None_iff by metis
    then have "\<And>k. k \<in> fst ` set (query_map (en_table ?eng)) \<Longrightarrow> h \<le> k"
      using table_okD(1) [OF t] q by (fastforce simp: omap_ok_Cons)
    from omap_head [OF table_okD(1) [OF ok] Some this] q' r(3) eos show ?thesis using run t'(2) ok by auto
  qed
qed

lemma saturated_history:
  assumes "table_ok t" "(h, q) \<in> set (query_map t)" "\<not> is_saturated mc (qs_decoder_tokens q) q"
  shows "int (length (history q)) \<le> mc"
  using table_okD(4) [OF assms(1,2)] assms(3) by (simp add: is_saturated_def Let_def qs_ok_def history_def)

lemma rounds_finish:
  fixes forward :: "'t QueryProcInput list \<Rightarrow> int list \<Rightarrow> 'o" and eng :: "('f, 't, 'w) Engine"
    and sample :: "'o \<Rightarrow> int \<Rightarrow> int \<Rightarrow> int list \<Rightarrow> int list \<Rightarrow> int \<Rightarrow> (int \<times> 'x::one) list"
  assumes some: "\<And>out row i p d s. sample out row i p d s \<noteq> []"
  shows "table_ok (en_table eng) \<Longrightarrow> query_map (en_table eng) = (h, q) # rest
    \<Longrightarrow> IsDecoderOnlyTransformer (net_type eng)
    \<Longrightarrow> IsEos (tm_vocabulary (en_model eng)) (eos_id (tm_vocabulary (en_model eng)))
    \<Longrightarrow> ms_max_context_len (tm_spec (en_model eng)) < int (length (history q) + n)
    \<Longrightarrow> \<exists>k \<le> n + 1. \<exists>eng'. service_rounds forward sample mo k eng = Some eng' \<and> GetQueryState (en_table eng') h = None"
proof (induction n arbitrary: eng q rest)
  case (0 eng q rest)
  from round_head [where forward = forward and sample = sample and mo = mo, OF 0(1-3) some 0(4)] saturated_history [OF 0(1), of h q] 0(2,5)
  obtain eng' where "Service_Infer_Cpu forward sample mo eng = Some eng'" "GetQueryState (en_table eng') h = None" by fastforce
  then show ?case by (intro exI [of _ 1]) simp
next
  case (Suc n eng q rest)
  from round_head [where forward = forward and sample = sample and mo = mo, OF Suc.prems(1-3) some Suc.prems(4)]
  obtain eng' where run: "Service_Infer_Cpu forward sample mo eng = Some eng'" "en_model eng' = en_model eng" "table_ok (en_table eng')"
    and alt: "GetQueryState (en_table eng') h = None \<or> (\<exists>tok rest'. query_map (en_table eng') = (h, committed tok q) # rest')" by blast
  from alt show ?case
  proof
    assume "GetQueryState (en_table eng') h = None"
    then show ?thesis using run by (intro exI [of _ 1]) simp
  next
    assume "\<exists>tok rest'. query_map (en_table eng') = (h, committed tok q) # rest'"
    then obtain tok rest' where q': "query_map (en_table eng') = (h, committed tok q) # rest'" by blast
    have "length (history (committed tok q)) = Suc (length (history q))" by (simp add: history_def committed_def)
    with Suc.IH [OF run(3) q'] Suc.prems(3-5) run(2)
    obtain k eng2 where "k \<le> n + 1" "service_rounds forward sample mo k eng' = Some eng2" "GetQueryState (en_table eng2) h = None"
      by (auto simp: net_type_def)
    then show ?thesis using run(1) by (intro exI [of _ "Suc k"]) simp
  qed
qed

text \<open>
  C4. Every query comes to its end: whatever the network computes and the sampler draws, the oldest
  query of a decoder-only model is finished after at most two rounds more than its context has
  room for tokens, provided that the end token is recognised as such.
\<close>

theorem oldest_query_finishes:
  assumes "engine_reach copy_rows eng" and "query_map (en_table eng) = (h, q) # rest"
    and "IsDecoderOnlyTransformer (net_type eng)"
    and "\<And>out row i p d s. sample out row i p d s \<noteq> []"
    and "IsEos (tm_vocabulary (en_model eng)) (eos_id (tm_vocabulary (en_model eng)))"
    and "ms_max_context_len (tm_spec (en_model eng)) < int (length (history q) + n)"
  shows "\<exists>k \<le> n + 1. \<exists>eng'. service_rounds forward sample mo k eng = Some eng' \<and> GetQueryState (en_table eng') h = None"
  using engine_okD(1) [OF engine_reach_ok [OF assms(1)]] assms(2-6) by (intro rounds_finish) auto

theorem oldest_query_finishes_witness:
  "\<exists>k \<le> 21. \<exists>eng'. service_rounds (\<lambda>_ _. ()) (\<lambda>_ _ _ _ _ _. [(9, 1 :: int)]) 1000 k one_query = Some eng'
    \<and> GetQueryState (en_table eng') 1 = None"
proof -
  obtain q where q: "history q = [7]" "query_map (en_table one_query) = [(1, q)]" by (rule one_query_state)
  have model: "en_model one_query = byte_model\<lparr>tm_spec := tiny_spec\<rparr>"
    by (simp add: one_query_def AddQuery_tokens_def tiny_engine_def split_beta Let_def)
  have "IsDecoderOnlyTransformer (net_type one_query)"
    by (simp add: net_type_def model tiny_spec_def IsDecoderOnlyTransformer_def)
  moreover have "IsEos (tm_vocabulary (en_model one_query)) (eos_id (tm_vocabulary (en_model one_query)))"
    by (simp add: model byte_model_def byte_vocab_def new_StdVocabulary_def IsEos_def)
  moreover have "ms_max_context_len (tm_spec (en_model one_query)) < int (length (history q) + 20)"
    using q(1) by (simp add: model tiny_spec_def)
  ultimately show ?thesis
    using oldest_query_finishes [OF one_query_reach q(2), of "\<lambda>_ _ _ _ _ _. [(9, 1 :: int)]" 20 "\<lambda>_ _. ()" 1000] by simp
qed

end
