(* ===== verification/NGram.thy ===== *)
theory NGram
  imports StdMap
begin

text \<open>
  The n-gram memory of the contrastive strategies (class \<open>NGram\<close> in
  src/src/transformer/sampling_strategy.h): for every length below \<open>n\<close> a map from a context to
  the tokens that followed it. Reading a missing context yields no tokens; using a length whose
  map has not been created is an access outside the vector, which is the value \<open>None\<close>.
\<close>

section \<open>Operations\<close>

record NGramMem =
  ng_n :: nat
  ng_tokens :: "int list"
  ng_generated :: "(int list, int list) omap list"

definition new_NGram :: "nat \<Rightarrow> NGramMem" where
  "new_NGram n = \<lparr>ng_n = n, ng_tokens = [], ng_generated = []\<rparr>"

definition ng_get :: "(int list, int list) omap \<Rightarrow> int list \<Rightarrow> int list" where
  "ng_get m key = (case omap_find m key of None \<Rightarrow> [] | Some v \<Rightarrow> v)"

definition ng_push :: "int list \<Rightarrow> int \<Rightarrow> (int list, int list) omap \<Rightarrow> (int list, int list) omap" where
  "ng_push key tok m = omap_put key (ng_get m key @ [tok]) m"

definition vec_resize :: "nat \<Rightarrow> 'a \<Rightarrow> 'a list \<Rightarrow> 'a list" where
  "vec_resize n d xs = take n xs @ replicate (n - length xs) d"

text \<open>The inner loop of \<open>initialize\<close>: the windows of one length.\<close>

definition init_length :: "int list \<Rightarrow> nat \<Rightarrow> (int list, int list) omap \<Rightarrow> (int list, int list) omap" where
  "init_length input_ids idx m =
     fold (\<lambda>i m. ng_push (take (idx - 1) (drop i input_ids)) (input_ids ! (i + idx - 1)) m)
       [0..<length input_ids + 1 - idx] m"

definition NGram_initialize :: "NGramMem \<Rightarrow> int list \<Rightarrow> NGramMem" where
  "NGram_initialize ng input_ids =
     (let maps = vec_resize (ng_n ng) [] (ng_generated ng)
      in ng\<lparr>ng_tokens := input_ids,
            ng_generated := (if input_ids = [] then maps
              else map (\<lambda>idx. init_length input_ids idx (maps ! (idx - 1))) [1..<ng_n ng + 1])\<rparr>)"

definition NGram_update :: "NGramMem \<Rightarrow> int \<Rightarrow> NGramMem option" where
  "NGram_update ng new_token =
     map_option (\<lambda>maps. ng\<lparr>ng_tokens := ng_tokens ng @ [new_token], ng_generated := maps\<rparr>)
       (fold (\<lambda>i acc. case acc of None \<Rightarrow> None
          | Some maps \<Rightarrow>
              if length (ng_tokens ng) < i then Some maps
              else if i < length maps
              then Some (maps[i := ng_push (drop (length (ng_tokens ng) - i) (ng_tokens ng)) new_token (maps ! i)])
              else None)
         [0..<ng_n ng] (Some (ng_generated ng)))"

definition get_prefix_length :: "NGramMem \<Rightarrow> nat" where
  "get_prefix_length ng = length (ng_tokens ng)"

section \<open>What the memory holds\<close>

text \<open>The tokens that follow the occurrences of a context of \<open>i\<close> tokens, in order.\<close>

definition followers :: "int list \<Rightarrow> nat \<Rightarrow> int list \<Rightarrow> int list" where
  "followers xs i key = map ((!) xs) (filter (\<lambda>j. take i (drop (j - i) xs) = key) [i..<length xs])"

definition ng_rep :: "NGramMem \<Rightarrow> int list \<Rightarrow> bool" where
  "ng_rep ng xs \<longleftrightarrow> ng_tokens ng = xs \<and> length (ng_generated ng) = ng_n ng
     \<and> (\<forall>i < ng_n ng. \<forall>key. ng_get (ng_generated ng ! i) key = followers xs i key)"

lemma ng_get_Nil [simp]: "ng_get [] key = []"
  by (simp add: ng_get_def)

lemma ng_get_push: "ng_get (ng_push key tok m) k = (if k = key then ng_get m key @ [tok] else ng_get m k)"
  by (simp add: ng_get_def ng_push_def omap_find_put)

lemma followers_snoc:
  "followers (xs @ [x]) i key = followers xs i key
    @ (if i \<le> length xs \<and> drop (length xs - i) xs = key then [x] else [])"
proof (cases "i \<le> length xs")
  case True
  have "take i (drop (j - i) (xs @ [x])) = take i (drop (j - i) xs)" if "i \<le> j" "j \<le> length xs" for j
    using that by simp
  then have "filter (\<lambda>j. take i (drop (j - i) (xs @ [x])) = key) [i..<length xs]
      = filter (\<lambda>j. take i (drop (j - i) xs) = key) [i..<length xs]"
    by (intro filter_cong) auto
  moreover have "take i (drop (length xs - i) (xs @ [x])) = drop (length xs - i) xs" using True by simp
  ultimately show ?thesis using True
    by (auto simp: followers_def nth_append intro!: map_cong)
qed (simp add: followers_def)

lemma followers_Nil [simp]: "followers [] i key = []"
  by (simp add: followers_def)

lemma init_length_get:
  assumes "0 < idx"
  shows "ng_get (init_length xs idx m) key = ng_get m key @ followers xs (idx - 1) key"
proof -
  have "ng_get (fold (\<lambda>i m. ng_push (take (idx - 1) (drop i xs)) (xs ! (i + idx - 1)) m) is m) key
      = ng_get m key @ map (\<lambda>i. xs ! (i + idx - 1)) (filter (\<lambda>i. take (idx - 1) (drop i xs) = key) is)" for "is"
    by (induction "is" rule: rev_induct) (auto simp: ng_get_push)
  moreover obtain k where k: "idx = Suc k" using assms by (cases idx) auto
  moreover have "[k..<length xs] = map (\<lambda>i. i + k) [0..<length xs - k]"
    by (cases "k \<le> length xs") (simp_all add: map_add_upt)
  ultimately show ?thesis by (simp add: init_length_def followers_def filter_map o_def)
qed

lemma initialize_rep: "ng_rep (NGram_initialize (new_NGram n) xs) xs"
  by (auto simp: ng_rep_def NGram_initialize_def new_NGram_def vec_resize_def init_length_get Let_def
      simp del: upt_Suc)

lemma update_maps:
  assumes "length maps = n" "k \<le> n"
  shows "fold (\<lambda>i acc. case acc of None \<Rightarrow> None
          | Some maps \<Rightarrow> if length xs < i then Some maps
              else if i < length maps then Some (maps[i := ng_push (drop (length xs - i) xs) x (maps ! i)]) else None)
        [0..<k] (Some maps)
    = Some (map (\<lambda>i. if i < k \<and> i \<le> length xs then ng_push (drop (length xs - i) xs) x (maps ! i) else maps ! i) [0..<n])"
  using assms(2)
proof (induction k)
  case 0
  then show ?case using assms(1) map_nth [of maps] by simp
next
  case (Suc k)
  let ?M = "\<lambda>k. map (\<lambda>i. if i < k \<and> i \<le> length xs then ng_push (drop (length xs - i) xs) x (maps ! i) else maps ! i) [0..<n]"
  have "(if length xs < k then ?M k else (?M k)[k := ng_push (drop (length xs - k) xs) x (?M k ! k)]) = ?M (Suc k)"
    using Suc.prems by (auto intro!: nth_equalityI simp: nth_list_update less_Suc_eq simp del: upt_Suc)
  moreover have "k < length (?M k)" using Suc.prems by simp
  ultimately show ?case using Suc by (cases "length xs < k") (simp_all del: length_map length_upt)
qed

lemma update_rep:
  assumes "ng_rep ng xs"
  shows "\<exists>ng'. NGram_update ng x = Some ng' \<and> ng_rep ng' (xs @ [x]) \<and> ng_n ng' = ng_n ng"
proof -
  have "ng_tokens ng = xs" "length (ng_generated ng) = ng_n ng" using assms by (auto simp: ng_rep_def)
  with update_maps [OF this(2) order_refl, of xs x] assms show ?thesis
    by (auto simp: NGram_update_def ng_rep_def followers_snoc ng_get_push)
qed

text \<open>The memory after a sequence of generated tokens.\<close>

primrec NGram_updates :: "NGramMem \<Rightarrow> int list \<Rightarrow> NGramMem option" where
  "NGram_updates ng [] = Some ng"
| "NGram_updates ng (x # xs) = (case NGram_update ng x of None \<Rightarrow> None | Some ng' \<Rightarrow> NGram_updates ng' xs)"

text \<open>
  C30. The incremental n-gram memory is exact: after initialisation with the prompt and any number
  of updates, every context below the maximal length is mapped to the tokens that followed
  it in the whole text, in order, and no update goes out of range.
\<close>

theorem NGram_incremental:
  "\<exists>ng. NGram_updates (NGram_initialize (new_NGram n) prompt) out = Some ng
    \<and> ng_tokens ng = prompt @ out
    \<and> map (\<lambda>i. ng_get (ng_generated ng ! i) (key i)) [0..<n] = map (\<lambda>i. followers (prompt @ out) i (key i)) [0..<n]"
proof -
  have "\<exists>ng'. NGram_updates ng out = Some ng' \<and> ng_rep ng' (xs @ out) \<and> ng_n ng' = ng_n ng" if "ng_rep ng xs" for ng xs
    using that
  proof (induction out arbitrary: ng xs)
    case (Cons x out)
    obtain ng1 where "NGram_update ng x = Some ng1" "ng_rep ng1 (xs @ [x])" "ng_n ng1 = ng_n ng"
      using update_rep [OF Cons.prems] by blast
    then show ?case using Cons.IH [of ng1 "xs @ [x]"] by simp
  qed simp
  from this [OF initialize_rep, of n prompt] show ?thesis
    by (auto simp: ng_rep_def NGram_initialize_def new_NGram_def Let_def)
qed

section \<open>The memory in the randomised strategy\<close>

text \<open>
  The use of the memory in one call of \<open>RandomizedFSDSamplingStrategy::ChooseTokens\<close>: the contrastive
  branch is taken for a later token or for a draw of at least one half, and only there the
  memory is initialised; the selected token is always added to it.
\<close>

definition RandomizedFSD_memory :: "bool \<Rightarrow> int \<Rightarrow> bool \<Rightarrow> int list \<Rightarrow> int \<Rightarrow> NGramMem \<Rightarrow> (bool \<times> NGramMem) option" where
  "RandomizedFSD_memory started new_tokens draw_at_least_half prompt selected ng =
     (let (started', ng') = (if new_tokens \<ge> 10 \<or> draw_at_least_half
            then if \<not> started then (True, NGram_initialize ng prompt) else (started, ng)
            else (started, ng))
      in map_option (Pair started') (NGram_update ng' selected))"

text \<open>
  The randomised strategy reads outside the memory when the first token of a query is drawn
  by sampling: the memory has not been created, yet the selected token is added to it.
\<close>

lemma RandomizedFSD_uninitialised:
  "RandomizedFSD_memory False 0 False prompt selected (new_NGram (Suc n)) = None
   \<and> RandomizedFSD_memory False 0 True prompt selected (new_NGram (Suc n)) \<noteq> None"
proof -
  have "fold (\<lambda>i acc. case acc of None \<Rightarrow> None | Some maps \<Rightarrow> f i maps) is None = None" for f "is"
    by (induction "is") simp_all
  then have "NGram_update (new_NGram (Suc n)) selected = None"
    by (simp add: NGram_update_def new_NGram_def upt_rec [of 0 "Suc n"] del: upt_Suc)
  then show ?thesis using update_rep [OF initialize_rep, of "Suc n" prompt selected]
    by (auto simp: RandomizedFSD_memory_def)
qed

end
