(* ===== verification/LayerPartition.thy ===== *)
theory LayerPartition
  imports ModelTypes "HOL-Library.Signed_Division"
begin

text \<open>
  The placement of the layers of a network on groups of devices: the layer assignments
  (src/src/transformer/network_builder.h and .cc) and the creation of the GPU workers from them
  (src/src/transformer/inference_engine.cc). A group of devices is a list of device ids, and a worker
  is represented by the arguments it is initialised with.
\<close>

section \<open>Layer assignments\<close>

record LayerAssignment =
  la_devices :: "int list"
  la_start_layer :: int
  la_end_layer :: int

text \<open>The assignment of one group; the division is the one of C++, towards zero.\<close>

definition layer_num_per_group :: "int \<Rightarrow> int \<Rightarrow> nat \<Rightarrow> int" where
  "layer_num_per_group start_layer end_layer worker_group_num =
     (end_layer - start_layer + int worker_group_num - 1) sdiv int worker_group_num"

definition group_assignment :: "int \<Rightarrow> int \<Rightarrow> int list list \<Rightarrow> nat \<Rightarrow> LayerAssignment" where
  "group_assignment start_layer end_layer device_groups group_id =
     (let per_group = layer_num_per_group start_layer end_layer (length device_groups)
      in \<lparr>la_devices = device_groups ! group_id,
          la_start_layer = start_layer + int group_id * per_group,
          la_end_layer = (if group_id + 1 = length device_groups then end_layer else (int group_id + 1) * per_group)\<rparr>)"

definition SplitGpuLayers :: "int \<Rightarrow> int \<Rightarrow> int list list \<Rightarrow> LayerAssignment list" where
  "SplitGpuLayers start_layer end_layer device_groups =
     filter (\<lambda>la. la_end_layer la > la_start_layer la)
       (map (group_assignment start_layer end_layer device_groups) [0..<length device_groups])"

definition GetDeviceAssignments :: "ModelSpec \<Rightarrow> bool \<Rightarrow> int \<Rightarrow> LayerAssignment list" where
  "GetDeviceAssignments spec is_encoder start_gpu_layer =
     (let hparams = ms_hyper_params spec
      in if is_encoder \<and> hp_encoder_layers hparams > 0
         then SplitGpuLayers start_gpu_layer (hp_encoder_layers hparams) (ms_device_groups spec)
         else if \<not> is_encoder \<and> hp_decoder_layers hparams > 0
         then SplitGpuLayers start_gpu_layer (hp_decoder_layers hparams) (ms_device_groups spec)
         else [])"

record ModelPartition =
  mp_encoder_assignments :: "LayerAssignment list"
  mp_decoder_assignments :: "LayerAssignment list"

text \<open>The partition that \<open>InferenceEngine::Init\<close> computes.\<close>

definition Init_partition :: "ModelSpec \<Rightarrow> ModelPartition" where
  "Init_partition spec =
     \<lparr>mp_encoder_assignments = GetDeviceAssignments spec True (ms_encoder_cpu_layer_count spec),
      mp_decoder_assignments = GetDeviceAssignments spec False (ms_decoder_cpu_layer_count spec)\<rparr>"

section \<open>Workers\<close>

record LayerRange =
  lr_layer_num :: int
  lr_start :: int
  lr_end :: int

record GpuWorker =
  gw_worker_id :: nat
  gw_group_size :: nat
  gw_group_idx :: nat
  gw_group_num :: nat
  gw_device_id :: int
  gw_encoder_layer_range :: LayerRange
  gw_decoder_layer_range :: LayerRange
  gw_is_by_layer :: bool

text \<open>The ranges are variables outside the loops: without an assignment the old range stays.\<close>

definition next_range :: "LayerAssignment list \<Rightarrow> nat \<Rightarrow> LayerRange \<Rightarrow> LayerRange" where
  "next_range las group_idx rg =
     (if group_idx \<ge> length las then rg
      else rg\<lparr>lr_start := la_start_layer (las ! group_idx), lr_end := la_end_layer (las ! group_idx)\<rparr>)"

primrec create_group :: "ModelSpec \<Rightarrow> ModelPartition \<Rightarrow> nat \<Rightarrow> int list \<Rightarrow> nat \<Rightarrow> nat \<Rightarrow> LayerRange \<times> LayerRange
    \<Rightarrow> GpuWorker list \<times> LayerRange \<times> LayerRange" where
  "create_group spec mp group_idx [] worker_id group_size ranges = ([], ranges)"
| "create_group spec mp group_idx (device_id # devices) worker_id group_size ranges =
     (let enc = next_range (mp_encoder_assignments mp) group_idx (fst ranges);
          dec = next_range (mp_decoder_assignments mp) group_idx (snd ranges);
          worker = \<lparr>gw_worker_id = worker_id, gw_group_size = group_size, gw_group_idx = group_idx,
            gw_group_num = length (ms_device_groups spec), gw_device_id = device_id,
            gw_encoder_layer_range = enc, gw_decoder_layer_range = dec,
            gw_is_by_layer = (ms_multi_gpu_strategy spec = MGS_BY_LAYER)\<rparr>;
          (workers, ranges') = create_group spec mp group_idx devices (worker_id + 1) group_size (enc, dec)
      in (worker # workers, ranges'))"

primrec create_groups :: "ModelSpec \<Rightarrow> ModelPartition \<Rightarrow> nat \<Rightarrow> int list list \<Rightarrow> LayerRange \<times> LayerRange
    \<Rightarrow> GpuWorker list list" where
  "create_groups spec mp group_idx [] ranges = []"
| "create_groups spec mp group_idx (device_group # groups) ranges =
     (let (workers, ranges') = create_group spec mp group_idx device_group 0 (length device_group) ranges
      in workers # create_groups spec mp (group_idx + 1) groups ranges')"

definition CreateGpuWorkers :: "ModelSpec \<Rightarrow> ModelPartition \<Rightarrow> bool \<times> GpuWorker list list" where
  "CreateGpuWorkers spec mp =
     (if max (length (mp_encoder_assignments mp)) (length (mp_decoder_assignments mp)) \<noteq> length (ms_device_groups spec)
      then (False, [])
      else (True, create_groups spec mp 0 (ms_device_groups spec)
        (\<lparr>lr_layer_num = hp_encoder_layers (ms_hyper_params spec), lr_start = 0, lr_end = 0\<rparr>,
         \<lparr>lr_layer_num = hp_decoder_layers (ms_hyper_params spec), lr_start = 0, lr_end = 0\<rparr>)))"

section \<open>The assignments cover the layers\<close>

abbreviation la_layers :: "LayerAssignment \<Rightarrow> int list" where
  "la_layers la \<equiv> [la_start_layer la .. la_end_layer la - 1]"

lemma upto_glue: "(i::int) \<le> j \<Longrightarrow> j \<le> k \<Longrightarrow> [i..j - 1] @ [j..k - 1] = [i..k - 1]"
  using upto_split1 [of i j "k - 1"] by (cases "j = k") auto

lemma concat_upto:
  fixes f :: "nat \<Rightarrow> int"
  assumes "\<And>i. i < n \<Longrightarrow> f i \<le> f (Suc i)"
  shows "concat (map (\<lambda>i. [f i .. f (Suc i) - 1]) [0..<n]) = [f 0 .. f n - 1] \<and> f 0 \<le> f n"
  using assms
proof (induction n)
  case (Suc n)
  then have "concat (map (\<lambda>i. [f i .. f (Suc i) - 1]) [0..<n]) = [f 0 .. f n - 1]" "f 0 \<le> f n" by auto
  with upto_glue [of "f 0" "f n" "f (Suc n)"] Suc.prems [of n] show ?case by auto
qed simp

lemma filter_all_length: "length (filter P xs) = length xs \<longleftrightarrow> (\<forall>x \<in> set xs. P x)"
  by (metis length_filter_less nless_le filter_True)

lemma SplitGpuLayers_full:
  assumes "length (SplitGpuLayers s e groups) = length groups"
  shows "SplitGpuLayers s e groups = map (group_assignment s e groups) [0..<length groups]"
    and "\<And>i. i < length groups \<Longrightarrow> la_start_layer (group_assignment s e groups i) < la_end_layer (group_assignment s e groups i)"
proof -
  let ?xs = "map (group_assignment s e groups) [0..<length groups]"
  have all: "\<forall>la \<in> set ?xs. la_end_layer la > la_start_layer la"
    using assms filter_all_length [of "\<lambda>la. la_end_layer la > la_start_layer la" ?xs] by (simp add: SplitGpuLayers_def)
  then show "SplitGpuLayers s e groups = ?xs" by (simp add: SplitGpuLayers_def filter_True)
  show "la_start_layer (group_assignment s e groups i) < la_end_layer (group_assignment s e groups i)"
    if "i < length groups" for i using all that by auto
qed

lemma SplitGpuLayers_partition:
  assumes len: "length (SplitGpuLayers 0 e groups) = length groups" and "groups \<noteq> []"
  shows "concat (map la_layers (SplitGpuLayers 0 e groups)) = [0..e - 1]"
    and "map la_devices (SplitGpuLayers 0 e groups) = groups"
proof -
  let ?n = "length groups"
  define per where "per = layer_num_per_group 0 e ?n"
  define f where "f i = (if i = ?n then e else int i * per)" for i
  have la: "la_start_layer (group_assignment 0 e groups i) = f i"
    "la_end_layer (group_assignment 0 e groups i) = f (Suc i)" if "i < ?n" for i
    using that by (auto simp: group_assignment_def Let_def f_def per_def)
  have mono: "f i \<le> f (Suc i)" if "i < ?n" for i
    using SplitGpuLayers_full(2) [OF len that] la [OF that] by simp
  have "concat (map la_layers (SplitGpuLayers 0 e groups)) = concat (map (\<lambda>i. [f i .. f (Suc i) - 1]) [0..<?n])"
    unfolding SplitGpuLayers_full(1) [OF len] by (intro arg_cong [of _ _ concat]) (auto simp: la)
  also have "\<dots> = [0..e - 1]" using concat_upto [of ?n f, OF mono] assms(2) by (simp add: f_def)
  finally show "concat (map la_layers (SplitGpuLayers 0 e groups)) = [0..e - 1]" .
  show "map la_devices (SplitGpuLayers 0 e groups) = groups"
    unfolding SplitGpuLayers_full(1) [OF len] by (intro nth_equalityI) (auto simp: group_assignment_def Let_def)
qed

section \<open>Workers carry the assignments of their group\<close>

lemma next_range_idem [simp]: "next_range las g (next_range las g rg) = next_range las g rg"
  by (simp add: next_range_def)

lemma create_group_workers:
  "create_group spec mp g devices k n ranges = (ws, ranges') \<Longrightarrow>
     map gw_device_id ws = devices \<and> map gw_worker_id ws = [k..<k + length devices] \<and>
     (\<forall>w \<in> set ws. gw_group_idx w = g \<and> gw_group_size w = n
        \<and> gw_encoder_layer_range w = next_range (mp_encoder_assignments mp) g (fst ranges)
        \<and> gw_decoder_layer_range w = next_range (mp_decoder_assignments mp) g (snd ranges))"
proof (induction devices arbitrary: k ranges ws ranges')
  case (Cons d ds)
  obtain ws1 r1 where rec: "create_group spec mp g ds (Suc k) n
      (next_range (mp_encoder_assignments mp) g (fst ranges), next_range (mp_decoder_assignments mp) g (snd ranges)) = (ws1, r1)"
    using prod.exhaust by blast
  with Cons.IH [OF rec] Cons.prems show ?case by (auto simp: Let_def upt_conv_Cons simp del: upt_Suc)
qed simp

lemma create_groups_workers:
  "g + length groups = length (mp_decoder_assignments mp) \<Longrightarrow>
     map (map gw_device_id) (create_groups spec mp g groups ranges) = groups
     \<and> list_all2 (\<lambda>la ws. \<forall>w \<in> set ws. lr_start (gw_decoder_layer_range w) = la_start_layer la
           \<and> lr_end (gw_decoder_layer_range w) = la_end_layer la)
         (drop g (mp_decoder_assignments mp)) (create_groups spec mp g groups ranges)"
proof (induction groups arbitrary: g ranges)
  case (Cons ds groups)
  obtain ws r where grp: "create_group spec mp g ds 0 (length ds) ranges = (ws, r)" using prod.exhaust by blast
  have "drop g (mp_decoder_assignments mp) = mp_decoder_assignments mp ! g # drop (Suc g) (mp_decoder_assignments mp)"
    using Cons.prems by (simp add: Cons_nth_drop_Suc)
  moreover have "g < length (mp_decoder_assignments mp)" using Cons.prems by simp
  ultimately show ?case
    using Cons.IH [of "Suc g" r] Cons.prems create_group_workers [OF grp] by (auto simp: grp next_range_def)
qed simp

text \<open>
  C14. When the workers of a decoder-only model without CPU layers are created successfully, every
  device of every group has one worker, all workers of a group run the same range of layers, and
  the ranges of the groups follow each other without gap or overlap from the first layer to the
  last.
\<close>

theorem CreateGpuWorkers_cover:
  assumes "hp_encoder_layers (ms_hyper_params spec) \<le> 0" "hp_decoder_layers (ms_hyper_params spec) > 0"
    and "ms_decoder_cpu_layer_count spec = 0" "ms_device_groups spec \<noteq> []"
    and "CreateGpuWorkers spec (Init_partition spec) = (True, groups)"
  shows "map (map gw_device_id) groups = ms_device_groups spec
     \<and> (\<exists>ranges. list_all2 (\<lambda>(a, b) ws. \<forall>w \<in> set ws. lr_start (gw_decoder_layer_range w) = a
            \<and> lr_end (gw_decoder_layer_range w) = b) ranges groups
         \<and> concat (map (\<lambda>(a, b). [a..b - 1]) ranges) = [0..hp_decoder_layers (ms_hyper_params spec) - 1])"
proof -
  let ?mp = "Init_partition spec" and ?L = "hp_decoder_layers (ms_hyper_params spec)"
  let ?las = "SplitGpuLayers 0 ?L (ms_device_groups spec)"
  have parts: "mp_encoder_assignments ?mp = []" "mp_decoder_assignments ?mp = ?las"
    using assms(1-3) by (simp_all add: Init_partition_def GetDeviceAssignments_def Let_def)
  have len: "length ?las = length (ms_device_groups spec)"
    using assms(5) by (auto simp: CreateGpuWorkers_def parts split: if_splits)
  obtain rs where groups: "groups = create_groups spec ?mp 0 (ms_device_groups spec) rs"
    using assms(5) by (auto simp: CreateGpuWorkers_def split: if_splits)
  have all: "map (map gw_device_id) groups = ms_device_groups spec"
    "list_all2 (\<lambda>la ws. \<forall>w \<in> set ws. lr_start (gw_decoder_layer_range w) = la_start_layer la
        \<and> lr_end (gw_decoder_layer_range w) = la_end_layer la) ?las groups"
    using create_groups_workers [of 0 "ms_device_groups spec" ?mp spec rs] len parts groups by simp_all
  let ?ranges = "map (\<lambda>la. (la_start_layer la, la_end_layer la)) ?las"
  have "list_all2 (\<lambda>(a, b) ws. \<forall>w \<in> set ws. lr_start (gw_decoder_layer_range w) = a
      \<and> lr_end (gw_decoder_layer_range w) = b) ?ranges groups"
    using all(2) by (simp add: list_all2_map1)
  moreover have "concat (map (\<lambda>(a, b). [a..b - 1]) ?ranges) = [0..?L - 1]"
    using SplitGpuLayers_partition(1) [OF len assms(4)] by (simp add: o_def)
  ultimately show ?thesis using all(1) by blast
qed

definition two_gpu_spec :: ModelSpec where
  "two_gpu_spec = default_ModelSpec\<lparr>ms_hyper_params := default_hparams\<lparr>hp_encoder_layers := 0, hp_decoder_layers := 5\<rparr>,
     ms_device_groups := [[0, 1], [2, 3]], ms_decoder_cpu_layer_count := 0\<rparr>"

theorem CreateGpuWorkers_cover_witness:
  "map (map gw_device_id) (snd (CreateGpuWorkers two_gpu_spec (Init_partition two_gpu_spec))) = [[0, 1], [2, 3]]"
proof -
  have "fst (CreateGpuWorkers two_gpu_spec (Init_partition two_gpu_spec))" by code_simp
  then obtain groups where "CreateGpuWorkers two_gpu_spec (Init_partition two_gpu_spec) = (True, groups)"
    by (cases "CreateGpuWorkers two_gpu_spec (Init_partition two_gpu_spec)") simp
  from CreateGpuWorkers_cover [OF _ _ _ _ this] this show ?thesis by (simp add: two_gpu_spec_def)
qed

section \<open>Layers on the CPU\<close>

text \<open>
  C33. With some layers on the CPU and more than one group of devices the remaining layers are never
  placed completely: either fewer assignments than groups result, and no worker is created, or a
  layer between the first GPU layer and the last layer belongs to no assignment (the end of a range
  does not count the CPU layers).
\<close>

theorem SplitGpuLayers_loses_layers:
  assumes "0 < start_layer" "start_layer < end_layer" "2 \<le> length device_groups"
  shows "length (SplitGpuLayers start_layer end_layer device_groups) < length device_groups
     \<or> (\<exists>layer. start_layer \<le> layer \<and> layer < end_layer
          \<and> (\<forall>la \<in> set (SplitGpuLayers start_layer end_layer device_groups). layer \<notin> set (la_layers la)))"
proof (cases "length (SplitGpuLayers start_layer end_layer device_groups) < length device_groups")
  case False
  let ?n = "length device_groups" and ?las = "SplitGpuLayers start_layer end_layer device_groups"
  let ?per = "layer_num_per_group start_layer end_layer ?n"
  have len: "length ?las = ?n"
    using False length_filter_le [of _ "map (group_assignment start_layer end_layer device_groups) [0..<?n]"]
    by (auto simp: SplitGpuLayers_def not_less intro: le_antisym)
  have order: "la_start_layer (group_assignment start_layer end_layer device_groups i)
      < la_end_layer (group_assignment start_layer end_layer device_groups i)" if "i < ?n" for i
    by (rule SplitGpuLayers_full(2) [OF len that])
  have first: "start_layer < ?per" using order [of 0] assms(3)
    by (cases device_groups) (auto simp: group_assignment_def Let_def split: if_splits)
  have "start_layer + int (?n - 1) * ?per < end_layer"
    using order [of "?n - 1"] assms(3)
    by (cases device_groups) (auto simp: group_assignment_def Let_def split: if_splits)
  moreover have "?per \<le> int (?n - 1) * ?per" using assms(3) first assms(1) by (simp add: mult_le_cancel_right1)
  ultimately have "?per < end_layer" using assms(1) by linarith
  moreover have "?per \<notin> set (la_layers la)" if mem: "la \<in> set ?las" for la
  proof -
    obtain i where i: "i < ?n" "la = group_assignment start_layer end_layer device_groups i"
      using mem by (auto simp: SplitGpuLayers_def)
    show ?thesis
    proof (cases i)
      case 0
      then show ?thesis using i assms(3) by (auto simp: group_assignment_def Let_def)
    next
      case (Suc j)
      have "?per \<le> int i * ?per" using Suc first assms(1) by (simp add: mult_le_cancel_right1)
      then show ?thesis using i assms(1) by (auto simp: group_assignment_def Let_def)
    qed
  qed
  ultimately show ?thesis using first by (intro disjI2 exI [of _ ?per]) auto
qed simp

theorem SplitGpuLayers_loses_layers_witness:
  "\<exists>layer. 4 \<le> layer \<and> layer < (16 :: int) \<and> (\<forall>la \<in> set (SplitGpuLayers 4 16 [[0], [1]]). layer \<notin> set (la_layers la))"
proof -
  have "\<not> length (SplitGpuLayers 4 16 [[0], [1]]) < length [[0 :: int], [1]]" by code_simp
  with SplitGpuLayers_loses_layers [of 4 16 "[[0], [1]]"] show ?thesis by auto
qed

end
