(* ===== verification/EngineConfig.thy ===== *)
theory EngineConfig
  imports ConfigData NetworkStructure Tokenizer Sampling "HOL-Library.Signed_Division"
begin

text \<open>
  Loading the configuration of the engine (src/src/transformer/inference_engine.cc: \<open>LoadConfig\<close>,
  \<open>LoadModelSpec\<close>, \<open>LoadDeviceGroups\<close>, \<open>LoadPromptTemplates\<close>; model_reader.cc:
  \<open>LoadModelSpecJson\<close>; model.cc: the name tables and \<open>CheckModelSpec\<close>). The texts of the files are
  arguments, and the JSON documents are represented by the values that \<open>GetFieldValue\<close> yields.
\<close>

section \<open>Results of loading\<close>

text \<open>
  An operation that reads items either does not return (a macro that refers to itself), returns
  false, or returns true with the data it has filled in.
\<close>

datatype cfg_error = NoReturn | Refused

type_synonym 'a cfg_res = "cfg_error + 'a"

definition and_then :: "'a cfg_res \<Rightarrow> ('a \<Rightarrow> 'b cfg_res) \<Rightarrow> 'b cfg_res" where
  "and_then m f = (case m of Inl e \<Rightarrow> Inl e | Inr a \<Rightarrow> f a)"

definition returned :: "'a option \<Rightarrow> 'a cfg_res" where
  "returned m = (case m of None \<Rightarrow> Inl NoReturn | Some a \<Rightarrow> Inr a)"

definition must :: "(bool \<times> 'a) option \<Rightarrow> 'a cfg_res" where
  "must m = and_then (returned m) (\<lambda>(ok, a). if ok then Inr a else Inl Refused)"

definition may :: "(bool \<times> 'a) option \<Rightarrow> 'a cfg_res" where
  "may m = and_then (returned m) (\<lambda>(ok, a). Inr a)"

lemma and_then_Inr: "and_then m f = Inr b \<longleftrightarrow> (\<exists>a. m = Inr a \<and> f a = Inr b)"
  by (cases m) (auto simp: and_then_def)

lemma and_then_InrE:
  assumes "and_then m f = Inr b"
  obtains a where "m = Inr a" "f a = Inr b"
  using assms by (auto simp: and_then_Inr)

lemma and_then_simps [simp]: "and_then (Inr a) f = f a" "and_then (Inl e) f = Inl e"
  by (simp_all add: and_then_def)

section \<open>Name tables\<close>

datatype ModelFileFormat = MF_Unknown | MF_Std | MF_Pickle | MF_Safetensors | MF_GGML | MF_GGUF | MF_LLAMA2_C

definition InitModelFileFormatMap :: "(string, ModelFileFormat) omap" where
  "InitModelFileFormatMap = nocase_table [(''std'', MF_Std), (''pickle'', MF_Pickle),
     (''safetensors'', MF_Safetensors), (''ggml'', MF_GGML), (''gguf'', MF_GGUF), (''llama2.c'', MF_LLAMA2_C)]"

definition InitNetworkStructureMap :: "(string, NetworkType) omap" where
  "InitNetworkStructureMap = nocase_table [(''general'', NT_General), (''transformer'', NT_Transformer),
     (''transformer.encoder_decoder'', NT_EncoderDecoder_Transformer),
     (''transformer.encoder_only'', NT_EncoderOnly_Transformer),
     (''transformer.decoder_only'', NT_DecoderOnly_Transformer),
     (''transformer.decoder_only.sparse_moe'', NT_SparseMoe_DecoderOnly_Transformer),
     (''bert'', NT_BERT), (''llama'', NT_LLAMA), (''transformer.llama'', NT_LLAMA),
     (''bloom'', NT_BLOOM), (''transformer.bloom'', NT_BLOOM)]"

text \<open>
  \<open>CheckModelSpec\<close>: \<open>None\<close> is the access to a missing first group or the remainder by zero.
  The format of the attention weights is an argument.
\<close>

definition CheckModelSpec :: "int \<Rightarrow> ModelSpec \<Rightarrow> bool option" where
  "CheckModelSpec qkv_format spec =
     (if ms_multi_gpu_strategy spec = MGS_BY_LAYER then Some True
      else if ms_device_groups spec = [] then None
      else
        let device_num_per_group = int (length (hd (ms_device_groups spec)))
        in if device_num_per_group = 0 then None
           else Some (hp_decoder_heads (ms_hyper_params spec) smod device_num_per_group = 0
             \<and> hp_decoder_kv_heads (ms_hyper_params spec) smod device_num_per_group = 0
             \<and> qkv_format = 0))"

section \<open>Device groups\<close>

definition parse_device_group :: "string \<Rightarrow> int list" where
  "parse_device_group token_str =
     map (\<lambda>s. atoi (c_str s)) (filter (\<lambda>s. s \<noteq> []) (map Trim (Split token_str ''&|'')))"

definition parse_device_groups :: "string \<Rightarrow> int list list" where
  "parse_device_groups str =
     map parse_device_group (filter (\<lambda>s. s \<noteq> []) (map Trim (Split str '',;'')))"

definition LoadDeviceGroups :: "CfgData \<Rightarrow> string \<Rightarrow> string \<Rightarrow> int list list cfg_res" where
  "LoadDeviceGroups cfg sect key =
     and_then (may (GetItem_str cfg sect key [])) (\<lambda>str.
       let device_groups = parse_device_groups str
       in if length device_groups > 1 \<and> (\<exists>g \<in> set (tl device_groups). length g \<noteq> length (hd device_groups))
          then Inl Refused else Inr device_groups)"

section \<open>Prompt templates\<close>

definition newline :: string where "newline = [CHR 0x0A]"

definition newline_key :: string where "newline_key = [CHR ''{'', CHR 0x5C, CHR ''n'', CHR ''}'']"

fun join_lines :: "string list \<Rightarrow> string" where
  "join_lines [] = []"
| "join_lines [l] = l"
| "join_lines (l # ls) = l @ newline @ join_lines ls"

definition LoadPromptTemplate :: "CfgData \<Rightarrow> string \<Rightarrow> string cfg_res" where
  "LoadPromptTemplate cfg sect =
     and_then (must (GetItem_int cfg sect ''line_count'' 0)) (\<lambda>line_num.
     and_then (must (GetItems cfg sect ''line'' 1 line_num)) (\<lambda>lines.
       returned (ReplaceAll (join_lines lines) newline_key newline)))"

definition is_query_template :: "string \<Rightarrow> bool" where
  "is_query_template template_str \<longleftrightarrow>
     str_find template_str ''{query}'' 0 \<noteq> None \<or> str_find template_str ''{_query}'' 0 \<noteq> None"

primrec LoadPromptTemplates_loop :: "CfgData \<Rightarrow> string list \<Rightarrow> (string, string) omap \<Rightarrow> (string, string) omap cfg_res" where
  "LoadPromptTemplates_loop cfg [] prompt_templates = Inr prompt_templates"
| "LoadPromptTemplates_loop cfg (template_name # names) prompt_templates =
     and_then (LoadPromptTemplate cfg (''prompt_template.'' @ template_name)) (\<lambda>template_str.
       if \<not> is_query_template template_str then Inl Refused
       else LoadPromptTemplates_loop cfg names (omap_put template_name template_str prompt_templates))"

definition LoadPromptTemplates :: "CfgData \<Rightarrow> string \<Rightarrow> (string, string) omap \<Rightarrow> (string, string) omap cfg_res" where
  "LoadPromptTemplates cfg sect prompt_templates =
     and_then (must (GetItem_int cfg sect ''prompt_template_count'' 0)) (\<lambda>template_num.
     and_then (must (GetItems cfg sect ''prompt_template'' 1 template_num)) (\<lambda>str_list.
       LoadPromptTemplates_loop cfg str_list prompt_templates))"

section \<open>The model specification file\<close>

text \<open>
  The fields of the JSON document that decide about the modelled part of the specification, as
  \<open>GetFieldValue\<close> yields them; \<open>None\<close> for a field that is absent or has another type.
\<close>

record SpecJson =
  sj_model_file_format :: "string option"
  sj_vocab_size :: "int option"
  sj_padded_vocab_size :: "int option"
  sj_input_vocab_size :: "int option"
  sj_output_vocab_size :: "int option"
  sj_tokenization_algorithm :: "string option"
  sj_network_structure_type :: "string option"
  sj_expert_count :: "int option"
  sj_using_expert_count :: "int option"
  sj_moe_top_k :: "int option"
  sj_moe_norm_top_k_prob :: "bool option"
  sj_moe_layer_start :: "int option"
  sj_moe_layer_end :: "int option"
  sj_has_shared_expert :: "bool option"

definition json_field :: "'a option \<Rightarrow> 'a \<Rightarrow> 'a" where
  "json_field v old = (case v of Some a \<Rightarrow> a | None \<Rightarrow> old)"

definition json_hparams :: "SpecJson \<Rightarrow> ModelHyperParams \<Rightarrow> ModelHyperParams" where
  "json_hparams j hp = hp\<lparr>
     hp_vocab_size := json_field (sj_input_vocab_size j) (json_field (sj_vocab_size j) (hp_vocab_size hp)),
     hp_padded_vocab_size := json_field (sj_padded_vocab_size j) (hp_padded_vocab_size hp),
     hp_output_vocab_size := json_field (sj_output_vocab_size j) (hp_output_vocab_size hp),
     hp_experts := json_field (sj_expert_count j) (hp_experts hp),
     hp_in_use_experts := min (json_field (sj_using_expert_count j) (hp_in_use_experts hp))
       (json_field (sj_expert_count j) (hp_experts hp)),
     hp_moe_top_k := json_field (sj_moe_top_k j) (hp_moe_top_k hp),
     hp_moe_norm_top_k_prob := json_field (sj_moe_norm_top_k_prob j) (hp_moe_norm_top_k_prob hp),
     hp_moe_layer_start := json_field (sj_moe_layer_start j) (hp_moe_layer_start hp),
     hp_moe_layer_end := json_field (sj_moe_layer_end j) (hp_moe_layer_end hp),
     hp_has_shared_expert := json_field (sj_has_shared_expert j) (hp_has_shared_expert hp)\<rparr>"

text \<open>
  \<open>doc\<close> is \<open>None\<close> when the file cannot be read, is no JSON, or lacks or misspells a mandatory field
  outside this model (the configuration file, the lists of files, the names of the algorithms).
\<close>

definition LoadModelSpecJson :: "SpecJson option \<Rightarrow> ModelSpec \<Rightarrow> ModelSpec cfg_res" where
  "LoadModelSpecJson doc spec =
     (case doc of
        None \<Rightarrow> Inl Refused
      | Some j \<Rightarrow>
          (case Option.bind (sj_model_file_format j) (nocase_find InitModelFileFormatMap) of
             None \<Rightarrow> Inl Refused
           | Some _ \<Rightarrow>
               (case (case sj_tokenization_algorithm j of
                        None \<Rightarrow> Some (ms_tokenization_algorithm spec)
                      | Some s \<Rightarrow> nocase_find InitAlgorithmMap s) of
                  None \<Rightarrow> Inl Refused
                | Some alg \<Rightarrow>
                    (case Option.bind (sj_network_structure_type j) (nocase_find InitNetworkStructureMap) of
                       None \<Rightarrow> Inl Refused
                     | Some net_type \<Rightarrow> Inr (spec\<lparr>ms_tokenization_algorithm := alg, ms_network_structure := net_type,
                         ms_hyper_params := json_hparams j (ms_hyper_params spec)\<rparr>)))))"

section \<open>The specification of a model\<close>

definition IsAbsolute :: "string \<Rightarrow> bool" where
  "IsAbsolute path \<longleftrightarrow> path \<noteq> [] \<and> (hd path = CHR ''/'' \<or> hd path = CHR 0x5C \<or> length path > 1 \<and> path ! 1 = CHR '':'')"

primrec LayerTensorId_value :: "LayerTensorId \<Rightarrow> nat" where
  "LayerTensorId_value LTI_ATTN_PRE_NORM = 0"
| "LayerTensorId_value LTI_ATTN_PRE_NORM_B = 1"
| "LayerTensorId_value LTI_ATTN_POST_NORM = 2"
| "LayerTensorId_value LTI_ATTN_POST_NORM_B = 3"
| "LayerTensorId_value LTI_QKV = 4"
| "LayerTensorId_value LTI_QKV_B = 5"
| "LayerTensorId_value LTI_WQ = 6"
| "LayerTensorId_value LTI_WQ_B = 7"
| "LayerTensorId_value LTI_WK = 8"
| "LayerTensorId_value LTI_WK_B = 9"
| "LayerTensorId_value LTI_WV = 10"
| "LayerTensorId_value LTI_WV_B = 11"
| "LayerTensorId_value LTI_WO = 12"
| "LayerTensorId_value LTI_WO_B = 13"
| "LayerTensorId_value LTI_FFN_PRE_NORM = 14"
| "LayerTensorId_value LTI_FFN_PRE_NORM_B = 15"
| "LayerTensorId_value LTI_FFN_POST_NORM = 16"
| "LayerTensorId_value LTI_FFN_POST_NORM_B = 17"
| "LayerTensorId_value LTI_W1 = 18"
| "LayerTensorId_value LTI_W1_B = 19"
| "LayerTensorId_value LTI_W2 = 20"
| "LayerTensorId_value LTI_W2_B = 21"
| "LayerTensorId_value LTI_W3 = 22"
| "LayerTensorId_value LTI_W3_B = 23"
| "LayerTensorId_value LTI_W1N3 = 24"
| "LayerTensorId_value LTI_W1N3_B = 25"
| "LayerTensorId_value LTI_MOE_GATE = 26"
| "LayerTensorId_value LTI_MOE_GATE_B = 27"
| "LayerTensorId_value LTI_COUNT = 28"

text \<open>An element type from its name; wide types become half precision on the device.\<close>

definition parse_type :: "string \<Rightarrow> ElementType cfg_res" where
  "parse_type str = (case nocase_find InitElementTypeMap str of None \<Rightarrow> Inl Refused | Some t \<Rightarrow> Inr t)"

definition load_type :: "CfgData \<Rightarrow> string \<Rightarrow> string \<Rightarrow> (ElementType \<Rightarrow> ElementType) \<Rightarrow> ElementType \<Rightarrow> ElementType cfg_res" where
  "load_type cfg sect key conv old =
     and_then (may (GetItem_str cfg sect key [])) (\<lambda>str.
       if str = [] then Inr old else and_then (parse_type str) (\<lambda>t. Inr (conv t)))"

definition device_type :: "ElementType \<Rightarrow> ElementType" where
  "device_type t = (if ElementSize t \<ge> 2 then ET_F16 else t)"

definition kv_cache_type :: "ElementType \<Rightarrow> ElementType" where
  "kv_cache_type t = (if ElementSize t \<ge> 2 then ET_F16 else ET_Q8_B32T2)"

primrec load_tensor_types :: "CfgData \<Rightarrow> string \<Rightarrow> (string \<times> LayerTensorId) list \<Rightarrow> ElementType list \<Rightarrow> ElementType list cfg_res" where
  "load_tensor_types cfg sect [] types = Inr types"
| "load_tensor_types cfg sect (entry # entries) types =
     and_then (returned (GetItem_str cfg sect (''device_weight_data_type.'' @ fst entry) [])) (\<lambda>(ok, str).
       if ok then and_then (parse_type str) (\<lambda>t.
         load_tensor_types cfg sect entries (types[LayerTensorId_value (snd entry) := device_type t]))
       else load_tensor_types cfg sect entries types)"

text \<open>
  The name of the strategy: given directly, or as the field \<open>name\<close> of a JSON object, which is then
  kept as the configuration. \<open>json_name\<close> stands for reading that field.
\<close>

definition load_strategy :: "(string \<Rightarrow> string option) \<Rightarrow> CfgData \<Rightarrow> string \<Rightarrow> ModelSpec \<Rightarrow> ModelSpec cfg_res" where
  "load_strategy json_name cfg sect spec =
     and_then (may (GetItem_str cfg sect ''decoding_strategy'' (ms_decoding_strategy spec))) (\<lambda>s.
       if s = [] then Inr (spec\<lparr>ms_decoding_strategy := s\<rparr>)
       else if hd s = CHR ''{'' then
         (case json_name s of
            None \<Rightarrow> Inl Refused
          | Some name \<Rightarrow> Inr (spec\<lparr>ms_decoding_strategy_config := s, ms_decoding_strategy := name\<rparr>))
       else if nocase_find InitStrategyMap s = None then Inl Refused
       else Inr (spec\<lparr>ms_decoding_strategy := s\<rparr>))"

definition load_templates :: "CfgData \<Rightarrow> string \<Rightarrow> ModelSpec \<Rightarrow> ModelSpec cfg_res" where
  "load_templates cfg sect spec =
     and_then (may (GetItem_str cfg sect ''encoder_input_template'' (ms_encoder_input_template spec))) (\<lambda>e.
     and_then (returned (ReplaceAll e newline_key newline)) (\<lambda>e'.
     and_then (may (GetItem_str cfg sect ''decoder_input_template'' (ms_decoder_input_template spec))) (\<lambda>d1.
     and_then (may (GetItem_str cfg sect ''prompt_template'' d1)) (\<lambda>d2.
     and_then (returned (ReplaceAll d2 newline_key newline)) (\<lambda>d'.
       Inr (spec\<lparr>ms_encoder_input_template := e', ms_decoder_input_template := d'\<rparr>))))))"

definition load_types :: "CfgData \<Rightarrow> string \<Rightarrow> ModelSpec \<Rightarrow> ModelSpec cfg_res" where
  "load_types cfg sect spec =
     and_then (load_type cfg sect ''host_weight_data_type'' id (ms_host_weight_data_type spec)) (\<lambda>host.
     and_then (load_type cfg sect ''device_weight_data_type'' device_type (ms_device_weight_data_type spec)) (\<lambda>device.
     and_then (load_tensor_types cfg sect BuildLayerTensorIdMap (replicate (LayerTensorId_value LTI_COUNT) ET_Auto)) (\<lambda>types.
     and_then (load_type cfg sect ''device_kv_cache_data_type'' kv_cache_type (ms_device_kv_cache_data_type spec)) (\<lambda>kv.
       Inr (spec\<lparr>ms_host_weight_data_type := host, ms_device_weight_data_type := device,
         ms_device_weight_data_types := types, ms_device_kv_cache_data_type := kv\<rparr>)))))"

text \<open>
  \<open>norm_dir\<close> is the full, normalised form of a directory, which depends on the directory of the
  program; \<open>spec_json\<close> gives the document at a path. The ratio of delta tensors, a floating-point
  number, is left out.
\<close>

definition LoadModelSpec :: "(string \<Rightarrow> string option) \<Rightarrow> (string \<Rightarrow> string) \<Rightarrow> (string \<Rightarrow> SpecJson option)
    \<Rightarrow> CfgData \<Rightarrow> string \<Rightarrow> ModelSpec \<Rightarrow> ModelSpec cfg_res" where
  "LoadModelSpec json_name norm_dir spec_json cfg sect spec =
     and_then (must (GetItem_str cfg sect ''model_dir'' (ms_dir spec))) (\<lambda>dir.
     if dir = [] then Inl Refused else
     and_then (returned (GetItem_str cfg sect ''model_specification_file'' [])) (\<lambda>(found, f1).
     and_then (if found then Inr f1 else may (GetItem_str cfg sect ''model_spec_file'' f1)) (\<lambda>spec_file.
     if spec_file = [] then Inl Refused else
     and_then (load_strategy json_name cfg sect (spec\<lparr>ms_dir := norm_dir dir, ms_spec_file := spec_file\<rparr>)) (\<lambda>spec1.
     and_then (load_templates cfg sect spec1) (\<lambda>spec2.
     and_then (load_types cfg sect spec2) (\<lambda>spec3.
     and_then (may (GetItem_int cfg sect ''tensor_quant_threshold'' (ms_tensor_quant_threshold spec3))) (\<lambda>threshold.
     and_then (may (GetItem_bool cfg sect ''be_host_embeddings'' (ms_be_host_embeddings spec3))) (\<lambda>host_embd.
     and_then (may (GetItem_int cfg sect ''host_kv_cache_percent'' (ms_host_kv_cache_percent spec3))) (\<lambda>percent.
     and_then (LoadDeviceGroups cfg sect ''devices'') (\<lambda>groups.
     and_then (may (GetItem_int cfg sect ''max_context_len'' (ms_max_context_len spec3))) (\<lambda>context_len.
       LoadModelSpecJson (spec_json (if IsAbsolute spec_file then spec_file else norm_dir dir @ spec_file))
         (spec3\<lparr>ms_tensor_quant_threshold := threshold, ms_be_host_embeddings := host_embd,
            ms_host_kv_cache_percent := percent, ms_device_groups := groups, ms_max_context_len := context_len\<rparr>))))))))))))"

section \<open>The configuration\<close>

record InferenceConfig =
  ic_models :: "ModelSpec list"
  ic_data_dir :: string
  ic_max_concurrent_queries :: int
  ic_device_groups :: "int list list"
  ic_encoder_cpu_layer_count :: int
  ic_decoder_cpu_layer_count :: int
  ic_cpu_threads :: int
  ic_prompt_templates :: "(string, string) omap"
  ic_return_output_tensors :: bool
  ic_is_study_mode :: bool
  ic_show_tensors :: bool
  ic_enable_perf_stat :: bool

definition default_InferenceConfig :: InferenceConfig where
  "default_InferenceConfig = \<lparr>ic_models = [], ic_data_dir = [], ic_max_concurrent_queries = 10, ic_device_groups = [],
     ic_encoder_cpu_layer_count = 0, ic_decoder_cpu_layer_count = 0, ic_cpu_threads = 8, ic_prompt_templates = [],
     ic_return_output_tensors = False, ic_is_study_mode = False, ic_show_tensors = False, ic_enable_perf_stat = False\<rparr>"

text \<open>What the application environment contributes to the macros of a configuration file.\<close>

record AppEnv =
  env_DataRootDir :: string
  env_AppDir :: string
  env_RunName :: string
  env_ConfigDir :: string

definition Load_file :: "AppEnv \<Rightarrow> string list option \<Rightarrow> CfgData cfg_res" where
  "Load_file env file =
     (case file of
        None \<Rightarrow> Inl Refused
      | Some lines \<Rightarrow>
          (case Load new_CfgData lines of
             (False, _) \<Rightarrow> Inl Refused
           | (True, cfg) \<Rightarrow> Inr (fold (\<lambda>(name, value) c. snd (AddMacro c name value))
               [(''DataHomeDir'', env_DataRootDir env), (''DataRootDir'', env_DataRootDir env), (''AppDir'', env_AppDir env),
                (''RunName'', env_RunName env), (''data_home_dir'', env_DataRootDir env),
                (''data_root_dir'', env_DataRootDir env), (''app_dir'', env_AppDir env), (''run_name'', env_RunName env),
                (''config_dir'', env_ConfigDir env)] cfg)))"

text \<open>The placement of a model on devices: its own groups, or those of the engine.\<close>

definition place_model :: "int list list \<Rightarrow> ModelSpec \<Rightarrow> ModelSpec" where
  "place_model config_groups spec =
     (let groups = (if ms_device_groups spec = [] then config_groups else ms_device_groups spec);
          spec1 = spec\<lparr>ms_device_groups := groups\<rparr>
      in if groups \<noteq> []
         then spec1\<lparr>ms_multi_gpu_strategy := (if length (hd groups) \<le> 1 then MGS_BY_LAYER
                else if length groups = 1 then MGS_BY_TENSOR else MGS_HYBRID)\<rparr>
         else spec1)"

text \<open>A template without a key is the name of one of the prompt templates.\<close>

definition resolve_template :: "(string, string) omap \<Rightarrow> string \<Rightarrow> string" where
  "resolve_template templates s =
     (if s \<noteq> [] \<and> str_find s ''{'' 0 = None
      then (case omap_find templates s of None \<Rightarrow> [] | Some t \<Rightarrow> t) else s)"

definition finish_model :: "InferenceConfig \<Rightarrow> ModelSpec \<Rightarrow> ModelSpec" where
  "finish_model config spec0 =
     (let spec = place_model (ic_device_groups config) spec0
      in spec\<lparr>ms_encoder_cpu_layer_count := (if ms_encoder_cpu_layer_count spec < 0
             then ic_encoder_cpu_layer_count config else ms_encoder_cpu_layer_count spec),
           ms_decoder_cpu_layer_count := (if ms_decoder_cpu_layer_count spec < 0
             then ic_decoder_cpu_layer_count config else ms_decoder_cpu_layer_count spec),
           ms_decoder_input_template := resolve_template (ic_prompt_templates config) (ms_decoder_input_template spec)\<rparr>)"

primrec LoadConfig_models :: "(string \<Rightarrow> string option) \<Rightarrow> (string \<Rightarrow> string) \<Rightarrow> (string \<Rightarrow> SpecJson option)
    \<Rightarrow> string list \<Rightarrow> CfgData \<Rightarrow> InferenceConfig \<Rightarrow> (CfgData \<times> InferenceConfig) cfg_res" where
  "LoadConfig_models json_name norm_dir spec_json [] cfg config = Inr (cfg, config)"
| "LoadConfig_models json_name norm_dir spec_json (sid # sids) cfg config =
     (let sid' = Trim sid;
          cfg1 = snd (AddMacro cfg ''model_name'' sid')
      in and_then (LoadModelSpec json_name norm_dir spec_json cfg1 (''model.'' @ sid') (default_ModelSpec\<lparr>ms_sid := sid'\<rparr>)) (\<lambda>spec.
           LoadConfig_models json_name norm_dir spec_json sids cfg1
             (config\<lparr>ic_models := ic_models config @ [finish_model config spec]\<rparr>)))"

text \<open>The settings that are read after the models.\<close>

definition load_settings :: "string \<Rightarrow> CfgData \<Rightarrow> InferenceConfig \<Rightarrow> InferenceConfig cfg_res" where
  "load_settings sect cfg config =
     and_then (may (GetItem_int cfg sect ''max_concurrent_queries'' (ic_max_concurrent_queries config))) (\<lambda>max_queries.
     and_then (may (GetItem_int cfg sect ''cpu_threads'' (ic_cpu_threads config))) (\<lambda>cpu_threads.
     and_then (may (GetItem_bool cfg sect ''return_output_tensors'' (ic_return_output_tensors config))) (\<lambda>ret_tensors.
     and_then (may (GetItem_bool cfg sect ''is_study_mode'' (ic_is_study_mode config))) (\<lambda>study.
     and_then (may (GetItem_bool cfg sect ''show_tensors'' (ic_show_tensors config))) (\<lambda>show_t.
       Inr (config\<lparr>ic_max_concurrent_queries := max_queries, ic_cpu_threads := cpu_threads,
         ic_return_output_tensors := ret_tensors, ic_is_study_mode := study, ic_show_tensors := show_t\<rparr>))))))"

text \<open>The macro that a caller's data directory defines, and the configuration before the models.\<close>

definition add_data_root :: "string \<Rightarrow> CfgData \<Rightarrow> CfgData" where
  "add_data_root data_root_dir cfg =
     (if data_root_dir \<noteq> [] then snd (AddMacro cfg ''data_root_dir'' data_root_dir) else cfg)"

definition with_devices :: "(string, string) omap \<Rightarrow> int list list \<Rightarrow> int \<Rightarrow> int \<Rightarrow> InferenceConfig \<Rightarrow> InferenceConfig" where
  "with_devices templates groups enc_cpu dec_cpu config =
     config\<lparr>ic_prompt_templates := templates, ic_device_groups := (if groups = [] then [[0]] else groups),
       ic_encoder_cpu_layer_count := enc_cpu, ic_decoder_cpu_layer_count := dec_cpu\<rparr>"

definition LoadConfig_cfg :: "(string \<Rightarrow> string option) \<Rightarrow> (string \<Rightarrow> string) \<Rightarrow> (string \<Rightarrow> SpecJson option)
    \<Rightarrow> CfgData \<Rightarrow> string \<Rightarrow> InferenceConfig \<Rightarrow> InferenceConfig cfg_res" where
  "LoadConfig_cfg json_name norm_dir spec_json cfg sect config =
     and_then (may (GetItem_str cfg ''main'' ''global_model_dir'' [])) (\<lambda>global_model_dir.
     and_then (LoadPromptTemplates cfg ''prompt_templates'' (ic_prompt_templates config)) (\<lambda>templates.
     and_then (LoadDeviceGroups cfg sect ''devices'') (\<lambda>groups.
     and_then (may (GetItem_int cfg sect ''cpu_layer_count'' 0)) (\<lambda>cpu_layer_count.
     and_then (may (GetItem_int cfg sect ''encoder_cpu_layer_count'' cpu_layer_count)) (\<lambda>enc_cpu.
     and_then (may (GetItem_int cfg sect ''decoder_cpu_layer_count'' cpu_layer_count)) (\<lambda>dec_cpu.
     and_then (must (GetItem_str cfg sect ''models'' [])) (\<lambda>str.
     and_then (LoadConfig_models json_name norm_dir spec_json (Split str '',;'')
         (snd (AddMacro cfg ''global_model_dir'' global_model_dir))
         (with_devices templates groups enc_cpu dec_cpu config)) (\<lambda>p.
       load_settings sect (fst p) (snd p)))))))))"

definition LoadConfig :: "(string \<Rightarrow> string option) \<Rightarrow> (string \<Rightarrow> string) \<Rightarrow> (string \<Rightarrow> SpecJson option) \<Rightarrow> AppEnv
    \<Rightarrow> string list option \<Rightarrow> string \<Rightarrow> string \<Rightarrow> InferenceConfig \<Rightarrow> InferenceConfig cfg_res" where
  "LoadConfig json_name norm_dir spec_json env file sect data_root_dir config =
     and_then (Load_file env file) (\<lambda>cfg.
       LoadConfig_cfg json_name norm_dir spec_json (add_data_root data_root_dir cfg) sect config)"

section \<open>Every configured model can be placed\<close>

definition same_size :: "int list list \<Rightarrow> bool" where
  "same_size groups \<longleftrightarrow> (\<forall>g \<in> set groups. length g = length (hd groups))"

definition placed :: "ModelSpec \<Rightarrow> bool" where
  "placed spec \<longleftrightarrow> ms_device_groups spec \<noteq> [] \<and> same_size (ms_device_groups spec)
     \<and> (ms_multi_gpu_strategy spec = MGS_BY_LAYER \<longleftrightarrow> length (hd (ms_device_groups spec)) \<le> 1)
     \<and> (ms_multi_gpu_strategy spec = MGS_HYBRID \<longleftrightarrow>
          1 < length (hd (ms_device_groups spec)) \<and> 1 < length (ms_device_groups spec))"

definition template_ok :: "string \<Rightarrow> bool" where
  "template_ok s \<longleftrightarrow> s = [] \<or> CHR ''{'' \<in> set s"

lemma LoadDeviceGroups_same_size:
  assumes "LoadDeviceGroups cfg sect key = Inr groups"
  shows "same_size groups"
proof (cases groups)
  case (Cons g gs)
  with assms show ?thesis by (cases gs) (auto simp: LoadDeviceGroups_def and_then_Inr same_size_def Let_def split: if_splits)
qed (simp add: same_size_def)

lemma place_model_placed:
  assumes "same_size (ms_device_groups spec)" "same_size groups" "groups \<noteq> []"
  shows "placed (place_model groups spec)"
  using assms by (cases groups; cases "ms_device_groups spec") (auto simp: placed_def place_model_def Let_def)

lemma placed_CheckModelSpec:
  assumes "placed spec"
  shows "CheckModelSpec qkv_format spec \<noteq> None"
  using assms by (auto simp: placed_def CheckModelSpec_def Let_def)

lemma LoadModelSpecJson_groups:
  "LoadModelSpecJson doc spec = Inr spec' \<Longrightarrow> ms_device_groups spec' = ms_device_groups spec"
  by (auto simp: LoadModelSpecJson_def split: option.splits)

lemma LoadModelSpec_same_size:
  assumes "LoadModelSpec json_name norm_dir spec_json cfg sect spec = Inr spec'"
  shows "same_size (ms_device_groups spec')"
proof -
  obtain doc spec1 groups where "LoadDeviceGroups cfg sect ''devices'' = Inr groups"
    "LoadModelSpecJson doc spec1 = Inr spec'" "ms_device_groups spec1 = groups"
    using assms unfolding LoadModelSpec_def
    by (elim and_then_InrE) (auto split: if_splits prod.splits elim!: and_then_InrE)
  then show ?thesis using LoadModelSpecJson_groups LoadDeviceGroups_same_size by fastforce
qed

lemma query_template_key: "is_query_template s \<Longrightarrow> CHR ''{'' \<in> set s"
  by (auto simp: is_query_template_def str_find_def find_at_None sublist_def)

definition templates_valid :: "(string, string) omap \<Rightarrow> bool" where
  "templates_valid templates \<longleftrightarrow> (\<forall>t \<in> set templates. is_query_template (snd t))"

lemma templates_valid_put:
  "templates_valid m \<Longrightarrow> is_query_template t \<Longrightarrow> templates_valid (omap_put k t m)"
  unfolding templates_valid_def by (induction k t m rule: omap_put.induct) auto

lemma LoadPromptTemplates_loop_valid:
  "LoadPromptTemplates_loop cfg names m = Inr m' \<Longrightarrow> templates_valid m \<Longrightarrow> templates_valid m'"
proof (induction names arbitrary: m)
  case (Cons name names)
  obtain t where "is_query_template t" "LoadPromptTemplates_loop cfg names (omap_put name t m) = Inr m'"
    using Cons.prems(1) by (auto elim!: and_then_InrE split: if_splits)
  then show ?case using Cons.IH Cons.prems(2) templates_valid_put by blast
qed simp

lemma LoadPromptTemplates_valid:
  "LoadPromptTemplates cfg sect m = Inr m' \<Longrightarrow> templates_valid m \<Longrightarrow> templates_valid m'"
  unfolding LoadPromptTemplates_def by (elim and_then_InrE) (rule LoadPromptTemplates_loop_valid)

lemma resolve_template_ok:
  assumes "templates_valid m"
  shows "template_ok (resolve_template m s)"
proof (cases "s \<noteq> [] \<and> str_find s ''{'' 0 = None")
  case True
  show ?thesis
  proof (cases "omap_find m s")
    case (Some t)
    then have "(s, t) \<in> set m" by (simp add: omap_find_def map_of_SomeD)
    then show ?thesis using True Some assms query_template_key by (fastforce simp: resolve_template_def template_ok_def templates_valid_def)
  qed (use True in \<open>simp add: resolve_template_def template_ok_def\<close>)
next
  case False
  then show ?thesis by (auto simp: resolve_template_def template_ok_def str_find_def find_at_None sublist_def)
qed

definition config_ok :: "InferenceConfig \<Rightarrow> bool" where
  "config_ok config \<longleftrightarrow> ic_device_groups config \<noteq> [] \<and> same_size (ic_device_groups config)
     \<and> templates_valid (ic_prompt_templates config)"

definition model_ok :: "ModelSpec \<Rightarrow> bool" where
  "model_ok spec \<longleftrightarrow> placed spec \<and> template_ok (ms_decoder_input_template spec)"

lemma finish_model_ok:
  assumes "config_ok config" "same_size (ms_device_groups spec)"
  shows "model_ok (finish_model config spec)"
proof -
  have "placed (place_model (ic_device_groups config) spec)"
    using assms by (simp add: config_ok_def place_model_placed)
  then have "placed (finish_model config spec)" by (simp add: finish_model_def placed_def Let_def)
  moreover have "template_ok (ms_decoder_input_template (finish_model config spec))"
    using assms(1) by (simp add: finish_model_def config_ok_def resolve_template_ok Let_def)
  ultimately show ?thesis by (simp add: model_ok_def)
qed

lemma LoadConfig_models_ok:
  "LoadConfig_models json_name norm_dir spec_json sids cfg config = Inr (cfg', config') \<Longrightarrow> config_ok config \<Longrightarrow>
     \<exists>new. ic_models config' = ic_models config @ new \<and> length new = length sids \<and> list_all model_ok new"
proof (induction sids arbitrary: cfg config)
  case (Cons sid sids)
  let ?cfg = "snd (AddMacro cfg ''model_name'' (Trim sid))"
  obtain spec where spec: "LoadModelSpec json_name norm_dir spec_json ?cfg (''model.'' @ Trim sid)
      (default_ModelSpec\<lparr>ms_sid := Trim sid\<rparr>) = Inr spec"
    and rec: "LoadConfig_models json_name norm_dir spec_json sids ?cfg
      (config\<lparr>ic_models := ic_models config @ [finish_model config spec]\<rparr>) = Inr (cfg', config')"
    using Cons.prems(1) by (auto simp: Let_def elim!: and_then_InrE)
  have "model_ok (finish_model config spec)"
    using Cons.prems(2) LoadModelSpec_same_size [OF spec] by (rule finish_model_ok)
  moreover have "config_ok (config\<lparr>ic_models := ic_models config @ [finish_model config spec]\<rparr>)"
    using Cons.prems(2) by (simp add: config_ok_def)
  then obtain new where "ic_models config' = ic_models config @ [finish_model config spec] @ new"
    "length new = length sids" "list_all model_ok new"
    using Cons.IH [OF rec] by auto
  ultimately show ?case by (intro exI [of _ "finish_model config spec # new"]) simp
qed simp

lemma load_settings_models: "load_settings sect cfg config = Inr config' \<Longrightarrow> ic_models config' = ic_models config"
  unfolding load_settings_def by (elim and_then_InrE) auto

lemma LoadConfig_cfg_parts:
  assumes "LoadConfig_cfg json_name norm_dir spec_json cfg sect config = Inr config'"
  shows "\<exists>cfg1 p templates groups enc_cpu dec_cpu sids.
     LoadDeviceGroups cfg sect ''devices'' = Inr groups
     \<and> LoadPromptTemplates cfg ''prompt_templates'' (ic_prompt_templates config) = Inr templates
     \<and> LoadConfig_models json_name norm_dir spec_json sids cfg1 (with_devices templates groups enc_cpu dec_cpu config) = Inr p
     \<and> load_settings sect (fst p) (snd p) = Inr config'"
  using assms unfolding LoadConfig_cfg_def
  by (elim and_then_InrE) (intro exI conjI; assumption)

text \<open>
  C15. Every model of a configuration that loads is ready to be placed: its device groups exist and
  have the same size, the multi-GPU strategy agrees with their shape, the later check of the
  specification neither reads outside the groups nor divides by zero, and its prompt template is
  empty or holds a key.
\<close>

theorem LoadConfig_places_models:
  assumes "LoadConfig json_name norm_dir spec_json env file sect data_root_dir config = Inr config'"
    and "\<forall>t \<in> set (ic_prompt_templates config). is_query_template (snd t)"
  shows "\<exists>new. ic_models config' = ic_models config @ new \<and> (\<forall>spec \<in> set new.
     placed spec \<and> CheckModelSpec qkv_format spec \<noteq> None \<and> template_ok (ms_decoder_input_template spec))"
proof -
  obtain cfg where "LoadConfig_cfg json_name norm_dir spec_json (add_data_root data_root_dir cfg) sect config = Inr config'"
    using assms(1) unfolding LoadConfig_def by (elim and_then_InrE)
  from LoadConfig_cfg_parts [OF this] obtain cfg1 p templates groups enc_cpu dec_cpu sids where
    groups: "LoadDeviceGroups (add_data_root data_root_dir cfg) sect ''devices'' = Inr groups" and
    templates: "LoadPromptTemplates (add_data_root data_root_dir cfg) ''prompt_templates'' (ic_prompt_templates config) = Inr templates" and
    models: "LoadConfig_models json_name norm_dir spec_json sids cfg1
      (with_devices templates groups enc_cpu dec_cpu config) = Inr p" and
    settings: "load_settings sect (fst p) (snd p) = Inr config'"
    by (elim exE conjE)
  have "config_ok (with_devices templates groups enc_cpu dec_cpu config)"
  proof -
    have "templates_valid templates"
      using LoadPromptTemplates_valid [OF templates] assms(2) by (simp add: templates_valid_def)
    moreover have "same_size [[0]]" by (simp add: same_size_def)
    ultimately show ?thesis
      using LoadDeviceGroups_same_size [OF groups] by (simp add: config_ok_def with_devices_def)
  qed
  moreover have "LoadConfig_models json_name norm_dir spec_json sids cfg1
      (with_devices templates groups enc_cpu dec_cpu config) = Inr (fst p, snd p)" using models by simp
  ultimately obtain new where "ic_models (snd p) = ic_models config @ new" "list_all model_ok new"
    using LoadConfig_models_ok by (fastforce simp: with_devices_def)
  then show ?thesis
    using placed_CheckModelSpec load_settings_models [OF settings] by (auto simp: list_all_iff model_ok_def)
qed

definition sample_lines :: "string list" where
  "sample_lines = [''[prompt_templates]'', ''prompt_template_count = 0'', ''[engine]'', ''models = m'',
     ''devices = 0&1;2&3'', ''[model.m]'', ''model_dir = /d'', ''model_spec_file = s'']"

definition sample_env :: AppEnv where
  "sample_env = \<lparr>env_DataRootDir = [], env_AppDir = [], env_RunName = [], env_ConfigDir = []\<rparr>"

definition sample_json :: SpecJson where
  "sample_json = \<lparr>sj_model_file_format = Some ''gguf'', sj_vocab_size = None, sj_padded_vocab_size = None,
     sj_input_vocab_size = None, sj_output_vocab_size = None, sj_tokenization_algorithm = None,
     sj_network_structure_type = Some ''llama'', sj_expert_count = None, sj_using_expert_count = None,
     sj_moe_top_k = None, sj_moe_norm_top_k_prob = None, sj_moe_layer_start = None, sj_moe_layer_end = None,
     sj_has_shared_expert = None\<rparr>"

definition sample_config :: "InferenceConfig cfg_res" where
  "sample_config = LoadConfig (\<lambda>_. None) id (\<lambda>_. Some sample_json) sample_env (Some sample_lines) ''engine'' []
     default_InferenceConfig"

lemma map_sum_Inr: "map_sum f g x = Inr b \<Longrightarrow> \<exists>c. x = Inr c \<and> g c = b"
  by (cases x) auto

lemma sample_config_loads: "map_sum id (\<lambda>c. map ms_device_groups (ic_models c)) sample_config = Inr [[[0, 1], [2, 3]]]"
  by code_simp

theorem LoadConfig_places_models_witness:
  "\<exists>config'. sample_config = Inr config' \<and> (\<exists>spec \<in> set (ic_models config'). placed spec \<and> CheckModelSpec 0 spec \<noteq> None)"
proof -
  obtain config' where loaded: "sample_config = Inr config'" "map ms_device_groups (ic_models config') = [[[0, 1], [2, 3]]]"
    using map_sum_Inr [OF sample_config_loads] by (elim exE conjE)
  then have ne: "ic_models config' \<noteq> []" by auto
  have "\<exists>new. ic_models config' = ic_models default_InferenceConfig @ new \<and> (\<forall>spec \<in> set new.
     placed spec \<and> CheckModelSpec 0 spec \<noteq> None \<and> template_ok (ms_decoder_input_template spec))"
    by (rule LoadConfig_places_models [OF loaded(1) [unfolded sample_config_def]])
      (simp add: default_InferenceConfig_def)
  then have "\<exists>spec \<in> set (ic_models config'). placed spec \<and> CheckModelSpec 0 spec \<noteq> None"
    using ne by (auto simp: default_InferenceConfig_def neq_Nil_conv)
  with loaded(1) show ?thesis by (intro exI conjI)
qed

end
