(* ===== verification/FileStream.thy ===== *)
theory FileStream
  imports Prelude "HOL-Library.Sublist"
begin

text \<open>
  Buffered binary files (src/3rd_party/sslib/binary_file_stream.h and .cc, POSIX branch). A file is a
  list of bytes. The bytes of a buffer behind its length are never read, so a buffer is the list of
  its first \<open>buf_len\<close> bytes. Sizes of type \<open>uint32_t\<close> wrap where the code adds or converts them;
  \<open>None\<close> stands for a copy outside the buffer or a loop that does not end. The system calls
  \<open>read\<close> and \<open>write\<close> are arguments, whose documented behaviour on regular files is a locale.
\<close>

section \<open>State\<close>

record BufInfo =
  bi_data :: string
  bi_max_len :: nat
  bi_cursor :: nat
  bi_pos :: nat

record FileStream =
  fs_is_opened :: bool
  fs_has_error :: bool
  fs_rd_buf :: BufInfo
  fs_wr_buf :: BufInfo
  fs_offset_rd :: nat
  fs_rd_count :: nat
  fs_handle :: bool
  fs_mode_write :: bool
  fs_file_size :: nat
  fs_encryption :: string
  fs_file :: string

definition DEFAULT_BUF_SIZE :: nat where "DEFAULT_BUF_SIZE = 4096"

definition BufInfo_Clear :: "BufInfo \<Rightarrow> BufInfo" where
  "BufInfo_Clear b = b\<lparr>bi_data := [], bi_cursor := 0, bi_pos := 0\<rparr>"

definition ReinitBuffer :: "nat \<Rightarrow> BufInfo" where
  "ReinitBuffer max_buf_len = \<lparr>bi_data = [], bi_max_len = max_buf_len, bi_cursor = 0, bi_pos = 0\<rparr>"

definition new_FileStream :: FileStream where
  "new_FileStream = \<lparr>fs_is_opened = False, fs_has_error = False, fs_rd_buf = ReinitBuffer DEFAULT_BUF_SIZE,
     fs_wr_buf = ReinitBuffer DEFAULT_BUF_SIZE, fs_offset_rd = 0, fs_rd_count = 0, fs_handle = False,
     fs_mode_write = False, fs_file_size = 0, fs_encryption = [], fs_file = []\<rparr>"

definition SetRdBufferSize :: "FileStream \<Rightarrow> nat \<Rightarrow> FileStream" where
  "SetRdBufferSize s n =
     (if n \<le> 256 * 1024 * 1024 \<and> bi_max_len (fs_rd_buf s) \<noteq> n then s\<lparr>fs_rd_buf := ReinitBuffer n\<rparr> else s)"

definition SetWrBufferSize :: "FileStream \<Rightarrow> nat \<Rightarrow> FileStream" where
  "SetWrBufferSize s n =
     (if n \<le> 256 * 1024 * 1024 \<and> bi_max_len (fs_wr_buf s) \<noteq> n then s\<lparr>fs_wr_buf := ReinitBuffer n\<rparr> else s)"

section \<open>Encryption\<close>

text \<open>Byte-wise addition and subtraction of the key, which repeats along the file.\<close>

definition char_add :: "char \<Rightarrow> char \<Rightarrow> char" where
  "char_add a b = char_of ((of_char a + of_char b :: nat))"

definition char_sub :: "char \<Rightarrow> char \<Rightarrow> char" where
  "char_sub a b = char_of ((of_char a + 256 - of_char b :: nat))"

definition with_key :: "(char \<Rightarrow> char \<Rightarrow> char) \<Rightarrow> string \<Rightarrow> nat \<Rightarrow> string \<Rightarrow> string" where
  "with_key f key pos bs =
     (if key = [] then bs else map (\<lambda>(i, c). f c (key ! (i mod length key))) (enumerate pos bs))"

abbreviation encrypt :: "string \<Rightarrow> nat \<Rightarrow> string \<Rightarrow> string" where "encrypt \<equiv> with_key char_add"

abbreviation decrypt :: "string \<Rightarrow> nat \<Rightarrow> string \<Rightarrow> string" where "decrypt \<equiv> with_key char_sub"

lemma length_with_key [simp]: "length (with_key f key pos bs) = length bs"
  by (simp add: with_key_def)

lemma with_key_Nil [simp]: "with_key f key pos [] = []"
  by (simp add: with_key_def)

lemma with_key_append: "with_key f key pos (xs @ ys) = with_key f key pos xs @ with_key f key (pos + length xs) ys"
  by (simp add: with_key_def enumerate_append_eq)

lemma char_sub_add [simp]: "char_sub (char_add a b) b = a"
proof -
  have b: "(of_char b :: nat) < 256" "(of_char a :: nat) < 256" by simp_all
  have "(of_char (char_add a b) :: nat) = (of_char a + of_char b) mod 256" by (simp add: char_add_def)
  moreover have "((x + y) mod 256 + 256 - y) mod 256 = x" if "x < 256" "y < 256" for x y :: nat
    using that by (cases "x + y < 256") (auto simp: le_mod_geq mod_if)
  ultimately have "(of_char (char_add a b) + 256 - of_char b :: nat) mod 256 = of_char a" using b by simp
  then have "char_of (of_char (char_add a b) + 256 - of_char b :: nat) = a"
    by (metis char_of_mod_256 char_of_char)
  then show ?thesis by (simp add: char_sub_def)
qed

lemma decrypt_encrypt [simp]: "decrypt key pos (encrypt key pos bs) = bs"
  by (rule nth_equalityI) (auto simp: with_key_def nth_enumerate_eq)

section \<open>Reading\<close>

text \<open>\<open>sys_read file pos n\<close> is \<open>lseek\<close> followed by \<open>read\<close>, \<open>None\<close> when one of them fails.\<close>

type_synonym sys_read = "string \<Rightarrow> nat \<Rightarrow> nat \<Rightarrow> string option"

definition UpdateRdBuffer :: "sys_read \<Rightarrow> FileStream \<Rightarrow> nat \<Rightarrow> bool \<times> FileStream" where
  "UpdateRdBuffer sys_read s file_pointer =
     (let b = (fs_rd_buf s)\<lparr>bi_pos := file_pointer, bi_data := [], bi_cursor := 0\<rparr>
      in case (if fs_handle s then sys_read (fs_file s) file_pointer (bi_max_len b) else None) of
           None \<Rightarrow> (False, s\<lparr>fs_rd_buf := b, fs_has_error := True\<rparr>)
         | Some d \<Rightarrow> (True, s\<lparr>fs_rd_buf := b\<lparr>bi_data := d\<rparr>\<rparr>))"

text \<open>The start of \<open>Read\<close> and \<open>GetLine\<close>: the cursor of the buffer, or a new buffer.\<close>

definition SyncRdBuffer :: "sys_read \<Rightarrow> FileStream \<Rightarrow> bool \<times> FileStream" where
  "SyncRdBuffer sys_read s =
     (let b = fs_rd_buf s
      in if fs_offset_rd s \<ge> bi_pos b \<and> fs_offset_rd s < bi_pos b + length (bi_data b)
         then (True, s\<lparr>fs_rd_buf := b\<lparr>bi_cursor := fs_offset_rd s - bi_pos b\<rparr>\<rparr>)
         else UpdateRdBuffer sys_read s (fs_offset_rd s))"

partial_function (option) Read_loop :: "sys_read \<Rightarrow> FileStream \<Rightarrow> nat \<Rightarrow> nat \<Rightarrow> string
    \<Rightarrow> (bool \<times> string \<times> FileStream) option" where
  "Read_loop sys_read s sz left out =
     (let b = fs_rd_buf s; cursor = bi_cursor b; buf_len = length (bi_data b)
      in if left = 0 then Some (True, out, s)
         else if (cursor + left) mod 2 ^ 32 \<le> buf_len then
           (if cursor + left > buf_len then None
            else Some (True, out @ decrypt (fs_encryption s) (bi_pos b + cursor) (take left (drop cursor (bi_data b))),
              s\<lparr>fs_rd_buf := b\<lparr>bi_cursor := cursor + left\<rparr>, fs_offset_rd := fs_offset_rd s + left,
                fs_rd_count := sz mod 2 ^ 32\<rparr>))
         else
           let read_size = buf_len - cursor;
               out' = out @ decrypt (fs_encryption s) (bi_pos b + cursor) (drop cursor (bi_data b));
               left' = left - read_size;
               (ret, s') = UpdateRdBuffer sys_read (s\<lparr>fs_offset_rd := fs_offset_rd s + read_size\<rparr>) (bi_pos b + buf_len)
           in if bi_data (fs_rd_buf s') = [] then Some (False, out', s'\<lparr>fs_rd_count := sz mod 2 ^ 32 - left'\<rparr>)
              else Read_loop sys_read s' sz left' out')"

text \<open>The result: the returned flag, the bytes written to the caller's buffer, and the stream.\<close>

definition FS_Read :: "sys_read \<Rightarrow> FileStream \<Rightarrow> nat \<Rightarrow> (bool \<times> string \<times> FileStream) option" where
  "FS_Read sys_read s sz =
     (if \<not> fs_is_opened s then Some (False, [], s)
      else if sz = 0 then Some (True, [], s\<lparr>fs_rd_count := 0\<rparr>)
      else
        let (ret, s1) = SyncRdBuffer sys_read s
        in if \<not> ret \<or> bi_data (fs_rd_buf s1) = [] then Some (False, [], s1\<lparr>fs_rd_count := 0\<rparr>)
           else Read_loop sys_read s1 sz (sz mod 2 ^ 32) [])"

datatype SeekWay = SEEK_WAY_ABS | SEEK_WAY_BEGIN | SEEK_WAY_END

definition SeekRd :: "FileStream \<Rightarrow> nat \<Rightarrow> SeekWay \<Rightarrow> bool \<times> FileStream" where
  "SeekRd s offset seek_way =
     (case seek_way of
        SEEK_WAY_BEGIN \<Rightarrow> (True, s\<lparr>fs_offset_rd := 0\<rparr>)
      | SEEK_WAY_END \<Rightarrow> (True, s\<lparr>fs_offset_rd := fs_file_size s\<rparr>)
      | SEEK_WAY_ABS \<Rightarrow> if offset \<le> fs_file_size s then (True, s\<lparr>fs_offset_rd := offset\<rparr>) else (False, s))"

definition TellRd :: "FileStream \<Rightarrow> nat" where "TellRd s = fs_offset_rd s"

partial_function (option) GetLine_loop :: "sys_read \<Rightarrow> FileStream \<Rightarrow> char \<Rightarrow> string
    \<Rightarrow> (bool \<times> bool \<times> string \<times> FileStream) option" where
  "GetLine_loop sys_read s delim line_str =
     (let (ret, s1) = (if bi_cursor (fs_rd_buf s) \<ge> length (bi_data (fs_rd_buf s))
            then UpdateRdBuffer sys_read s (bi_pos (fs_rd_buf s) + length (bi_data (fs_rd_buf s))) else (True, s));
          b = fs_rd_buf s1
      in if bi_data b = [] then Some (True, line_str \<noteq> [] \<and> ret, line_str, s1)
         else
           let rest = drop (bi_cursor b) (bi_data b);
               part = takeWhile (\<lambda>c. c \<noteq> delim) rest;
               line_str' = line_str @ part;
               n = length part
           in if delim \<in> set rest
              then Some (False, True, line_str', s1\<lparr>fs_rd_count := fs_rd_count s1 + n,
                fs_offset_rd := fs_offset_rd s1 + n + 1, fs_rd_buf := b\<lparr>bi_cursor := bi_cursor b + n + 1\<rparr>\<rparr>)
              else GetLine_loop sys_read (s1\<lparr>fs_rd_count := fs_rd_count s1 + n, fs_offset_rd := fs_offset_rd s1 + n,
                fs_rd_buf := b\<lparr>bi_cursor := bi_cursor b + n\<rparr>\<rparr>) delim line_str')"

definition strip_cr :: "char \<Rightarrow> string \<Rightarrow> string" where
  "strip_cr delim line_str =
     (if delim = CHR 0x0A \<and> line_str \<noteq> [] \<and> last line_str = CHR 0x0D then butlast line_str else line_str)"

text \<open>A line that ends with the file is returned from inside the loop, before the carriage return is cut.\<close>

definition GetLine :: "sys_read \<Rightarrow> FileStream \<Rightarrow> char \<Rightarrow> (bool \<times> string \<times> FileStream) option" where
  "GetLine sys_read s delim =
     (let (ret, s1) = SyncRdBuffer sys_read s
      in if \<not> ret \<or> bi_data (fs_rd_buf s1) = [] then Some (False, [], s1\<lparr>fs_rd_count := 0\<rparr>)
         else map_option (\<lambda>(at_end, ok, line_str, s'). (ok, if at_end then line_str else strip_cr delim line_str, s'))
           (GetLine_loop sys_read (s1\<lparr>fs_rd_count := 0\<rparr>) delim []))"

declare Read_loop.simps [code] GetLine_loop.simps [code]

section \<open>Opening\<close>

text \<open>
  Opening a file for reading with a stream that is not open for writing, so that the \<open>Close\<close> at the
  start of \<open>Open\<close> has nothing to flush. The file has its content, or none when it cannot be opened;
  the stream counts as opened in both cases.
\<close>

definition Open_read :: "FileStream \<Rightarrow> string option \<Rightarrow> bool \<times> FileStream" where
  "Open_read s file =
     (let s' = s\<lparr>fs_has_error := False, fs_is_opened := True, fs_mode_write := False, fs_offset_rd := 0,
            fs_rd_buf := (if bi_max_len (fs_rd_buf s) = 0 then ReinitBuffer DEFAULT_BUF_SIZE else BufInfo_Clear (fs_rd_buf s)),
            fs_wr_buf := BufInfo_Clear (fs_wr_buf s)\<rparr>
      in case file of
           None \<Rightarrow> (False, s'\<lparr>fs_handle := False, fs_file_size := 0, fs_file := []\<rparr>)
         | Some content \<Rightarrow> (True, s'\<lparr>fs_handle := True, fs_file_size := length content, fs_file := content\<rparr>))"

definition SkipUnicodeBOM :: "sys_read \<Rightarrow> FileStream \<Rightarrow> (bool \<times> FileStream) option" where
  "SkipUnicodeBOM sys_read s =
     (if fs_offset_rd s \<noteq> 0 \<or> fs_file_size s \<le> 1 then Some (True, s)
      else case FS_Read sys_read s (if fs_file_size s \<ge> 3 then 3 else 2) of
        None \<Rightarrow> None
      | Some (ret, buf, s1) \<Rightarrow>
          if ret \<and> (take 2 buf = [CHR 0xFE, CHR 0xFF] \<or> take 2 buf = [CHR 0xFF, CHR 0xFE])
          then Some (ret, snd (SeekRd s1 2 SEEK_WAY_ABS))
          else if ret \<and> fs_file_size s \<ge> 3 \<and> buf = [CHR 0xEF, CHR 0xBB, CHR 0xBF] then Some (ret, s1)
          else Some (ret, snd (SeekRd s1 (fs_offset_rd s) SEEK_WAY_ABS)))"

definition OpenForRead :: "sys_read \<Rightarrow> FileStream \<Rightarrow> string option \<Rightarrow> bool \<Rightarrow> (bool \<times> FileStream) option" where
  "OpenForRead sys_read s file skip_unicode_bom =
     (let (ret, s1) = Open_read s file
      in if ret \<and> skip_unicode_bom then SkipUnicodeBOM sys_read s1 else Some (ret, s1))"

section \<open>Reads deliver the bytes of the file\<close>

text \<open>What \<open>read\<close> promises on a regular file: at least one byte before its end, perhaps fewer than asked.\<close>

locale regular_file =
  fixes sys_read :: sys_read
  assumes sys_read_bytes:
    "\<exists>d. sys_read file p n = Some d \<and> prefix d (drop p file) \<and> length d \<le> n \<and> (d = [] \<longrightarrow> n = 0 \<or> length file \<le> p)"

text \<open>A read that returns all it can.\<close>

definition full_read :: sys_read where
  "full_read file p n = Some (take n (drop p file))"

interpretation full: regular_file full_read
  by unfold_locales (auto simp: full_read_def take_is_prefix)

definition rd_ok :: "FileStream \<Rightarrow> bool" where
  "rd_ok s \<longleftrightarrow> fs_is_opened s \<and> fs_handle s \<and> 0 < bi_max_len (fs_rd_buf s)
     \<and> length (bi_data (fs_rd_buf s)) \<le> bi_max_len (fs_rd_buf s)
     \<and> prefix (bi_data (fs_rd_buf s)) (drop (bi_pos (fs_rd_buf s)) (fs_file s))"

text \<open>What reading leaves alone.\<close>

definition rd_view :: "FileStream \<Rightarrow> string \<times> string \<times> nat \<times> nat \<times> BufInfo \<times> bool" where
  "rd_view s = (fs_file s, fs_encryption s, fs_file_size s, bi_max_len (fs_rd_buf s), fs_wr_buf s, fs_has_error s)"

definition at_cursor :: "FileStream \<Rightarrow> bool" where
  "at_cursor s \<longleftrightarrow> rd_ok s \<and> bi_cursor (fs_rd_buf s) < length (bi_data (fs_rd_buf s))
     \<and> fs_offset_rd s = bi_pos (fs_rd_buf s) + bi_cursor (fs_rd_buf s)"

abbreviation rest_of :: "FileStream \<Rightarrow> string" where
  "rest_of s \<equiv> drop (fs_offset_rd s) (fs_file s)"

lemma drop_in_prefix:
  assumes "prefix d (drop p xs)" "c \<le> length d"
  shows "drop (p + c) xs = drop c d @ drop (p + length d) xs"
proof -
  obtain zs where zs: "drop p xs = d @ zs" using assms(1) by (auto simp: prefix_def)
  have "drop (p + k) xs = drop k (drop p xs)" for k by (simp add: add.commute)
  then show ?thesis using zs assms(2) by simp
qed

lemma at_cursor_rest:
  assumes "at_cursor s"
  shows "rest_of s = drop (bi_cursor (fs_rd_buf s)) (bi_data (fs_rd_buf s))
     @ drop (bi_pos (fs_rd_buf s) + length (bi_data (fs_rd_buf s))) (fs_file s)"
  using assms drop_in_prefix [of "bi_data (fs_rd_buf s)" "bi_pos (fs_rd_buf s)" "fs_file s" "bi_cursor (fs_rd_buf s)"]
  by (simp add: at_cursor_def rd_ok_def)

context regular_file
begin

lemma UpdateRdBuffer_ok:
  assumes "rd_ok s"
  obtains d where "UpdateRdBuffer sys_read s p = (True, s\<lparr>fs_rd_buf := (fs_rd_buf s)\<lparr>bi_pos := p, bi_data := d, bi_cursor := 0\<rparr>\<rparr>)"
    "prefix d (drop p (fs_file s))" "length d \<le> bi_max_len (fs_rd_buf s)" "d = [] \<longleftrightarrow> length (fs_file s) \<le> p"
proof -
  obtain d where d: "sys_read (fs_file s) p (bi_max_len (fs_rd_buf s)) = Some d" "prefix d (drop p (fs_file s))"
    "length d \<le> bi_max_len (fs_rd_buf s)" "d = [] \<longrightarrow> bi_max_len (fs_rd_buf s) = 0 \<or> length (fs_file s) \<le> p"
    using sys_read_bytes by blast
  have "d = [] \<longleftrightarrow> length (fs_file s) \<le> p" using d(2,4) assms by (auto simp: rd_ok_def)
  then show ?thesis using that [of d] d assms by (simp add: UpdateRdBuffer_def rd_ok_def)
qed

lemma SyncRdBuffer_ok:
  assumes "rd_ok s"
  obtains s1 where "SyncRdBuffer sys_read s = (True, s1)" "rd_view s1 = rd_view s" "fs_offset_rd s1 = fs_offset_rd s"
    "rd_ok s1" "rest_of s \<noteq> [] \<longrightarrow> at_cursor s1" "rest_of s = [] \<longrightarrow> bi_data (fs_rd_buf s1) = []"
proof (cases "fs_offset_rd s \<ge> bi_pos (fs_rd_buf s) \<and> fs_offset_rd s < bi_pos (fs_rd_buf s) + length (bi_data (fs_rd_buf s))")
  case True
  let ?s = "s\<lparr>fs_rd_buf := (fs_rd_buf s)\<lparr>bi_cursor := fs_offset_rd s - bi_pos (fs_rd_buf s)\<rparr>\<rparr>"
  have "length (bi_data (fs_rd_buf s)) \<le> length (fs_file s) - bi_pos (fs_rd_buf s)"
    using assms prefix_length_le [of "bi_data (fs_rd_buf s)"] by (fastforce simp: rd_ok_def)
  then have "rest_of s \<noteq> []" using True by auto
  moreover have "at_cursor ?s" using True assms by (auto simp: at_cursor_def rd_ok_def)
  ultimately show ?thesis using that [of ?s] True assms by (auto simp: SyncRdBuffer_def Let_def rd_view_def rd_ok_def)
next
  case False
  obtain d where d: "UpdateRdBuffer sys_read s (fs_offset_rd s)
      = (True, s\<lparr>fs_rd_buf := (fs_rd_buf s)\<lparr>bi_pos := fs_offset_rd s, bi_data := d, bi_cursor := 0\<rparr>\<rparr>)"
    "prefix d (rest_of s)" "length d \<le> bi_max_len (fs_rd_buf s)" "d = [] \<longleftrightarrow> length (fs_file s) \<le> fs_offset_rd s"
    using UpdateRdBuffer_ok [OF assms] by metis
  let ?s = "s\<lparr>fs_rd_buf := (fs_rd_buf s)\<lparr>bi_pos := fs_offset_rd s, bi_data := d, bi_cursor := 0\<rparr>\<rparr>"
  have "rd_ok ?s" using d assms by (simp add: rd_ok_def)
  then show ?thesis using that [of ?s] False d by (auto simp: SyncRdBuffer_def Let_def rd_view_def at_cursor_def)
qed

end

context regular_file
begin

lemma Read_loop_ok:
  assumes "at_cursor s" "0 < left" "left + bi_max_len (fs_rd_buf s) < 2 ^ 32"
  shows "\<exists>s'. Read_loop sys_read s sz left out =
      Some (left \<le> length (rest_of s), out @ decrypt (fs_encryption s) (fs_offset_rd s) (take left (rest_of s)), s')
    \<and> rd_ok s' \<and> rd_view s' = rd_view s \<and> fs_offset_rd s' = fs_offset_rd s + min left (length (rest_of s))
    \<and> fs_rd_count s' = sz mod 2 ^ 32 - (left - length (rest_of s))"
  using assms
proof (induction left arbitrary: s out rule: less_induct)
  case (less left)
  let ?b = "fs_rd_buf s"
  let ?c = "bi_cursor ?b" and ?data = "bi_data ?b" and ?key = "fs_encryption s"
  let ?next = "bi_pos ?b + length ?data"
  let ?behind = "drop ?next (fs_file s)"
  have ok: "rd_ok s" and cur: "?c < length ?data" and off: "fs_offset_rd s = bi_pos ?b + ?c"
    using less.prems(1) by (auto simp: at_cursor_def)
  have rest: "rest_of s = drop ?c ?data @ ?behind" using at_cursor_rest [OF less.prems(1)] .
  have wrap: "(?c + left) mod 2 ^ 32 = ?c + left" using cur ok less.prems(3) by (simp add: rd_ok_def)
  show ?case
  proof (cases "?c + left \<le> length ?data")
    case True
    let ?s = "s\<lparr>fs_rd_buf := ?b\<lparr>bi_cursor := ?c + left\<rparr>, fs_offset_rd := fs_offset_rd s + left, fs_rd_count := sz mod 2 ^ 32\<rparr>"
    have "Read_loop sys_read s sz left out = Some (True, out @ decrypt ?key (bi_pos ?b + ?c) (take left (drop ?c ?data)), ?s)"
      using True wrap less.prems(2) by (subst Read_loop.simps) (simp add: Let_def)
    moreover have "take left (rest_of s) = take left (drop ?c ?data)" using True rest by simp
    moreover have "left \<le> length (rest_of s)" using True unfolding rest by simp
    moreover have "rd_ok ?s" "rd_view ?s = rd_view s" using ok by (simp_all add: rd_ok_def rd_view_def)
    ultimately show ?thesis using off by (intro exI [of _ ?s]) (simp add: min_def)
  next
    case False
    let ?n = "length ?data - ?c"
    let ?out = "out @ decrypt ?key (bi_pos ?b + ?c) (drop ?c ?data)"
    let ?s0 = "s\<lparr>fs_offset_rd := fs_offset_rd s + ?n\<rparr>"
    have "rd_ok ?s0" using ok by (simp add: rd_ok_def)
    then have "\<exists>d. UpdateRdBuffer sys_read ?s0 ?next
          = (True, ?s0\<lparr>fs_rd_buf := (fs_rd_buf ?s0)\<lparr>bi_pos := ?next, bi_data := d, bi_cursor := 0\<rparr>\<rparr>)
        \<and> prefix d (drop ?next (fs_file ?s0)) \<and> length d \<le> bi_max_len (fs_rd_buf ?s0)
        \<and> (d = [] \<longleftrightarrow> length (fs_file ?s0) \<le> ?next)"
      by (rule UpdateRdBuffer_ok [of _ ?next]) blast
    then obtain d where d: "UpdateRdBuffer sys_read ?s0 ?next
        = (True, ?s0\<lparr>fs_rd_buf := ?b\<lparr>bi_pos := ?next, bi_data := d, bi_cursor := 0\<rparr>\<rparr>)"
      "prefix d ?behind" "length d \<le> bi_max_len ?b" "d = [] \<longleftrightarrow> ?behind = []"
      by auto
    let ?s = "?s0\<lparr>fs_rd_buf := ?b\<lparr>bi_pos := ?next, bi_data := d, bi_cursor := 0\<rparr>\<rparr>"
    have step: "Read_loop sys_read s sz left out = (if d = [] then Some (False, ?out, ?s\<lparr>fs_rd_count := sz mod 2 ^ 32 - (left - ?n)\<rparr>)
        else Read_loop sys_read ?s sz (left - ?n) ?out)"
      using False wrap less.prems(2) d(1) by (subst Read_loop.simps) (simp add: Let_def)
    have ok': "rd_ok ?s" "rd_view ?s = rd_view s" using ok d by (simp_all add: rd_ok_def rd_view_def)
    show ?thesis
    proof (cases "d = []")
      case True
      then have "rest_of s = drop ?c ?data" using rest d(4) by simp
      then show ?thesis using step True False off ok' cur by (auto simp: rd_ok_def rd_view_def min_def)
    next
      case nonempty: False
      define s1 where "s1 = ?s"
      have s1: "at_cursor s1" "rd_view s1 = rd_view s" "fs_file s1 = fs_file s" "fs_offset_rd s1 = ?next"
          "fs_encryption s1 = ?key" "bi_max_len (fs_rd_buf s1) = bi_max_len ?b"
        using ok' nonempty off cur by (simp_all add: s1_def at_cursor_def)
      have less_left: "left - ?n < left" "0 < left - ?n" "left - ?n + bi_max_len (fs_rd_buf s1) < 2 ^ 32"
        using cur False less.prems(2,3) s1(6) by auto
      obtain s' where s': "Read_loop sys_read s1 sz (left - ?n) ?out = Some (left - ?n \<le> length ?behind,
          ?out @ decrypt ?key ?next (take (left - ?n) ?behind), s')"
        "rd_ok s'" "rd_view s' = rd_view s" "fs_offset_rd s' = ?next + min (left - ?n) (length ?behind)"
        "fs_rd_count s' = sz mod 2 ^ 32 - (left - ?n - length ?behind)"
        using less.IH [OF less_left(1) s1(1) less_left(2,3), of ?out] unfolding s1(2-5) by blast
      have bytes: "decrypt ?key (fs_offset_rd s) (take left (rest_of s))
          = decrypt ?key (bi_pos ?b + ?c) (drop ?c ?data) @ decrypt ?key ?next (take (left - ?n) ?behind)"
        using False off cur unfolding rest by (simp add: with_key_append)
      have len: "length (rest_of s) = ?n + length ?behind" unfolding rest by simp
      have "Read_loop sys_read s sz left out = Some (left \<le> length (rest_of s),
          out @ decrypt ?key (fs_offset_rd s) (take left (rest_of s)), s')"
        using step nonempty s'(1) s1_def unfolding bytes len by (simp add: le_diff_conv add.commute)
      moreover have "fs_offset_rd s' = fs_offset_rd s + min left (length (rest_of s))"
        using s'(4) off cur False unfolding len by linarith
      moreover have "fs_rd_count s' = sz mod 2 ^ 32 - (left - length (rest_of s))"
        using s'(5) unfolding len by simp
      ultimately show ?thesis using s'(2,3) by blast
    qed
  qed
qed

lemma Read_ok:
  assumes "rd_ok s" "sz + bi_max_len (fs_rd_buf s) < 2 ^ 32"
  shows "\<exists>s'. FS_Read sys_read s sz =
      Some (sz \<le> length (rest_of s), decrypt (fs_encryption s) (fs_offset_rd s) (take sz (rest_of s)), s')
    \<and> rd_ok s' \<and> rd_view s' = rd_view s \<and> fs_offset_rd s' = fs_offset_rd s + min sz (length (rest_of s))
    \<and> fs_rd_count s' = min sz (length (rest_of s))"
proof -
  consider "sz = 0" | "0 < sz" "rest_of s = []" | "0 < sz" "rest_of s \<noteq> []" by blast
  then show ?thesis
  proof cases
    case 1
    then show ?thesis using assms(1) by (auto simp: FS_Read_def rd_ok_def rd_view_def)
  next
    case 2
    obtain s1 where "SyncRdBuffer sys_read s = (True, s1)" "rd_view s1 = rd_view s" "fs_offset_rd s1 = fs_offset_rd s"
      "rd_ok s1" "bi_data (fs_rd_buf s1) = []"
      using SyncRdBuffer_ok [OF assms(1)] 2(2) by metis
    then show ?thesis using assms(1) 2 by (auto simp: FS_Read_def rd_ok_def rd_view_def)
  next
    case 3
    obtain s1 where s1: "SyncRdBuffer sys_read s = (True, s1)" "rd_view s1 = rd_view s" "fs_offset_rd s1 = fs_offset_rd s"
      "at_cursor s1"
      using SyncRdBuffer_ok [OF assms(1)] 3(2) by metis
    have same: "fs_file s1 = fs_file s" "fs_encryption s1 = fs_encryption s" "bi_max_len (fs_rd_buf s1) = bi_max_len (fs_rd_buf s)"
      using s1(2,3) by (simp_all add: rd_view_def)
    have "FS_Read sys_read s sz = Read_loop sys_read s1 sz sz []"
      using assms s1(1,4) 3(1) by (auto simp: FS_Read_def rd_ok_def at_cursor_def)
    moreover have "sz mod 2 ^ 32 - (sz - length (rest_of s)) = min sz (length (rest_of s))" using assms(2) by (simp add: min_def)
    ultimately show ?thesis using Read_loop_ok [OF s1(4) 3(1), of sz "[]"] assms(2) same s1(2,3) by simp
  qed
qed

end

section \<open>Lines\<close>

text \<open>The next line of a text: whether there is one, the line, and the number of bytes it takes.\<close>

definition next_line :: "char \<Rightarrow> string \<Rightarrow> bool \<times> string \<times> nat" where
  "next_line delim rest =
     (if rest = [] then (False, [], 0)
      else if delim \<in> set rest
      then (True, strip_cr delim (takeWhile (\<lambda>c. c \<noteq> delim) rest), length (takeWhile (\<lambda>c. c \<noteq> delim) rest) + 1)
      else (True, rest, length rest))"

context regular_file
begin

lemma refill_ok:
  assumes "rd_ok s" "fs_offset_rd s = bi_pos (fs_rd_buf s) + bi_cursor (fs_rd_buf s)"
    and "bi_cursor (fs_rd_buf s) \<le> length (bi_data (fs_rd_buf s))"
  obtains s1 where "(if bi_cursor (fs_rd_buf s) \<ge> length (bi_data (fs_rd_buf s))
        then UpdateRdBuffer sys_read s (bi_pos (fs_rd_buf s) + length (bi_data (fs_rd_buf s))) else (True, s)) = (True, s1)"
    "rd_view s1 = rd_view s" "fs_offset_rd s1 = fs_offset_rd s" "rd_ok s1"
    "rest_of s \<noteq> [] \<longrightarrow> at_cursor s1" "rest_of s = [] \<longrightarrow> bi_data (fs_rd_buf s1) = []"
proof (cases "bi_cursor (fs_rd_buf s) < length (bi_data (fs_rd_buf s))")
  case True
  then have at: "at_cursor s" using assms by (simp add: at_cursor_def)
  have "rest_of s \<noteq> []" using at_cursor_rest [OF at] True by simp
  then show ?thesis using that [of s] True at assms(1) by simp
next
  case False
  then have at_end: "bi_pos (fs_rd_buf s) + length (bi_data (fs_rd_buf s)) = fs_offset_rd s" using assms by simp
  obtain d where d: "UpdateRdBuffer sys_read s (fs_offset_rd s)
      = (True, s\<lparr>fs_rd_buf := (fs_rd_buf s)\<lparr>bi_pos := fs_offset_rd s, bi_data := d, bi_cursor := 0\<rparr>\<rparr>)"
    "prefix d (rest_of s)" "length d \<le> bi_max_len (fs_rd_buf s)" "d = [] \<longleftrightarrow> length (fs_file s) \<le> fs_offset_rd s"
    using UpdateRdBuffer_ok [OF assms(1)] by metis
  let ?s = "s\<lparr>fs_rd_buf := (fs_rd_buf s)\<lparr>bi_pos := fs_offset_rd s, bi_data := d, bi_cursor := 0\<rparr>\<rparr>"
  have "rd_ok ?s" using d assms(1) by (simp add: rd_ok_def)
  then show ?thesis using that [of ?s] False d at_end by (auto simp: rd_view_def at_cursor_def)
qed

lemma GetLine_loop_ok:
  assumes "rd_ok s" "fs_offset_rd s = bi_pos (fs_rd_buf s) + bi_cursor (fs_rd_buf s)"
    and "bi_cursor (fs_rd_buf s) \<le> length (bi_data (fs_rd_buf s))"
  shows "\<exists>s'. GetLine_loop sys_read s delim acc =
      Some (if delim \<in> set (rest_of s) then (False, True, acc @ takeWhile (\<lambda>c. c \<noteq> delim) (rest_of s), s')
            else (True, acc @ rest_of s \<noteq> [], acc @ rest_of s, s'))
    \<and> rd_ok s' \<and> rd_view s' = rd_view s
    \<and> fs_offset_rd s' = fs_offset_rd s + (if delim \<in> set (rest_of s)
        then length (takeWhile (\<lambda>c. c \<noteq> delim) (rest_of s)) + 1 else length (rest_of s))"
  using assms
proof (induction "length (rest_of s)" arbitrary: s acc rule: less_induct)
  case less
  obtain s1 where s1: "(if bi_cursor (fs_rd_buf s) \<ge> length (bi_data (fs_rd_buf s))
        then UpdateRdBuffer sys_read s (bi_pos (fs_rd_buf s) + length (bi_data (fs_rd_buf s))) else (True, s)) = (True, s1)"
    "rd_view s1 = rd_view s" "fs_offset_rd s1 = fs_offset_rd s" "rd_ok s1"
    "rest_of s \<noteq> [] \<longrightarrow> at_cursor s1" "rest_of s = [] \<longrightarrow> bi_data (fs_rd_buf s1) = []"
    using refill_ok [OF less.prems] by blast
  have same_file: "fs_file s1 = fs_file s" using s1(2) by (simp add: rd_view_def)
  show ?case
  proof (cases "rest_of s = []")
    case True
    then have "GetLine_loop sys_read s delim acc = Some (True, acc \<noteq> [], acc, s1)"
      using s1(1,6) by (subst GetLine_loop.simps) (simp add: Let_def)
    then show ?thesis using True s1(2-4) by (intro exI [of _ s1]) auto
  next
    case False
    let ?b = "fs_rd_buf s1"
    let ?rest = "drop (bi_cursor ?b) (bi_data ?b)" and ?behind = "drop (bi_pos ?b + length (bi_data ?b)) (fs_file s)"
    let ?part = "takeWhile (\<lambda>c. c \<noteq> delim) ?rest"
    have at: "at_cursor s1" using s1(5) False by blast
    then have cur: "bi_cursor ?b < length (bi_data ?b)" by (simp add: at_cursor_def)
    have rest: "rest_of s = ?rest @ ?behind" using at_cursor_rest [OF at] same_file s1(3) by simp
    show ?thesis
    proof (cases "delim \<in> set ?rest")
      case True
      let ?s = "s1\<lparr>fs_rd_count := fs_rd_count s1 + length ?part, fs_offset_rd := fs_offset_rd s1 + length ?part + 1,
        fs_rd_buf := ?b\<lparr>bi_cursor := bi_cursor ?b + length ?part + 1\<rparr>\<rparr>"
      have "GetLine_loop sys_read s delim acc = Some (False, True, acc @ ?part, ?s)"
        using s1(1) True cur by (subst GetLine_loop.simps) (auto simp: Let_def)
      moreover have "takeWhile (\<lambda>c. c \<noteq> delim) (rest_of s) = ?part" "delim \<in> set (rest_of s)"
        using True unfolding rest by (auto simp: takeWhile_append1)
      moreover have "rd_ok ?s" "rd_view ?s = rd_view s" using s1(2,4) by (simp_all add: rd_ok_def rd_view_def)
      ultimately show ?thesis using s1(3) by (intro exI [of _ ?s]) simp
    next
      case no_delim: False
      then have part: "?part = ?rest" by (simp add: takeWhile_eq_all_conv) blast
      define s2 where "s2 = s1\<lparr>fs_rd_count := fs_rd_count s1 + length ?part, fs_offset_rd := fs_offset_rd s1 + length ?part,
        fs_rd_buf := ?b\<lparr>bi_cursor := bi_cursor ?b + length ?part\<rparr>\<rparr>"
      have "GetLine_loop sys_read s delim acc = GetLine_loop sys_read s2 delim (acc @ ?part)"
        using s1(1) no_delim cur by (subst GetLine_loop.simps) (auto simp: Let_def s2_def)
      then have step: "GetLine_loop sys_read s delim acc = GetLine_loop sys_read s2 delim (acc @ ?rest)"
        unfolding part .
      have s2: "rd_ok s2" "rd_view s2 = rd_view s" "fs_offset_rd s2 = bi_pos (fs_rd_buf s2) + bi_cursor (fs_rd_buf s2)"
          "bi_cursor (fs_rd_buf s2) \<le> length (bi_data (fs_rd_buf s2))" "fs_offset_rd s2 = fs_offset_rd s + length ?rest"
        using s1(2-4) at cur unfolding s2_def part by (simp_all add: rd_ok_def rd_view_def at_cursor_def)
      have behind: "rest_of s2 = ?behind" using s2(2,3) cur unfolding s2_def part by (simp add: rd_view_def)
      have "length (rest_of s2) < length (rest_of s)" using cur unfolding behind rest by simp
      from less.hyps [OF this s2(1,3,4), of "acc @ ?rest"] obtain s' where
        s': "GetLine_loop sys_read s2 delim (acc @ ?rest) =
          Some (if delim \<in> set ?behind then (False, True, (acc @ ?rest) @ takeWhile (\<lambda>c. c \<noteq> delim) ?behind, s')
            else (True, (acc @ ?rest) @ ?behind \<noteq> [], (acc @ ?rest) @ ?behind, s'))"
          "rd_ok s'" "rd_view s' = rd_view s" "fs_offset_rd s' = fs_offset_rd s2 + (if delim \<in> set ?behind
            then length (takeWhile (\<lambda>c. c \<noteq> delim) ?behind) + 1 else length ?behind)"
        unfolding behind s2(2) by blast
      have "delim \<in> set (rest_of s) \<longleftrightarrow> delim \<in> set ?behind" using no_delim unfolding rest by auto
      moreover have "takeWhile (\<lambda>c. c \<noteq> delim) (rest_of s) = ?rest @ takeWhile (\<lambda>c. c \<noteq> delim) ?behind"
        using no_delim unfolding rest by (subst takeWhile_append2) auto
      ultimately show ?thesis using s' step s2(5) rest by (intro exI [of _ s']) simp
    qed
  qed
qed

lemma GetLine_ok:
  assumes "rd_ok s"
  shows "\<exists>ok line n s'. next_line delim (rest_of s) = (ok, line, n) \<and> GetLine sys_read s delim = Some (ok, line, s')
    \<and> rd_ok s' \<and> rd_view s' = rd_view s \<and> fs_offset_rd s' = fs_offset_rd s + n"
proof -
  obtain s1 where s1: "SyncRdBuffer sys_read s = (True, s1)" "rd_view s1 = rd_view s" "fs_offset_rd s1 = fs_offset_rd s"
    "rd_ok s1" "rest_of s \<noteq> [] \<longrightarrow> at_cursor s1" "rest_of s = [] \<longrightarrow> bi_data (fs_rd_buf s1) = []"
    using SyncRdBuffer_ok [OF assms] by blast
  show ?thesis
  proof (cases "rest_of s = []")
    case True
    then have "GetLine sys_read s delim = Some (False, [], s1\<lparr>fs_rd_count := 0\<rparr>)" using s1(1,6) by (simp add: GetLine_def)
    then show ?thesis using True s1(2-4) by (auto simp: next_line_def rd_ok_def rd_view_def)
  next
    case False
    define s2 where "s2 = s1\<lparr>fs_rd_count := 0\<rparr>"
    have at: "at_cursor s2" using s1(5) False by (simp add: s2_def at_cursor_def rd_ok_def)
    have same: "fs_file s2 = fs_file s" "rd_view s2 = rd_view s" "fs_offset_rd s2 = fs_offset_rd s"
      using s1(2,3) by (simp_all add: s2_def rd_view_def)
    have ok: "rd_ok s2" "fs_offset_rd s2 = bi_pos (fs_rd_buf s2) + bi_cursor (fs_rd_buf s2)"
      "bi_cursor (fs_rd_buf s2) \<le> length (bi_data (fs_rd_buf s2))"
      using at by (simp_all add: at_cursor_def)
    have "bi_data (fs_rd_buf s1) \<noteq> []" using at by (auto simp: s2_def at_cursor_def)
    then have "GetLine sys_read s delim = map_option (\<lambda>(at_end, ok, line_str, s').
        (ok, if at_end then line_str else strip_cr delim line_str, s')) (GetLine_loop sys_read s2 delim [])"
      using s1(1) by (simp add: GetLine_def s2_def)
    moreover obtain s' where "GetLine_loop sys_read s2 delim [] =
      Some (if delim \<in> set (rest_of s) then (False, True, takeWhile (\<lambda>c. c \<noteq> delim) (rest_of s), s')
            else (True, rest_of s \<noteq> [], rest_of s, s'))"
      "rd_ok s'" "rd_view s' = rd_view s" "fs_offset_rd s' = fs_offset_rd s + (if delim \<in> set (rest_of s)
        then length (takeWhile (\<lambda>c. c \<noteq> delim) (rest_of s)) + 1 else length (rest_of s))"
      using GetLine_loop_ok [OF ok, of delim "[]"] unfolding same append_Nil by blast
    ultimately show ?thesis using False by (cases "delim \<in> set (rest_of s)") (auto simp: next_line_def)
  qed
qed

end

section \<open>Writing\<close>

text \<open>
  \<open>sys_write file pos bs\<close> is \<open>write\<close> at a position to which \<open>lseek\<close> succeeds: the number of bytes
  written, negative for an error, and the file afterwards.
\<close>

type_synonym sys_write = "string \<Rightarrow> nat \<Rightarrow> string \<Rightarrow> int \<times> string"

definition FlushWrBuffer :: "sys_write \<Rightarrow> FileStream \<Rightarrow> bool \<times> FileStream" where
  "FlushWrBuffer sys_write s =
     (if \<not> fs_handle s then (False, s\<lparr>fs_has_error := True\<rparr>)
      else
        let b = fs_wr_buf s;
            (ret, s1) = (if bi_data b \<noteq> [] then
                let (n, file') = sys_write (fs_file s) (bi_pos b) (bi_data b)
                in if n < int (length (bi_data b)) then (False, s\<lparr>fs_file := file', fs_has_error := True\<rparr>)
                   else (True, s\<lparr>fs_file := file'\<rparr>)
              else (True, s))
        in (ret, s1\<lparr>fs_wr_buf := b\<lparr>bi_pos := bi_pos b + length (bi_data b), bi_data := [], bi_cursor := 0\<rparr>\<rparr>))"

partial_function (option) Write_loop :: "sys_write \<Rightarrow> FileStream \<Rightarrow> string \<Rightarrow> (bool \<times> FileStream) option" where
  "Write_loop sys_write s rest =
     (let b = fs_wr_buf s; buf_len = length (bi_data b); key = fs_encryption s
      in if rest = [] then Some (True, s)
         else if (buf_len + length rest) mod 2 ^ 32 \<le> bi_max_len b then
           (if buf_len + length rest > bi_max_len b then None
            else Some (True, s\<lparr>fs_wr_buf := b\<lparr>bi_data := bi_data b @ encrypt key (bi_pos b + buf_len) rest\<rparr>\<rparr>))
         else
           let write_size = bi_max_len b - buf_len;
               (ret, s') = FlushWrBuffer sys_write (s\<lparr>fs_wr_buf := b\<lparr>bi_data :=
                 bi_data b @ encrypt key (bi_pos b + buf_len) (take write_size rest)\<rparr>\<rparr>)
           in if \<not> ret then Some (False, s'\<lparr>fs_has_error := True\<rparr>) else Write_loop sys_write s' (drop write_size rest))"

declare Write_loop.simps [code]

definition FS_Write :: "sys_write \<Rightarrow> FileStream \<Rightarrow> string \<Rightarrow> (bool \<times> FileStream) option" where
  "FS_Write sys_write s bs =
     (if \<not> fs_is_opened s then Some (False, s)
      else if bs = [] then Some (True, s)
      else case Write_loop sys_write s (take (length bs mod 2 ^ 32) bs) of
        None \<Rightarrow> None
      | Some (False, s') \<Rightarrow> Some (False, s')
      | Some (True, s') \<Rightarrow>
          Some (True, s'\<lparr>fs_file_size := max (fs_file_size s') (bi_pos (fs_wr_buf s') + length (bi_data (fs_wr_buf s')))\<rparr>))"

definition Close :: "sys_write \<Rightarrow> FileStream \<Rightarrow> bool \<times> FileStream" where
  "Close sys_write s =
     (let (ret, s1) = (if fs_is_opened s \<and> fs_handle s \<and> fs_mode_write s then FlushWrBuffer sys_write s else (True, s))
      in (ret, s1\<lparr>fs_offset_rd := 0, fs_rd_buf := BufInfo_Clear (fs_rd_buf s1), fs_wr_buf := BufInfo_Clear (fs_wr_buf s1),
            fs_handle := False, fs_file_size := 0, fs_is_opened := False\<rparr>))"

text \<open>
  The file with the content \<open>file\<close> (\<open>None\<close>: there is no such file) is created or truncated; \<open>ok\<close> tells
  whether the system call succeeds. When it fails, the file is left as it is, and its size is the one
  that the stream takes over, although it has no handle. The stream is not open for writing before,
  as in \<open>Open_read\<close>.
\<close>

definition OpenForWrite :: "FileStream \<Rightarrow> string option \<Rightarrow> bool \<Rightarrow> bool \<times> FileStream" where
  "OpenForWrite s file ok =
     (ok, s\<lparr>fs_has_error := False, fs_is_opened := True, fs_mode_write := True, fs_offset_rd := 0,
        fs_rd_buf := BufInfo_Clear (fs_rd_buf s),
        fs_wr_buf := (if bi_max_len (fs_wr_buf s) = 0 then ReinitBuffer DEFAULT_BUF_SIZE else BufInfo_Clear (fs_wr_buf s)),
        fs_handle := ok, fs_file_size := (case file of Some content \<Rightarrow> if ok then 0 else length content | None \<Rightarrow> 0),
        fs_file := (case file of Some content \<Rightarrow> if ok then [] else content | None \<Rightarrow> [])\<rparr>)"

definition SetEncryptionString :: "FileStream \<Rightarrow> string \<Rightarrow> FileStream" where
  "SetEncryptionString s key = s\<lparr>fs_encryption := key\<rparr>"

definition TellWr :: "FileStream \<Rightarrow> nat" where
  "TellWr s = bi_pos (fs_wr_buf s) + length (bi_data (fs_wr_buf s))"

definition SeekWr :: "sys_write \<Rightarrow> FileStream \<Rightarrow> nat \<Rightarrow> SeekWay \<Rightarrow> bool \<times> FileStream" where
  "SeekWr sys_write s offset seek_way =
     (let offset_wr = (case seek_way of SEEK_WAY_BEGIN \<Rightarrow> 0 | SEEK_WAY_END \<Rightarrow> fs_file_size s | SEEK_WAY_ABS \<Rightarrow> offset)
      in if seek_way = SEEK_WAY_ABS \<and> offset > fs_file_size s then (False, s)
         else if offset_wr = bi_pos (fs_wr_buf s) \<and> bi_data (fs_wr_buf s) = [] then (True, s)
         else
           let (ret, s1) = FlushWrBuffer sys_write s
           in if \<not> ret then (False, s1\<lparr>fs_has_error := True\<rparr>)
              else (True, s1\<lparr>fs_wr_buf := (fs_wr_buf s1)\<lparr>bi_pos := offset_wr, bi_data := [], bi_cursor := 0\<rparr>\<rparr>))"

locale writable_file =
  fixes sys_write :: sys_write
  assumes sys_write_appends: "sys_write file (length file) bs = (int (length bs), file @ bs)"

definition full_write :: sys_write where
  "full_write file p bs = (int (length bs), take p file @ replicate (p - length file) CHR 0x00 @ bs @ drop (p + length bs) file)"

interpretation full_w: writable_file full_write
  by unfold_locales (simp add: full_write_def)

definition wr_ok :: "FileStream \<Rightarrow> bool" where
  "wr_ok s \<longleftrightarrow> fs_is_opened s \<and> fs_handle s \<and> fs_mode_write s \<and> 0 < bi_max_len (fs_wr_buf s)
     \<and> length (bi_data (fs_wr_buf s)) \<le> bi_max_len (fs_wr_buf s) \<and> bi_pos (fs_wr_buf s) = length (fs_file s)"

text \<open>What the file will hold once the buffer is flushed.\<close>

definition content :: "FileStream \<Rightarrow> string" where
  "content s = fs_file s @ bi_data (fs_wr_buf s)"

definition wr_view :: "FileStream \<Rightarrow> string \<times> nat" where
  "wr_view s = (fs_encryption s, bi_max_len (fs_wr_buf s))"

context writable_file
begin

lemma Flush_ok:
  assumes "wr_ok s"
  shows "\<exists>s'. FlushWrBuffer sys_write s = (True, s') \<and> wr_ok s' \<and> fs_file s' = content s \<and> bi_data (fs_wr_buf s') = []
    \<and> wr_view s' = wr_view s"
  using assms by (auto simp: FlushWrBuffer_def wr_ok_def content_def wr_view_def sys_write_appends Let_def)

lemma Write_loop_ok:
  assumes "wr_ok s" "length rest + bi_max_len (fs_wr_buf s) < 2 ^ 32"
  shows "\<exists>s'. Write_loop sys_write s rest = Some (True, s') \<and> wr_ok s' \<and> wr_view s' = wr_view s
    \<and> content s' = content s @ encrypt (fs_encryption s) (length (content s)) rest"
  using assms
proof (induction "2 * length rest + (if length (bi_data (fs_wr_buf s)) = bi_max_len (fs_wr_buf s) then 1 else 0)"
    arbitrary: s rest rule: less_induct)
  case less
  let ?b = "fs_wr_buf s" and ?key = "fs_encryption s"
  let ?len = "length (bi_data ?b)" and ?max = "bi_max_len ?b"
  let ?n = "?max - ?len"
  have pos: "length (content s) = bi_pos ?b + ?len" using less.prems(1) by (simp add: wr_ok_def content_def)
  have wrap: "(?len + length rest) mod 2 ^ 32 = ?len + length rest" using less.prems by (simp add: wr_ok_def)
  consider "rest = []" | "rest \<noteq> []" "?len + length rest \<le> ?max" | "rest \<noteq> []" "?max < ?len + length rest" by linarith
  then show ?case
  proof cases
    case 1
    then show ?thesis using less.prems(1) by (subst Write_loop.simps) simp
  next
    case 2
    let ?s = "s\<lparr>fs_wr_buf := ?b\<lparr>bi_data := bi_data ?b @ encrypt ?key (bi_pos ?b + ?len) rest\<rparr>\<rparr>"
    have "Write_loop sys_write s rest = Some (True, ?s)" using 2 wrap by (subst Write_loop.simps) (simp add: Let_def)
    then show ?thesis using 2 less.prems(1) pos by (auto simp: wr_ok_def wr_view_def content_def)
  next
    case 3
    let ?s = "s\<lparr>fs_wr_buf := ?b\<lparr>bi_data := bi_data ?b @ encrypt ?key (bi_pos ?b + ?len) (take ?n rest)\<rparr>\<rparr>"
    have "wr_ok ?s" using 3 less.prems(1) by (auto simp: wr_ok_def)
    then obtain s1 where s1: "FlushWrBuffer sys_write ?s = (True, s1)" "wr_ok s1" "fs_file s1 = content ?s"
      "bi_data (fs_wr_buf s1) = []" "wr_view s1 = wr_view ?s" using Flush_ok by blast
    have view: "fs_encryption s1 = ?key" "bi_max_len (fs_wr_buf s1) = ?max" "wr_view s1 = wr_view s"
      using s1(5) by (simp_all add: wr_view_def)
    have cont: "content s1 = content s @ encrypt ?key (length (content s)) (take ?n rest)"
      using s1(3,4) pos by (simp add: content_def)
    have step: "Write_loop sys_write s rest = Write_loop sys_write s1 (drop ?n rest)"
      using 3 wrap s1(1) by (subst Write_loop.simps) (simp add: Let_def)
    have "2 * length (drop ?n rest) + (if length (bi_data (fs_wr_buf s1)) = bi_max_len (fs_wr_buf s1) then 1 else 0)
        < 2 * length rest + (if ?len = ?max then 1 else 0)"
      using less.prems(1) 3 s1(4) view(2) by (auto simp: wr_ok_def)
    moreover have "length (drop ?n rest) + bi_max_len (fs_wr_buf s1) < 2 ^ 32" using less.prems(2) view(2) by simp
    ultimately obtain s' where
      s': "Write_loop sys_write s1 (drop ?n rest) = Some (True, s')" "wr_ok s'" "wr_view s' = wr_view s1"
      "content s' = content s1 @ encrypt ?key (length (content s1)) (drop ?n rest)"
      using less.hyps [OF _ s1(2)] view(1) by metis
    have "content s' = content s @ encrypt ?key (length (content s)) (take ?n rest @ drop ?n rest)"
      unfolding s'(4) cont with_key_append by simp
    then show ?thesis using step s' view(3) by auto
  qed
qed

lemma Write_ok:
  assumes "wr_ok s" "length bs + bi_max_len (fs_wr_buf s) < 2 ^ 32"
  shows "\<exists>s'. FS_Write sys_write s bs = Some (True, s') \<and> wr_ok s' \<and> wr_view s' = wr_view s
    \<and> content s' = content s @ encrypt (fs_encryption s) (length (content s)) bs"
proof (cases "bs = []")
  case True
  then show ?thesis using assms(1) by (auto simp: FS_Write_def wr_ok_def)
next
  case False
  obtain s' where s': "Write_loop sys_write s bs = Some (True, s')" "wr_ok s'" "wr_view s' = wr_view s"
    "content s' = content s @ encrypt (fs_encryption s) (length (content s)) bs"
    using Write_loop_ok [OF assms] by blast
  let ?s = "s'\<lparr>fs_file_size := max (fs_file_size s') (bi_pos (fs_wr_buf s') + length (bi_data (fs_wr_buf s')))\<rparr>"
  have "FS_Write sys_write s bs = Some (True, ?s)"
    using s'(1) assms False by (simp add: FS_Write_def wr_ok_def)
  moreover have "wr_ok ?s" "wr_view ?s = wr_view s" "content ?s = content s'"
    using s'(2,3) by (simp_all add: wr_ok_def wr_view_def content_def)
  ultimately show ?thesis using s'(4) by (intro exI [of _ ?s]) simp
qed

end

section \<open>The stream against the file\<close>

text \<open>
  C34. The buffer is invisible: whatever its size and state, and whether the system call reads whole
  buffers or less, \<open>Read\<close> delivers the next bytes of the file (decrypted), succeeds exactly when
  enough are left, reports their number and moves the read position behind them, as long as the
  size and the buffer together stay below 2^32.
\<close>

theorem FS_Read_exact:
  assumes "regular_file sys_read" "rd_ok s" "sz + bi_max_len (fs_rd_buf s) < 2 ^ 32"
  shows "\<exists>s'. FS_Read sys_read s sz =
      Some (sz \<le> length (rest_of s), decrypt (fs_encryption s) (fs_offset_rd s) (take sz (rest_of s)), s')
    \<and> rd_ok s' \<and> rd_view s' = rd_view s \<and> fs_offset_rd s' = fs_offset_rd s + min sz (length (rest_of s))
    \<and> fs_rd_count s' = min sz (length (rest_of s))"
  by (rule regular_file.Read_ok [OF assms])

definition three_byte_stream :: FileStream where
  "three_byte_stream = snd (Open_read (SetRdBufferSize new_FileStream 2) (Some ''abc''))"

lemma three_byte_stream_ok: "rd_ok three_byte_stream" "rest_of three_byte_stream = ''abc''"
    "bi_max_len (fs_rd_buf three_byte_stream) = 2" "fs_encryption three_byte_stream = []"
  by (simp_all add: three_byte_stream_def Open_read_def SetRdBufferSize_def new_FileStream_def ReinitBuffer_def
      BufInfo_Clear_def DEFAULT_BUF_SIZE_def rd_ok_def)

theorem FS_Read_exact_witness: "\<exists>s'. FS_Read full_read three_byte_stream 3 = Some (True, ''abc'', s')"
proof -
  have "3 + bi_max_len (fs_rd_buf three_byte_stream) < 2 ^ 32" using three_byte_stream_ok(3) by simp
  from FS_Read_exact [OF full.regular_file_axioms three_byte_stream_ok(1) this] show ?thesis
    unfolding three_byte_stream_ok(2,4) by (auto simp: with_key_def)
qed

text \<open>
  C35. \<open>GetLine\<close> over the buffer is the next line of the rest of the file, for every delimiter: the
  text up to the delimiter (without a carriage return before a newline) and the read position behind
  it; the last line may lack the delimiter, and at the end of the file there is no line.
\<close>

theorem GetLine_next:
  assumes "regular_file sys_read" "rd_ok s"
  shows "\<exists>ok line n s'. next_line delim (rest_of s) = (ok, line, n) \<and> GetLine sys_read s delim = Some (ok, line, s')
    \<and> rd_ok s' \<and> rd_view s' = rd_view s \<and> fs_offset_rd s' = fs_offset_rd s + n"
  by (rule regular_file.GetLine_ok [OF assms])

theorem GetLine_next_witness: "\<exists>s'. GetLine full_read three_byte_stream CHR ''b'' = Some (True, ''a'', s')"
  using GetLine_next [OF full.regular_file_axioms three_byte_stream_ok(1), of "CHR ''b''"]
  unfolding three_byte_stream_ok(2) by (auto simp: next_line_def strip_cr_def)

text \<open>
  A read of exactly 2^32 bytes reports success and delivers nothing, because the size is
  converted to 32 bits.
\<close>

lemma FS_Read_four_gib:
  assumes "regular_file sys_read" "rd_ok s" "rest_of s \<noteq> []"
  shows "\<exists>s'. FS_Read sys_read s (2 ^ 32) = Some (True, [], s')"
proof -
  obtain s1 where s1: "SyncRdBuffer sys_read s = (True, s1)" "at_cursor s1"
    using regular_file.SyncRdBuffer_ok [OF assms(1,2)] assms(3) by metis
  then have "bi_data (fs_rd_buf s1) \<noteq> []" by (auto simp: at_cursor_def)
  moreover have "Read_loop sys_read s1 (2 ^ 32) 0 [] = Some (True, [], s1)"
    by (subst Read_loop.simps) (simp add: Let_def)
  ultimately show ?thesis using s1(1) assms(2) by (simp add: FS_Read_def rd_ok_def)
qed

lemma FS_Read_four_gib_witness: "\<exists>s'. FS_Read full_read three_byte_stream (2 ^ 32) = Some (True, [], s')"
  by (rule FS_Read_four_gib [OF full.regular_file_axioms three_byte_stream_ok(1)]) (simp add: three_byte_stream_ok(2))

section \<open>Written files read back\<close>

text \<open>A sequence of writes; \<open>None\<close> when one of them fails.\<close>

primrec write_all :: "sys_write \<Rightarrow> FileStream \<Rightarrow> string list \<Rightarrow> FileStream option" where
  "write_all sys_write s [] = Some s"
| "write_all sys_write s (c # cs) =
     (case FS_Write sys_write s c of Some (True, s') \<Rightarrow> write_all sys_write s' cs | _ \<Rightarrow> None)"

lemma write_all_ok:
  assumes "writable_file sys_write" "wr_ok s" "\<forall>c \<in> set cs. length c + bi_max_len (fs_wr_buf s) < 2 ^ 32"
  shows "\<exists>s'. write_all sys_write s cs = Some s' \<and> wr_ok s'
    \<and> content s' = content s @ encrypt (fs_encryption s) (length (content s)) (concat cs)"
  using assms(2,3)
proof (induction cs arbitrary: s)
  case (Cons c cs)
  obtain s1 where s1: "FS_Write sys_write s c = Some (True, s1)" "wr_ok s1" "wr_view s1 = wr_view s"
    "content s1 = content s @ encrypt (fs_encryption s) (length (content s)) c"
    using writable_file.Write_ok [OF assms(1) Cons.prems(1)] Cons.prems(2) by auto
  have view: "fs_encryption s1 = fs_encryption s" "bi_max_len (fs_wr_buf s1) = bi_max_len (fs_wr_buf s)"
    using s1(3) by (simp_all add: wr_view_def)
  obtain s' where "write_all sys_write s1 cs = Some s'" "wr_ok s'"
    "content s' = content s1 @ encrypt (fs_encryption s) (length (content s1)) (concat cs)"
    using Cons.IH [OF s1(2)] Cons.prems(2) view by auto
  then show ?case using s1(1,4) by (simp add: with_key_append)
qed simp

definition written_file :: "sys_write \<Rightarrow> string \<Rightarrow> string option \<Rightarrow> string list \<Rightarrow> string option" where
  "written_file sys_write key old chunks =
     map_option (\<lambda>s. fs_file (snd (Close sys_write s)))
       (write_all sys_write (snd (OpenForWrite (SetEncryptionString new_FileStream key) old True)) chunks)"

text \<open>
  C36. What is written reads back: any sequence of writes to a file that is created or overwritten,
  closed and opened again with the same encryption string, yields exactly the written bytes in one
  read, for any chunks below 2^32 bytes with the buffer and a regular file, on which every write call
  writes all its bytes.
\<close>

theorem write_read_roundtrip:
  assumes "regular_file sys_read" "writable_file sys_write" "length (concat chunks) + DEFAULT_BUF_SIZE < 2 ^ 32"
  shows "\<exists>file s'. written_file sys_write key old chunks = Some file
    \<and> FS_Read sys_read (snd (Open_read (SetEncryptionString new_FileStream key) (Some file))) (length (concat chunks))
        = Some (True, concat chunks, s')"
proof -
  let ?w = "snd (OpenForWrite (SetEncryptionString new_FileStream key) old True)"
  have w: "wr_ok ?w" "content ?w = []" "fs_encryption ?w = key" "bi_max_len (fs_wr_buf ?w) = DEFAULT_BUF_SIZE"
    by (simp_all add: OpenForWrite_def SetEncryptionString_def new_FileStream_def ReinitBuffer_def BufInfo_Clear_def
        DEFAULT_BUF_SIZE_def wr_ok_def content_def split: option.split)
  have "\<forall>c \<in> set chunks. length c + bi_max_len (fs_wr_buf ?w) < 2 ^ 32"
  proof
    fix c assume "c \<in> set chunks"
    then have "length c \<le> length (concat chunks)" by (induction chunks) auto
    then show "length c + bi_max_len (fs_wr_buf ?w) < 2 ^ 32" using assms(3) w(4) by linarith
  qed
  then obtain s where s: "write_all sys_write ?w chunks = Some s" "wr_ok s" "content s = encrypt key 0 (concat chunks)"
    using write_all_ok [OF assms(2) w(1), of chunks] w(2,3) by auto
  obtain s1 where "FlushWrBuffer sys_write s = (True, s1)" "fs_file s1 = content s"
    using writable_file.Flush_ok [OF assms(2) s(2)] by blast
  then have written: "written_file sys_write key old chunks = Some (encrypt key 0 (concat chunks))"
    using s by (simp add: written_file_def Close_def wr_ok_def)
  let ?r = "snd (Open_read (SetEncryptionString new_FileStream key) (Some (encrypt key 0 (concat chunks))))"
  have r: "rd_ok ?r" "rest_of ?r = encrypt key 0 (concat chunks)" "fs_encryption ?r = key" "fs_offset_rd ?r = 0"
    "bi_max_len (fs_rd_buf ?r) = DEFAULT_BUF_SIZE"
    by (simp_all add: Open_read_def SetEncryptionString_def new_FileStream_def ReinitBuffer_def BufInfo_Clear_def
        DEFAULT_BUF_SIZE_def rd_ok_def)
  have "\<exists>s'. FS_Read sys_read ?r (length (concat chunks)) = Some (True, concat chunks, s')"
    using regular_file.Read_ok [OF assms(1) r(1), of "length (concat chunks)"] assms(3) r(2-5) by auto
  then show ?thesis using written by blast
qed

theorem write_read_roundtrip_witness:
  "\<exists>file s'. written_file full_write ''key'' (Some ''old'') [''ab'', ''c''] = Some file
    \<and> FS_Read full_read (snd (Open_read (SetEncryptionString new_FileStream ''key'') (Some file))) 3 = Some (True, ''abc'', s')"
  using write_read_roundtrip [OF full.regular_file_axioms full_w.writable_file_axioms, of "[''ab'', ''c'']" "''key''" "Some ''old''"]
  by (simp add: DEFAULT_BUF_SIZE_def numeral_3_eq_3)

end
