(* ===== verification/ByteStream.thy ===== *)
theory ByteStream
  imports FileStream "HOL-Library.Monad_Syntax"
begin

text \<open>
  Typed reads from a binary stream (src/3rd_party/sslib/binary_stream.h). The members of the
  interface \<open>IBinaryStream\<close> that readers of file formats call are \<open>Read(buf, size)\<close>, an argument
  \<open>rd\<close> of the definitions, and \<open>TellRd\<close>. A read yields the returned flag, the bytes stored in the
  buffer and the stream; the bytes of the buffer behind them keep their value. Numbers are stored
  with the least significant byte first, as on the platforms the program supports.

  The locale \<open>byte_stream\<close> is what the readers rely on; file streams provide it.
\<close>

type_synonym 's reader = "'s \<Rightarrow> nat \<Rightarrow> (bool \<times> string \<times> 's) option"

section \<open>Numbers as bytes\<close>

primrec le_nat :: "string \<Rightarrow> nat" where
  "le_nat [] = 0"
| "le_nat (b # bs) = of_char b + 256 * le_nat bs"

primrec bytes_le :: "nat \<Rightarrow> nat \<Rightarrow> string" where
  "bytes_le 0 k = []"
| "bytes_le (Suc n) k = char_of k # bytes_le n (k div 256)"

lemma length_bytes_le [simp]: "length (bytes_le n k) = n"
  by (induction n arbitrary: k) auto

lemma le_nat_bytes_le [byte_simps]: "le_nat (bytes_le n k) = k mod 256 ^ n"
proof (induction n arbitrary: k)
  case (Suc n)
  have "le_nat (bytes_le (Suc n) k) = k mod 256 + 256 * (k div 256 mod 256 ^ n)"
    using Suc by simp
  also have "\<dots> = k mod (256 * 256 ^ n)" by (simp add: mod_mult2_eq)
  finally show ?case by simp
qed simp

lemma le_nat_less: "le_nat bs < 256 ^ length bs"
proof (induction bs)
  case (Cons b bs)
  have "of_char b < (256::nat)" by simp
  moreover have "le_nat bs + 1 \<le> 256 ^ length bs" using Cons by simp
  then have "256 * le_nat bs + 256 \<le> 256 * 256 ^ length bs" by linarith
  ultimately show ?case unfolding le_nat.simps length_Cons power_Suc by linarith
qed simp

lemma bytes_le_le_nat: "bytes_le (length bs) (le_nat bs) = bs"
proof (induction bs)
  case (Cons b bs)
  have "char_of (of_char b + 256 * le_nat bs) = b"
    by (metis char_of_mod_256 char_of_char mod_mult_self2)
  moreover have "(of_char b + 256 * le_nat bs) div 256 = le_nat bs" by simp
  ultimately show ?case using Cons by simp
qed simp

section \<open>Typed reads\<close>

text \<open>
  \<open>Read(T &data)\<close> for an integer of \<open>n\<close> bytes whose value before the read is \<open>old\<close>: a read that
  fails may have replaced the first bytes.
\<close>

definition Read_le :: "'s reader \<Rightarrow> nat \<Rightarrow> nat \<Rightarrow> 's \<Rightarrow> (bool \<times> nat \<times> 's) option" where
  "Read_le rd n old s =
     do { (ret, got, s') \<leftarrow> rd s n;
          Some (ret, le_nat (got @ drop (length got) (bytes_le n old)), s') }"

text \<open>Conversions to the signed types \<open>int\<close> and \<open>int64_t\<close>.\<close>

definition to_i32 :: "nat \<Rightarrow> int" where
  "to_i32 n = sint (of_nat n :: u32)"

lemma to_i32_small [simp]: "n < 2 ^ 31 \<Longrightarrow> to_i32 n = int n"
proof -
  assume n: "n < 2 ^ 31"
  have "sint (word_of_int (int n) :: u32) = signed_take_bit 31 (int n)"
    using sint_sbintrunc' [of "int n", where 'a = 32] by simp
  also have "\<dots> = int n"
    using n by (intro signed_take_bit_int_eq_self) auto
  finally show ?thesis by (simp add: to_i32_def)
qed

section \<open>What a stream provides\<close>

locale byte_stream =
  fixes rd :: "'s reader" and ok :: "'s \<Rightarrow> bool" and rest :: "'s \<Rightarrow> string" and tell :: "'s \<Rightarrow> nat"
  assumes rd_bytes: "ok s \<Longrightarrow> n < 2 ^ 31 \<Longrightarrow>
    \<exists>s'. rd s n = Some (n \<le> length (rest s), take n (rest s), s') \<and> ok s' \<and> rest s' = drop n (rest s)
      \<and> tell s' = tell s + min n (length (rest s))"
begin

text \<open>
  \<open>parses p xs v\<close>: on a stream that continues with the bytes \<open>xs\<close> the operation \<open>p\<close> succeeds with
  the value \<open>v\<close> and consumes exactly these bytes.
\<close>

definition parses :: "('s \<Rightarrow> (bool \<times> 'v \<times> 's) option) \<Rightarrow> string \<Rightarrow> 'v \<Rightarrow> bool" where
  "parses p xs v \<longleftrightarrow> (\<forall>s tail. ok s \<and> rest s = xs @ tail \<longrightarrow>
     (\<exists>s'. p s = Some (True, v, s') \<and> ok s' \<and> rest s' = tail \<and> tell s' = tell s + length xs))"

lemma parsesE:
  assumes "parses p xs v" "ok s" "rest s = xs @ tail"
  obtains s' where "p s = Some (True, v, s')" "ok s'" "rest s' = tail" "tell s' = tell s + length xs"
  using assms unfolding parses_def by blast

lemma parses_rd: "length xs < 2 ^ 31 \<Longrightarrow> parses (\<lambda>s. rd s (length xs)) xs xs"
  unfolding parses_def
proof (intro allI impI, elim conjE)
  fix s tail
  assume "length xs < 2 ^ 31" "ok s" "rest s = xs @ tail"
  then show "\<exists>s'. rd s (length xs) = Some (True, xs, s') \<and> ok s' \<and> rest s' = tail \<and> tell s' = tell s + length xs"
    using rd_bytes [of s "length xs"] by auto
qed

lemma parses_le:
  assumes "n < 2 ^ 31" "k < 256 ^ n"
  shows "parses (Read_le rd n old) (bytes_le n k) k"
  unfolding parses_def
proof (intro allI impI, elim conjE)
  fix s tail
  assume "ok s" "rest s = bytes_le n k @ tail"
  then obtain s' where "rd s n = Some (True, bytes_le n k, s')" "ok s'" "rest s' = tail" "tell s' = tell s + n"
    using parsesE [OF parses_rd [of "bytes_le n k"]] assms(1) by auto
  then show "\<exists>s'. Read_le rd n old s = Some (True, k, s') \<and> ok s' \<and> rest s' = tail
      \<and> tell s' = tell s + length (bytes_le n k)"
    using assms(2) by (simp add: Read_le_def byte_simps)
qed

lemma parsesI:
  assumes "\<And>s tail. ok s \<Longrightarrow> rest s = xs @ tail \<Longrightarrow>
    \<exists>s'. p s = Some (True, v, s') \<and> ok s' \<and> rest s' = tail \<and> tell s' = tell s + length xs"
  shows "parses p xs v"
  using assms unfolding parses_def by blast

text \<open>Sequencing: the first part succeeds, so the second part is read behind it.\<close>

lemma parses_return: "parses (\<lambda>s. Some (True, v, s)) [] v"
  by (rule parsesI) simp

lemma parses_bind:
  assumes "parses p xs v" "parses (q True v) ys w"
  shows "parses (\<lambda>s. do { (ret, v, s) \<leftarrow> p s; q ret v s }) (xs @ ys) w"
proof (rule parsesI)
  fix s tail
  assume s: "ok s" "rest s = (xs @ ys) @ tail"
  obtain s1 where s1: "p s = Some (True, v, s1)" "ok s1" "rest s1 = ys @ tail" "tell s1 = tell s + length xs"
    by (rule parsesE [OF assms(1) s(1), of "ys @ tail"]) (use s(2) in auto)
  obtain s2 where "q True v s1 = Some (True, w, s2)" "ok s2" "rest s2 = tail" "tell s2 = tell s1 + length ys"
    by (rule parsesE [OF assms(2) s1(2,3)])
  then show "\<exists>s'. (do { (ret, v, s) \<leftarrow> p s; q ret v s }) = Some (True, w, s') \<and> ok s' \<and> rest s' = tail
      \<and> tell s' = tell s + length (xs @ ys)"
    using s1 by simp
qed

text \<open>A read whose value is only converted.\<close>

lemma parses_map:
  assumes "parses p xs v"
  shows "parses (\<lambda>s. do { (ret, v, s) \<leftarrow> p s; Some (ret, f ret v, s) }) xs (f True v)"
  using parses_bind [OF assms, where q = "\<lambda>ret v s. Some (ret, f ret v, s)", OF parses_return] by simp

lemma parses_map_any:
  assumes "parses p xs v"
  shows "parses (\<lambda>s. do { (_, v, s) \<leftarrow> p s; Some (True, f v, s) }) xs (f v)"
  using parses_bind [OF assms, where q = "\<lambda>_ v s. Some (True, f v, s)", OF parses_return] by simp

text \<open>At the end of the stream a typed read fails.\<close>

lemma Read_le_short:
  assumes "ok s" "length (rest s) < n" "n < 2 ^ 31"
  shows "\<exists>v s'. Read_le rd n old s = Some (False, v, s') \<and> ok s' \<and> rest s' = []"
  using rd_bytes [OF assms(1,3)] assms(2) by (auto simp: Read_le_def)

end

section \<open>File streams\<close>

definition plain_stream :: "FileStream \<Rightarrow> bool" where
  "plain_stream s \<longleftrightarrow> rd_ok s \<and> fs_encryption s = [] \<and> bi_max_len (fs_rd_buf s) \<le> 2 ^ 28
     \<and> fs_file_size s = length (fs_file s) \<and> fs_offset_rd s \<le> length (fs_file s) \<and> \<not> fs_has_error s"

sublocale regular_file \<subseteq> fstream: byte_stream "FS_Read sys_read" plain_stream "\<lambda>s. drop (fs_offset_rd s) (fs_file s)" TellRd
proof
  fix s n
  assume "plain_stream s" and n: "n < (2::nat) ^ 31"
  then have s: "rd_ok s" "fs_encryption s = []" "bi_max_len (fs_rd_buf s) \<le> 2 ^ 28"
    "fs_file_size s = length (fs_file s)" "fs_offset_rd s \<le> length (fs_file s)" "\<not> fs_has_error s" by (auto simp: plain_stream_def)
  then have "n + bi_max_len (fs_rd_buf s) < 2 ^ 32" using n by simp
  then obtain s' where s': "FS_Read sys_read s n = Some (n \<le> length (rest_of s), take n (rest_of s), s')" "rd_ok s'"
    "rd_view s' = rd_view s" "fs_offset_rd s' = fs_offset_rd s + min n (length (rest_of s))"
    using Read_ok [OF s(1), of n] s(2) by (auto simp: with_key_def)
  have "drop (fs_offset_rd s + min n (length (rest_of s))) (fs_file s) = drop n (rest_of s)"
    by (simp add: min_def add.commute)
  then show "\<exists>s'. FS_Read sys_read s n = Some (n \<le> length (rest_of s), take n (rest_of s), s') \<and> plain_stream s'
      \<and> rest_of s' = drop n (rest_of s) \<and> TellRd s' = TellRd s + min n (length (rest_of s))"
    using s s' by (auto simp: plain_stream_def rd_view_def TellRd_def)
qed

lemma SeekRd_plain:
  assumes "plain_stream s" "p \<le> length (fs_file s)"
  shows "SeekRd s p SEEK_WAY_ABS = (True, s\<lparr>fs_offset_rd := p\<rparr>)" "plain_stream (s\<lparr>fs_offset_rd := p\<rparr>)"
  using assms by (auto simp: SeekRd_def plain_stream_def rd_ok_def)

lemma Open_read_plain:
  "\<exists>s. Open_read new_FileStream (Some file) = (True, s) \<and> plain_stream s \<and> fs_file s = file \<and> fs_offset_rd s = 0"
  by (simp add: Open_read_def new_FileStream_def ReinitBuffer_def BufInfo_Clear_def DEFAULT_BUF_SIZE_def
      plain_stream_def rd_ok_def)

context regular_file
begin

text \<open>A read keeps the file; reading ahead and seeking back leaves the stream at its place.\<close>

lemma FS_Read_plain:
  assumes "plain_stream s" "n < 2 ^ 31"
  shows "\<exists>s'. FS_Read sys_read s n = Some (n \<le> length (rest_of s), take n (rest_of s), s') \<and> plain_stream s'
    \<and> fs_file s' = fs_file s \<and> fs_offset_rd s' = fs_offset_rd s + min n (length (rest_of s))"
proof -
  obtain s' where s': "FS_Read sys_read s n = Some (n \<le> length (rest_of s), take n (rest_of s), s')" "plain_stream s'"
      "TellRd s' = TellRd s + min n (length (rest_of s))"
    using fstream.rd_bytes [OF assms] by blast
  have "rd_ok s" "n + bi_max_len (fs_rd_buf s) < 2 ^ 32" using assms by (simp_all add: plain_stream_def)
  then have "rd_view s' = rd_view s" using Read_ok [of s n] s'(1) by auto
  then show ?thesis using s' by (auto simp: TellRd_def rd_view_def)
qed

lemma read_ahead:
  assumes "plain_stream s" "n < 2 ^ 31"
  obtains s' s'' where "FS_Read sys_read s n = Some (n \<le> length (rest_of s), take n (rest_of s), s')"
    "SeekRd s' (TellRd s) SEEK_WAY_ABS = (True, s'')" "plain_stream s''" "fs_file s'' = fs_file s" "fs_offset_rd s'' = fs_offset_rd s"
proof -
  obtain s' where s': "FS_Read sys_read s n = Some (n \<le> length (rest_of s), take n (rest_of s), s')" "plain_stream s'"
      "fs_file s' = fs_file s"
    using FS_Read_plain [OF assms] by blast
  have "TellRd s \<le> length (fs_file s')" using assms(1) s'(3) by (simp add: plain_stream_def TellRd_def)
  then show ?thesis
    using that [OF s'(1)] SeekRd_plain [OF s'(2)] s'(3) by (simp add: TellRd_def)
qed

text \<open>A file that does not start with a byte order mark is opened at its first byte.\<close>

lemma OpenForRead_plain:
  assumes "file = b # bs" "b \<notin> {CHR 0xFE, CHR 0xFF, CHR 0xEF}"
  shows "\<exists>s. OpenForRead sys_read new_FileStream (Some file) True = Some (True, s) \<and> plain_stream s
    \<and> fs_file s = file \<and> fs_offset_rd s = 0"
proof -
  obtain s where s: "Open_read new_FileStream (Some file) = (True, s)" "plain_stream s" "fs_file s = file" "fs_offset_rd s = 0"
    using Open_read_plain by blast
  let ?n = "if length file \<ge> 3 then 3 else 2 :: nat"
  show ?thesis
  proof (cases "length file \<le> 1")
    case True
    then show ?thesis using s by (simp add: OpenForRead_def SkipUnicodeBOM_def plain_stream_def)
  next
    case False
    then have n: "?n \<le> length file" "?n < 2 ^ 31" by auto
    obtain s1 where s1: "FS_Read sys_read s ?n = Some (True, take ?n file, s1)" "plain_stream s1"
        "fs_file s1 = fs_file s"
      using fstream.rd_bytes [OF s(2) n(2)] regular_file.Read_ok [OF regular_file_axioms, of s ?n] n s(2-4)
      by (auto simp: plain_stream_def rd_view_def)
    have "take 2 (take ?n file) = b # take 1 bs" "take ?n file = b # take (?n - 1) bs"
      using assms(1) by (auto simp: take_Cons')
    then have "SkipUnicodeBOM sys_read s = Some (True, s1\<lparr>fs_offset_rd := 0\<rparr>)"
      using False s s1 assms(2) SeekRd_plain [OF s1(2), of 0] unfolding SkipUnicodeBOM_def
      by (auto simp: plain_stream_def split: if_splits)
    then show ?thesis using s s1 SeekRd_plain [OF s1(2), of 0] by (simp add: OpenForRead_def)
  qed
qed

end

end
