(* ===== verification/HostTensor.thy ===== *)
theory HostTensor
  imports ByteStream TensorCommon
begin

text \<open>
  Tensors in host memory (src/src/tensor/host_tensor.h and .cc) and how a model reader fills one
  (\<open>ReadTensor\<close> of src/src/transformer/model_reader.cc). The data of a tensor are its bytes, \<open>None\<close>
  for the null pointer. \<open>fresh n\<close> is the content of a new array of \<open>n\<close> bytes. \<open>None\<close> as a result
  stands for an overflow of signed arithmetic or a write behind the data.
\<close>

record HostTensor =
  ht_size :: u64
  ht_data :: "string option"
  ht_data_type :: ElementType
  ht_dim :: int
  ht_ne :: "int list"
  ht_bytes_per_row :: u64

definition new_HostTensor :: HostTensor where
  "new_HostTensor = \<lparr>ht_size = 0, ht_data = None, ht_data_type = ET_F32, ht_dim = 0, ht_ne = [0, 0, 0],
     ht_bytes_per_row = 0\<rparr>"

definition HT_Clear :: "HostTensor \<Rightarrow> HostTensor" where
  "HT_Clear t = t\<lparr>ht_data := None, ht_size := 0, ht_dim := 0, ht_ne := [0, 0, 0], ht_bytes_per_row := 0\<rparr>"

text \<open>A product of type \<open>int\<close>.\<close>

definition int_mult :: "int \<Rightarrow> int \<Rightarrow> int option" where
  "int_mult a b = (if - (2 ^ 31) \<le> a * b \<and> a * b < 2 ^ 31 then Some (a * b) else None)"

definition SetStructure :: "HostTensor \<Rightarrow> int \<Rightarrow> int \<Rightarrow> int \<Rightarrow> (bool \<times> HostTensor) option" where
  "SetStructure t n0 n1 n2 =
     (if n0 \<le> 0 \<or> n1 < 0 \<or> n2 < 0 then Some (False, t)
      else do { xy \<leftarrow> int_mult n0 (max 1 n1);
        sz \<leftarrow> int_mult xy (max 1 n2);
        Some (True, t\<lparr>ht_dim := (if n1 = 0 then 1 else if n2 = 0 then 2 else 3),
          ht_ne := [n0, max 1 n1, max 1 n2], ht_bytes_per_row := ByteCount (ht_data_type t) (of_int n0),
          ht_size := of_int sz\<rparr>) })"

definition HT_New :: "(nat \<Rightarrow> string) \<Rightarrow> HostTensor \<Rightarrow> ElementType \<Rightarrow> int \<Rightarrow> int \<Rightarrow> int \<Rightarrow> (bool \<times> HostTensor) option" where
  "HT_New fresh t etype n0 n1 n2 =
     do { (ret, t) \<leftarrow> SetStructure ((HT_Clear t)\<lparr>ht_data_type := etype\<rparr>) n0 n1 n2;
          if \<not> ret then Some (False, t)
          else let bytes = ht_bytes_per_row t * of_int (ht_ne t ! 1) * of_int (ht_ne t ! 2)
               in Some (True, t\<lparr>ht_data := Some (fresh (unat bytes))\<rparr>) }"

text \<open>
  The result of \<open>New\<close> is not tested: reading to a null pointer fails. The byte count is converted to
  \<open>int\<close> and then to \<open>size_t\<close>.
\<close>

definition ReadTensor :: "'s reader \<Rightarrow> (nat \<Rightarrow> string) \<Rightarrow> ElementType \<Rightarrow> int \<Rightarrow> int \<Rightarrow> 's
    \<Rightarrow> (bool \<times> HostTensor \<times> 's) option" where
  "ReadTensor rd fresh data_type cx cy s =
     do { (_, t) \<leftarrow> HT_New fresh new_HostTensor data_type cx cy 0;
          element_num \<leftarrow> (if cy < 1 then Some cx else int_mult cx cy);
          let byte_num = to_i32 (unat (ByteCount data_type (of_int element_num)));
          case ht_data t of
            None \<Rightarrow> Some (False, t, s)
          | Some d \<Rightarrow> do { (ret, got, s) \<leftarrow> rd s (unat (of_int byte_num :: u64));
              if length got > length d then None
              else Some (ret, t\<lparr>ht_data := Some (got @ drop (length got) d)\<rparr>, s) } }"

section \<open>Reading a tensor\<close>

text \<open>The bytes of all elements fit into the rows, which are rounded up to whole blocks one by one.\<close>

definition byte_num :: "ElementType \<Rightarrow> nat \<Rightarrow> nat" where
  "byte_num etype n = (n + (BlockCapacity etype - 1)) div BlockCapacity etype * BlockSize etype"

lemma ceil_div_mult_le:
  assumes "0 < (c::nat)"
  shows "(m * n + (c - 1)) div c \<le> m * ((n + (c - 1)) div c)"
proof -
  define q where "q = (n + (c - 1)) div c"
  have "n \<le> q * c"
    using assms div_mult_mod_eq [of "n + (c - 1)" c] mod_less_divisor [OF assms, of "n + (c - 1)"]
    unfolding q_def by linarith
  then have "m * n \<le> m * q * c" using mult_le_mono2 [of n "q * c" m] by (simp add: ac_simps)
  then have "m * n + (c - 1) < Suc (m * q) * c" using assms unfolding mult_Suc by linarith
  then have "(m * n + (c - 1)) div c < Suc (m * q)" by (rule less_mult_imp_div_less)
  then show ?thesis by (simp add: q_def)
qed

lemma byte_num_rows: "byte_num etype (m * n) \<le> m * byte_num etype n"
  using ceil_div_mult_le [OF BlockCapacity_bounds(1), of m n etype] by (simp add: byte_num_def mult.assoc [symmetric])

lemma byte_num_le: "byte_num etype n \<le> 52 * n"
proof -
  have "(n + (BlockCapacity etype - 1)) div BlockCapacity etype * BlockSize etype \<le> n * 52"
    using ceil_div_upper [of "BlockCapacity etype" n] BlockCapacity_bounds [of etype] BlockSize_bounds [of etype]
    by (intro mult_mono) auto
  then show ?thesis by (simp add: byte_num_def)
qed

lemma unat_ByteCount: "n < 2 ^ 57 \<Longrightarrow> unat (ByteCount etype (of_nat n)) = byte_num etype n"
  by (simp add: ByteCount_nat byte_num_def)

definition loaded_tensor :: "(nat \<Rightarrow> string) \<Rightarrow> ElementType \<Rightarrow> nat \<Rightarrow> nat \<Rightarrow> string \<Rightarrow> HostTensor" where
  "loaded_tensor fresh etype cx cy d =
     \<lparr>ht_size = of_nat (cx * max 1 cy), ht_data = Some (d @ drop (length d) (fresh (max 1 cy * byte_num etype cx))),
      ht_data_type = etype, ht_dim = (if cy = 0 then 1 else 2), ht_ne = [int cx, int (max 1 cy), 1],
      ht_bytes_per_row = of_nat (byte_num etype cx)\<rparr>"

lemma HT_New_matrix:
  assumes "0 < cx" "cx * max 1 cy < 2 ^ 31"
  shows "HT_New fresh new_HostTensor etype (int cx) (int cy) 0
    = Some (True, (loaded_tensor fresh etype cx cy [])\<lparr>ht_data := Some (fresh (max 1 cy * byte_num etype cx))\<rparr>)"
proof -
  have rows: "max 1 (int cy) = int (max 1 cy)" by simp
  have "cx \<le> cx * max 1 cy" by simp
  then have "cx < 2 ^ 31" using assms(2) by (rule le_less_trans)
  then have cx: "cx < 2 ^ 57" by simp
  have row: "ByteCount etype (of_nat cx) = of_nat (byte_num etype cx)"
    using unat_ByteCount [OF cx, of etype] by (metis of_nat_unat ucast_id)
  have "byte_num etype cx * max 1 cy \<le> 52 * cx * max 1 cy" using byte_num_le by (intro mult_le_mono1)
  also have "\<dots> < 2 ^ 64" using assms(2) by (simp add: mult.assoc)
  finally have "unat (of_nat (byte_num etype cx) * of_nat (max 1 cy) :: u64) = byte_num etype cx * max 1 cy"
    by (subst of_nat_mult [symmetric], subst unat_of_nat) simp
  moreover have "int_mult (int cx) (int (max 1 cy)) = Some (int (cx * max 1 cy))"
    "int_mult (int (cx * max 1 cy)) (max 1 0) = Some (int (cx * max 1 cy))"
    using assms(2) unfolding int_mult_def by (simp_all flip: of_nat_mult del: of_nat_max)
  ultimately show ?thesis using assms(1) row
    unfolding HT_New_def SetStructure_def rows
    by (simp add: HT_Clear_def new_HostTensor_def loaded_tensor_def Let_def ac_simps flip: of_nat_mult del: of_nat_max)
qed

context byte_stream
begin

lemma parses_ReadTensor:
  assumes "0 < cx" "cx * max 1 cy < 2 ^ 31" "length d = byte_num etype (cx * max 1 cy)" "length d < 2 ^ 31"
    and fresh: "\<forall>k. length (fresh k) = k"
  shows "parses (ReadTensor rd fresh etype (int cx) (int cy)) d (loaded_tensor fresh etype cx cy d)"
  unfolding parses_def
proof (intro allI impI, elim conjE)
  fix s tail
  assume "ok s" "rest s = d @ tail"
  then obtain s' where s': "rd s (length d) = Some (True, d, s')" "ok s'" "rest s' = tail" "tell s' = tell s + length d"
    by (rule parsesE [OF parses_rd [OF assms(4)]])
  have elems: "(if int cy < 1 then Some (int cx) else int_mult (int cx) (int cy)) = Some (int (cx * max 1 cy))"
    using assms(2) by (cases "cy = 0") (auto simp: int_mult_def simp flip: of_nat_mult)
  have "unat (ByteCount etype (of_nat (cx * max 1 cy))) = length d"
    using unat_ByteCount [of "cx * max 1 cy" etype] assms(2,3) by simp
  moreover have "unat (of_nat (length d) :: u64) = length d" using assms(4) by (subst unat_of_nat) simp
  ultimately have len: "unat (of_int (to_i32 (unat (ByteCount etype (of_int (int (cx * max 1 cy)))))) :: u64) = length d"
    using assms(4) by (simp del: of_nat_mult)
  have "length d \<le> max 1 cy * byte_num etype cx"
    using byte_num_rows [of etype "max 1 cy" cx] assms(3) by (simp add: mult.commute)
  then have "ReadTensor rd fresh etype (int cx) (int cy) s = Some (True, loaded_tensor fresh etype cx cy d, s')"
    unfolding ReadTensor_def HT_New_matrix [OF assms(1,2)] elems
    using s'(1) len fresh by (simp add: Let_def loaded_tensor_def del: of_nat_mult)
  then show "\<exists>s'. ReadTensor rd fresh etype (int cx) (int cy) s = Some (True, loaded_tensor fresh etype cx cy d, s')
      \<and> ok s' \<and> rest s' = tail \<and> tell s' = tell s + length d"
    using s' by blast
qed

end

end
