(* ===== verification/TokenBytes.thy ===== *)
theory TokenBytes
  imports Utf8
begin

text \<open>
  The byte-level alphabet of token strings (src/src/transformer/model_reader.cc,
  \<open>InitTokenByteMap\<close> and \<open>DecodeTokenStr\<close>): vocabularies of this kind write every byte as one
  printable character, and the reader maps the characters back.
\<close>

text \<open>The assignments to \<open>token_char_to_byte_map_\<close>, in the order of the code.\<close>

definition token_byte_assignments :: "(nat \<times> nat) list" where
  "token_byte_assignments =
     map (\<lambda>cid. (cid, cid)) [0x21..<0x7F]
     @ [(0x143, 0xAD)]
     @ map (\<lambda>cid. (cid, cid)) (filter (\<lambda>cid. cid \<noteq> 0xAD) [0xA1..<0x100])
     @ map (\<lambda>cid. (cid, cid AND 0xFF)) [0x100..<0x121]
     @ map (\<lambda>cid. (cid, cid - 0xA2)) [0x121..<0x143]"

definition InitTokenByteMap :: "(nat, nat) omap" where
  "InitTokenByteMap = fold (\<lambda>(cid, b) m. omap_put cid b m) token_byte_assignments []"

text \<open>The flag, and the target, which holds what was decoded before a character without a byte.\<close>

fun DecodeTokenStr_loop :: "wstr \<Rightarrow> string \<Rightarrow> bool \<times> string" where
  "DecodeTokenStr_loop [] target = (True, target)"
| "DecodeTokenStr_loop (ch # src) target =
     (case omap_find InitTokenByteMap ch of
        None \<Rightarrow> (False, target)
      | Some b \<Rightarrow> DecodeTokenStr_loop src (target @ [char_of b]))"

definition DecodeTokenStr :: "wstr \<Rightarrow> bool \<times> string" where
  "DecodeTokenStr src = DecodeTokenStr_loop src []"

section \<open>The alphabet\<close>

text \<open>
  The reference: the printable bytes stand for themselves; the other bytes, in their order, are
  numbered from 256 on.
\<close>

definition byte_char :: "nat \<Rightarrow> nat" where
  "byte_char b =
     (if b \<le> 32 then 256 + b else if b \<le> 126 then b else if b \<le> 160 then 256 + 33 + (b - 127)
      else if b = 173 then 256 + 33 + 34 else b)"

lemma and_255: "n AND 255 = n mod (256::nat)"
  using and_low [of n 8] by simp

lemma mem_map_upt: "(c, b) \<in> set (map (\<lambda>i. (i, f i)) [m..<n]) \<longleftrightarrow> m \<le> c \<and> c < n \<and> b = f c"
  by auto

lemma mem_map_filter_upt: "(c, b) \<in> set (map (\<lambda>i. (i, f i)) (filter P [m..<n])) \<longleftrightarrow> m \<le> c \<and> c < n \<and> P c \<and> b = f c"
  by auto

lemma token_byte_assignments_iff:
  "(c, b) \<in> set token_byte_assignments \<longleftrightarrow> b < 256 \<and> c = byte_char b"
proof -
  have "(c, b) \<in> set token_byte_assignments \<longleftrightarrow>
      (33 \<le> c \<and> c < 127 \<and> b = c) \<or> (c = 323 \<and> b = 173) \<or> (161 \<le> c \<and> c < 256 \<and> c \<noteq> 173 \<and> b = c)
      \<or> (256 \<le> c \<and> c < 289 \<and> b = c mod 256) \<or> (289 \<le> c \<and> c < 323 \<and> b = c - 162)"
    unfolding token_byte_assignments_def set_append Un_iff mem_map_upt mem_map_filter_upt and_255 by auto
  moreover have "256 \<le> c \<and> c < 289 \<and> b = c mod 256 \<longleftrightarrow> 256 \<le> c \<and> c < 289 \<and> b = c - 256"
    by (auto simp: le_mod_geq)
  ultimately have mem: "(c, b) \<in> set token_byte_assignments \<longleftrightarrow>
      (33 \<le> c \<and> c < 127 \<and> b = c) \<or> (c = 323 \<and> b = 173) \<or> (161 \<le> c \<and> c < 256 \<and> c \<noteq> 173 \<and> b = c)
      \<or> (256 \<le> c \<and> c < 289 \<and> b = c - 256) \<or> (289 \<le> c \<and> c < 323 \<and> b = c - 162)" by argo
  consider "b \<le> 32" | "32 < b" "b \<le> 126" | "126 < b" "b \<le> 160" | "b = 173" | "160 < b" "b \<noteq> 173" by linarith
  then show ?thesis unfolding mem by cases (auto simp: byte_char_def)
qed

lemma byte_char_inj: "a < 256 \<Longrightarrow> b < 256 \<Longrightarrow> byte_char a = byte_char b \<Longrightarrow> a = b"
  by (auto simp: byte_char_def split: if_splits)

lemma byte_char_less: "b < 256 \<Longrightarrow> byte_char b < 0xFFFF"
  by (auto simp: byte_char_def)

lemma map_of_unique: "(k, v) \<in> set kvs \<Longrightarrow> (\<And>v'. (k, v') \<in> set kvs \<Longrightarrow> v' = v) \<Longrightarrow> map_of kvs k = Some v"
  by (metis map_of_SomeD not_None_eq weak_map_of_SomeI)

lemma token_byte_map_iff: "omap_find InitTokenByteMap c = Some b \<longleftrightarrow> b < 256 \<and> c = byte_char b"
proof -
  have "InitTokenByteMap = omap_of token_byte_assignments" by (simp add: InitTokenByteMap_def omap_of_def)
  then have find: "omap_find InitTokenByteMap c = map_of (rev token_byte_assignments) c"
    using omap_find_of [of token_byte_assignments c] by presburger
  show ?thesis
  proof
    assume "omap_find InitTokenByteMap c = Some b"
    then have "(c, b) \<in> set token_byte_assignments" unfolding find using map_of_SomeD set_rev by metis
    then show "b < 256 \<and> c = byte_char b" by (simp add: token_byte_assignments_iff)
  next
    assume "b < 256 \<and> c = byte_char b"
    then show "omap_find InitTokenByteMap c = Some b"
      unfolding find by (intro map_of_unique) (auto simp: token_byte_assignments_iff dest: byte_char_inj)
  qed
qed

lemma DecodeTokenStr_loop_spelled:
  "DecodeTokenStr_loop (map (\<lambda>c. byte_char (of_char c)) bs) target = (True, target @ bs)"
proof (induction bs arbitrary: target)
  case (Cons c bs)
  have "omap_find InitTokenByteMap (byte_char (of_char c)) = Some (of_char c)"
    by (simp add: token_byte_map_iff)
  then show ?case using Cons by simp
qed simp

lemma DecodeTokenStr_loop_spells:
  "DecodeTokenStr_loop ws target = (True, out) \<Longrightarrow>
    \<exists>bs. out = target @ bs \<and> ws = map (\<lambda>c. byte_char (of_char c)) bs"
proof (induction ws target rule: DecodeTokenStr_loop.induct)
  case (2 ch src target)
  from "2.prems" obtain b where b: "omap_find InitTokenByteMap ch = Some b"
    "DecodeTokenStr_loop src (target @ [char_of b]) = (True, out)" by (auto split: option.splits)
  then obtain bs where "out = target @ [char_of b] @ bs" "src = map (\<lambda>c. byte_char (of_char c)) bs"
    using "2.IH" by auto
  moreover have "ch = byte_char (of_char (char_of b :: char))" using b(1) by (simp add: token_byte_map_iff)
  ultimately show ?case by (intro exI [of _ "char_of b # bs"]) simp
qed simp

text \<open>
  C38. \<open>DecodeTokenStr\<close> inverts the byte-level alphabet: it succeeds exactly on the strings that spell
  some bytes, and yields these bytes; together with UTF-8, the file form of any bytes decodes to
  them.
\<close>

theorem DecodeTokenStr_inverts:
  "(DecodeTokenStr ws = (True, bs) \<longleftrightarrow> ws = map (\<lambda>c. byte_char (of_char c)) bs)
    \<and> DecodeTokenStr (snd (Utf8ToUcs2 0 (ToUtf8 (map (\<lambda>c. byte_char (of_char c)) bs)))) = (True, bs)"
proof -
  let ?ws = "map (\<lambda>c. byte_char (of_char c)) bs"
  have iff: "DecodeTokenStr ws = (True, bs) \<longleftrightarrow> ws = ?ws" for ws
    using DecodeTokenStr_loop_spells [of ws "[]" bs] DecodeTokenStr_loop_spelled [of bs "[]"]
    by (auto simp: DecodeTokenStr_def)
  have "\<forall>w \<in> set ?ws. w < 0xFFFF" using byte_char_less by auto
  then have "Utf8ToUcs2 0 (ToUtf8 ?ws) = (True, ?ws)"
    using decode_chars [of ?ws "\<lparr>us_r = 0, us_big = 0, us_cur = 0, us_error = False, us_target = []\<rparr>" 0]
    by (auto simp: Utf8ToUcs2_def)
  then show ?thesis using iff by simp
qed

end
