(* ===== verification/Gguf.thy ===== *)
theory Gguf
  imports HostTensor TokenBytes NetworkStructure Vocabulary
begin

text \<open>
  The reader of GGUF model files (src/src/transformer/model_reader.cc and .h). Every reading function
  takes the stream operation \<open>rd\<close>; \<open>fresh n\<close> is the content of a new, uninitialised array of \<open>n\<close>
  bytes, which shows where the code uses bytes that it has not read. The value \<open>None\<close> stands for
  undefined behaviour: an access outside an array, an allocation of a size that was never set, or a
  loop that does not end. Allocations succeed.
\<close>

section \<open>Data\<close>

record GgufHeader =
  gh_magic :: nat
  gh_version :: nat
  gh_tensor_num :: nat
  gh_attr_num :: nat

text \<open>A number that is none of the enumerators is a value of the enumeration type, too.\<close>

datatype GgufValueType =
    T_UINT8 | T_INT8 | T_UINT16 | T_INT16 | T_UINT32 | T_INT32 | T_FLOAT32 | T_BOOL | T_STRING
  | T_ARRAY | T_UINT64 | T_INT64 | T_FLOAT64 | T_unlisted int

definition GgufValueType_of :: "int \<Rightarrow> GgufValueType" where
  "GgufValueType_of i =
     (let named = [T_UINT8, T_INT8, T_UINT16, T_INT16, T_UINT32, T_INT32, T_FLOAT32, T_BOOL, T_STRING,
        T_ARRAY, T_UINT64, T_INT64, T_FLOAT64]
      in if 0 \<le> i \<and> i < 13 then named ! nat i else T_unlisted i)"

record GgufStr =
  gs_size :: nat
  gs_data :: string

text \<open>The data of an array: raw bytes, strings, or a pointer that was never set.\<close>

datatype GgufArrData = Arr_bytes string | Arr_strs "GgufStr list" | Arr_unset

record GgufArr =
  gr_value_type :: GgufValueType
  gr_size :: nat
  gr_data :: GgufArrData

text \<open>The union by the member that was written; floating-point numbers as their bits.\<close>

datatype GgufAttrValue =
    V_u8 u8 | V_i8 u8 | V_u16 u16 | V_i16 u16 | V_u32 u32 | V_i32 u32 | V_f32 u32 | V_u64 u64
  | V_i64 u64 | V_f64 u64 | V_bval u8 | V_str GgufStr | V_arr GgufArr | V_unset

record GgufAttr =
  ga_value :: GgufAttrValue
  ga_value_type :: GgufValueType

definition GGUF_MAGIC :: nat where "GGUF_MAGIC = 0x46554747"

section \<open>Reading the parts of a file\<close>

text \<open>\<open>ret && f(strm)\<close>: without success so far nothing is read.\<close>

definition and_read :: "bool \<Rightarrow> ('s \<Rightarrow> (bool \<times> 'v \<times> 's) option) \<Rightarrow> 'v \<Rightarrow> 's \<Rightarrow> (bool \<times> 'v \<times> 's) option" where
  "and_read ret p old s = (if ret then p s else Some (False, old, s))"

definition GGUF_ReadHeader :: "'s reader \<Rightarrow> 's \<Rightarrow> (bool \<times> GgufHeader \<times> 's) option" where
  "GGUF_ReadHeader rd s =
     do { (ret, magic, s) \<leftarrow> Read_le rd 4 0 s;
          if magic \<noteq> GGUF_MAGIC
          then Some (False, \<lparr>gh_magic = magic, gh_version = 2, gh_tensor_num = 0, gh_attr_num = 0\<rparr>, s)
          else do { (ret, version, s) \<leftarrow> Read_le rd 4 2 s;
            let width = (if version = 1 then 4 else 8);
            if \<not> ret
            then Some (False, \<lparr>gh_magic = magic, gh_version = version, gh_tensor_num = 0, gh_attr_num = 0\<rparr>, s)
            else do { (ret, tensor_num, s) \<leftarrow> Read_le rd width 0 s;
              (ret, attr_num, s) \<leftarrow> and_read ret (Read_le rd width 0) 0 s;
              Some (ret, \<lparr>gh_magic = magic, gh_version = version, gh_tensor_num = tensor_num, gh_attr_num = attr_num\<rparr>, s) } } }"

definition GGUF_ReadSize :: "'s reader \<Rightarrow> nat \<Rightarrow> nat \<Rightarrow> 's \<Rightarrow> (bool \<times> nat \<times> 's) option" where
  "GGUF_ReadSize rd version old s = (if version = 1 then Read_le rd 4 0 s else Read_le rd 8 old s)"

text \<open>A string value: whether its bytes could be read is not tested.\<close>

definition GGUF_ReadString_raw :: "'s reader \<Rightarrow> (nat \<Rightarrow> string) \<Rightarrow> nat \<Rightarrow> 's \<Rightarrow> (bool \<times> GgufStr \<times> 's) option" where
  "GGUF_ReadString_raw rd fresh version s =
     do { (ret, sz, s) \<leftarrow> GGUF_ReadSize rd version 0 s;
          if ret then do { (_, got, s) \<leftarrow> rd s sz;
            Some (True, \<lparr>gs_size = sz, gs_data = got @ drop (length got) (fresh sz)\<rparr>, s) }
          else Some (False, \<lparr>gs_size = sz, gs_data = []\<rparr>, s) }"

text \<open>A name, through a buffer that keeps the bytes of earlier names.\<close>

definition GGUF_ReadString :: "'s reader \<Rightarrow> nat \<Rightarrow> string \<Rightarrow> nat \<Rightarrow> 's \<Rightarrow> (bool \<times> (string \<times> string) \<times> 's) option" where
  "GGUF_ReadString rd version buf buf_len s =
     do { (ret, str_len, s) \<leftarrow> GGUF_ReadSize rd version 0 s;
          if \<not> ret \<or> str_len > buf_len then Some (False, ([], buf), s)
          else do { (_, got, s) \<leftarrow> rd s str_len;
            let buf' = got @ drop (length got) buf;
            Some (True, (take str_len buf', buf'), s) } }"

text \<open>The \<open>for\<close> loop over the strings of an array; it stops reading at the first failure.\<close>

primrec read_strs :: "'s reader \<Rightarrow> (nat \<Rightarrow> string) \<Rightarrow> nat \<Rightarrow> nat \<Rightarrow> 's \<Rightarrow> (bool \<times> GgufStr list \<times> 's) option" where
  "read_strs rd fresh version 0 s = Some (True, [], s)"
| "read_strs rd fresh version (Suc n) s =
     do { (ret, x, s) \<leftarrow> GGUF_ReadString_raw rd fresh version s;
          (ret, xs, s) \<leftarrow> and_read ret (read_strs rd fresh version n) [] s;
          Some (ret, x # xs, s) }"

fun arr_type_size :: "GgufValueType \<Rightarrow> nat option" where
  "arr_type_size T_UINT8 = Some 1" | "arr_type_size T_INT8 = Some 1"
| "arr_type_size T_UINT16 = Some 2" | "arr_type_size T_INT16 = Some 2"
| "arr_type_size T_UINT32 = Some 4" | "arr_type_size T_INT32 = Some 4" | "arr_type_size T_FLOAT32 = Some 4"
| "arr_type_size T_UINT64 = Some 8" | "arr_type_size T_INT64 = Some 8" | "arr_type_size T_FLOAT64 = Some 8"
| "arr_type_size T_BOOL = Some 1"
| "arr_type_size _ = None"

text \<open>
  The array case of \<open>GGUF_ReadAttrValue\<close>. When the element type or (from version 2 on) the size could
  not be read, the size is a member of the union that was never set, and the allocation is undefined.
  The loop counter of the strings has 32 bits.
\<close>

definition read_arr :: "'s reader \<Rightarrow> (nat \<Rightarrow> string) \<Rightarrow> nat \<Rightarrow> 's \<Rightarrow> (bool \<times> GgufAttrValue \<times> 's) option" where
  "read_arr rd fresh version s =
     do { (ret1, i32_value, s) \<leftarrow> Read_le rd 4 0 s;
          let ty = GgufValueType_of (to_i32 i32_value);
          (ret, sz, s) \<leftarrow> and_read ret1 (GGUF_ReadSize rd version 0) 0 s;
          let size_set = (ret \<or> ret1 \<and> version = 1);
          case arr_type_size ty of
            Some n \<Rightarrow>
              if \<not> size_set then None
              else do { (ret, got, s) \<leftarrow> and_read ret (\<lambda>s. rd s (sz * n mod 2 ^ 64)) [] s;
                Some (ret, V_arr \<lparr>gr_value_type = ty, gr_size = sz,
                  gr_data = Arr_bytes (got @ drop (length got) (fresh (sz * n mod 2 ^ 64)))\<rparr>, s) }
          | None \<Rightarrow>
              if ty = T_STRING then
                if \<not> size_set \<or> sz \<ge> 2 ^ 32 then None
                else do { (ret, strs, s) \<leftarrow> and_read ret (read_strs rd fresh version sz) [] s;
                  Some (ret, V_arr \<lparr>gr_value_type = ty, gr_size = sz, gr_data = Arr_strs strs\<rparr>, s) }
              else Some (ret, V_arr \<lparr>gr_value_type = ty, gr_size = sz, gr_data = Arr_unset\<rparr>, s) }"

definition read_num :: "'s reader \<Rightarrow> nat \<Rightarrow> (nat \<Rightarrow> GgufAttrValue) \<Rightarrow> 's \<Rightarrow> (bool \<times> GgufAttrValue \<times> 's) option" where
  "read_num rd n con s =
     do { (ret, k, s) \<leftarrow> Read_le rd n 0 s; Some (ret, if ret then con k else V_unset, s) }"

fun GGUF_ReadAttrValue :: "'s reader \<Rightarrow> (nat \<Rightarrow> string) \<Rightarrow> GgufValueType \<Rightarrow> nat \<Rightarrow> 's
    \<Rightarrow> (bool \<times> GgufAttrValue \<times> 's) option" where
  "GGUF_ReadAttrValue rd fresh T_UINT8 version s = read_num rd 1 (\<lambda>k. V_u8 (of_nat k)) s"
| "GGUF_ReadAttrValue rd fresh T_INT8 version s = read_num rd 1 (\<lambda>k. V_i8 (of_nat k)) s"
| "GGUF_ReadAttrValue rd fresh T_UINT16 version s = read_num rd 2 (\<lambda>k. V_u16 (of_nat k)) s"
| "GGUF_ReadAttrValue rd fresh T_INT16 version s = read_num rd 2 (\<lambda>k. V_i16 (of_nat k)) s"
| "GGUF_ReadAttrValue rd fresh T_UINT32 version s = read_num rd 4 (\<lambda>k. V_u32 (of_nat k)) s"
| "GGUF_ReadAttrValue rd fresh T_INT32 version s = read_num rd 4 (\<lambda>k. V_i32 (of_nat k)) s"
| "GGUF_ReadAttrValue rd fresh T_FLOAT32 version s = read_num rd 4 (\<lambda>k. V_f32 (of_nat k)) s"
| "GGUF_ReadAttrValue rd fresh T_UINT64 version s = read_num rd 8 (\<lambda>k. V_u64 (of_nat k)) s"
| "GGUF_ReadAttrValue rd fresh T_INT64 version s = read_num rd 8 (\<lambda>k. V_i64 (of_nat k)) s"
| "GGUF_ReadAttrValue rd fresh T_FLOAT64 version s = read_num rd 8 (\<lambda>k. V_f64 (of_nat k)) s"
| "GGUF_ReadAttrValue rd fresh T_BOOL version s = read_num rd 1 (\<lambda>k. V_bval (of_nat k)) s"
| "GGUF_ReadAttrValue rd fresh T_STRING version s =
     do { (ret, str, s) \<leftarrow> GGUF_ReadString_raw rd fresh version s; Some (ret, V_str str, s) }"
| "GGUF_ReadAttrValue rd fresh T_ARRAY version s = read_arr rd fresh version s"
| "GGUF_ReadAttrValue rd fresh (T_unlisted i) version s = Some (True, V_unset, s)"

text \<open>
  The attributes. The name buffer and the variable of the value type are declared outside the loop;
  the count is converted to \<open>int\<close>.
\<close>

primrec GGUF_ReadAttributes_loop :: "'s reader \<Rightarrow> (nat \<Rightarrow> string) \<Rightarrow> nat \<Rightarrow> nat \<Rightarrow> (string, GgufAttr) omap \<Rightarrow> string \<Rightarrow> nat
    \<Rightarrow> 's \<Rightarrow> (bool \<times> (string, GgufAttr) omap \<times> 's) option" where
  "GGUF_ReadAttributes_loop rd fresh version 0 attr_map buf value_type s = Some (True, attr_map, s)"
| "GGUF_ReadAttributes_loop rd fresh version (Suc n) attr_map buf value_type s =
     do { (ret, (attr_name, buf), s) \<leftarrow> GGUF_ReadString rd version buf 1024 s;
          (ret, value_type, s) \<leftarrow> and_read ret (Read_le rd 4 value_type) value_type s;
          let ty = GgufValueType_of (to_i32 value_type);
          (ret, value, s) \<leftarrow> and_read ret (GGUF_ReadAttrValue rd fresh ty version) V_unset s;
          let attr_map = omap_put attr_name \<lparr>ga_value = value, ga_value_type = ty\<rparr> attr_map;
          if ret then GGUF_ReadAttributes_loop rd fresh version n attr_map buf value_type s
          else Some (False, attr_map, s) }"

definition GGUF_ReadAttributes :: "'s reader \<Rightarrow> (nat \<Rightarrow> string) \<Rightarrow> GgufHeader \<Rightarrow> 's
    \<Rightarrow> (bool \<times> (string, GgufAttr) omap \<times> 's) option" where
  "GGUF_ReadAttributes rd fresh header s =
     GGUF_ReadAttributes_loop rd fresh (gh_version header) (nat (to_i32 (gh_attr_num header))) [] (fresh 1024) 0 s"

section \<open>Tensor specifications\<close>

text \<open>The element types that the reader supports, by the numbers of \<open>ggml_type\<close>.\<close>

definition ToElementType :: "int \<Rightarrow> ElementType" where
  "ToElementType t =
     (if t = 0 then ET_F32 else if t = 1 then ET_F16 else if t = 8 then ET_Q8_B32T2
      else if t = 7 then ET_Q5_B32T1 else if t = 3 then ET_Q4_B32T1A else ET_Invalid)"

definition MaxDimCount :: nat where "MaxDimCount = 3"

text \<open>
  The loop over the dimensions: the results of the reads are ignored, and the array \<open>ne\<close> keeps the
  values of earlier tensors. A dimension behind the arrays is undefined.
\<close>

fun read_dims :: "'s reader \<Rightarrow> nat \<Rightarrow> nat \<Rightarrow> nat \<Rightarrow> nat list \<Rightarrow> int list \<Rightarrow> 's \<Rightarrow> (nat list \<times> int list \<times> 's) option" where
  "read_dims rd version dim 0 ne spec_ne s = Some (ne, spec_ne, s)"
| "read_dims rd version dim (Suc n) ne spec_ne s =
     (if dim \<ge> MaxDimCount then None
      else do { (_, k, s) \<leftarrow> GGUF_ReadSize rd version (ne ! dim) s;
        read_dims rd version (dim + 1) n (ne[dim := k]) (spec_ne[dim := to_i32 k]) s })"

primrec GGUF_ReadTensorSpecTable_loop :: "'s reader \<Rightarrow> nat \<Rightarrow> nat \<Rightarrow> TensorSpecTable \<Rightarrow> string \<Rightarrow> nat list
    \<Rightarrow> 's \<Rightarrow> (bool \<times> TensorSpecTable \<times> 's) option" where
  "GGUF_ReadTensorSpecTable_loop rd version 0 table buf ne s = Some (True, table, s)"
| "GGUF_ReadTensorSpecTable_loop rd version (Suc n) table buf ne s =
     do { (ret, (name, buf), s) \<leftarrow> GGUF_ReadString rd version buf 1024 s;
          (ret, dims, s) \<leftarrow> and_read ret (Read_le rd 4 0) 0 s;
          if \<not> ret then Some (False, table, s)
          else if to_i32 dims \<le> 0 \<and> to_i32 dims > 2 then Some (True, table, s)
          else do { (ne, spec_ne, s) \<leftarrow> read_dims rd version 0 (nat (to_i32 dims)) ne [0, 0, 0] s;
            (ret, ggml_data_type, s) \<leftarrow> Read_le rd 4 0 s;
            let element_type = ToElementType (to_i32 ggml_data_type);
            if element_type = ET_Invalid then Some (False, table, s)
            else do { (ret, offset, s) \<leftarrow> and_read ret (Read_le rd 8 0) 0 s;
              let table = snd (TST_Add table (new_TensorSpec\<lparr>ts_name := name, ts_dims := to_i32 dims, ts_ne := spec_ne,
                ts_data_type := ElementType_value element_type, ts_offset_in_file := of_nat offset\<rparr>));
              if ret then GGUF_ReadTensorSpecTable_loop rd version n table buf ne s
              else Some (False, table, s) } } }"

text \<open>The array \<open>ne\<close> of three 64-bit numbers is not initialised.\<close>

definition fresh_ne :: "(nat \<Rightarrow> string) \<Rightarrow> nat list" where
  "fresh_ne fresh = map (\<lambda>i. le_nat (take 8 (drop (8 * i) (fresh 24)))) [0, 1, 2]"

definition GGUF_ReadTensorSpecTable :: "'s reader \<Rightarrow> (nat \<Rightarrow> string) \<Rightarrow> TensorSpecTable \<Rightarrow> GgufHeader \<Rightarrow> 's
    \<Rightarrow> (bool \<times> TensorSpecTable \<times> 's) option" where
  "GGUF_ReadTensorSpecTable rd fresh table header s =
     GGUF_ReadTensorSpecTable_loop rd (gh_version header) (nat (to_i32 (gh_tensor_num header))) table (fresh 1024)
       (fresh_ne fresh) s"

section \<open>Attributes\<close>

type_synonym attr_map = "(string, GgufAttr) omap"

definition GGUF_GetAttrValue_I32 :: "attr_map \<Rightarrow> string \<Rightarrow> int" where
  "GGUF_GetAttrValue_I32 attr_map attr_name =
     (case omap_find attr_map attr_name of
        None \<Rightarrow> -1
      | Some attr \<Rightarrow>
          (case (ga_value_type attr, ga_value attr) of
             (T_UINT32, V_u32 w) \<Rightarrow> sint w
           | (T_INT32, V_i32 w) \<Rightarrow> sint w
           | (T_UINT16, V_u16 w) \<Rightarrow> uint w
           | (T_INT16, V_i16 w) \<Rightarrow> sint w
           | _ \<Rightarrow> -1))"

definition GGUF_GetAttrValue_U32 :: "attr_map \<Rightarrow> string \<Rightarrow> u32" where
  "GGUF_GetAttrValue_U32 attr_map attr_name =
     (case omap_find attr_map attr_name of
        None \<Rightarrow> -1
      | Some attr \<Rightarrow>
          (case (ga_value_type attr, ga_value attr) of
             (T_UINT32, V_u32 w) \<Rightarrow> w
           | (T_INT32, V_i32 w) \<Rightarrow> w
           | (T_UINT16, V_u16 w) \<Rightarrow> ucast w
           | (T_INT16, V_i16 w) \<Rightarrow> scast w
           | _ \<Rightarrow> -1))"

definition GGUF_GetAttrValue_Str :: "attr_map \<Rightarrow> string \<Rightarrow> string" where
  "GGUF_GetAttrValue_Str attr_map attr_name =
     (case omap_find attr_map attr_name of
        None \<Rightarrow> []
      | Some attr \<Rightarrow>
          (case (ga_value_type attr, ga_value attr) of
             (T_STRING, V_str str) \<Rightarrow> take (gs_size str) (gs_data str)
           | _ \<Rightarrow> []))"

definition GGUF_GetAttrValue_Arr :: "attr_map \<Rightarrow> string \<Rightarrow> GgufArr option" where
  "GGUF_GetAttrValue_Arr attr_map attr_name =
     (case omap_find attr_map attr_name of
        None \<Rightarrow> None
      | Some attr \<Rightarrow> (case (ga_value_type attr, ga_value attr) of (T_ARRAY, V_arr arr) \<Rightarrow> Some arr | _ \<Rightarrow> None))"

definition GGUF_BuildAttrName :: "string \<Rightarrow> string \<Rightarrow> string option" where
  "GGUF_BuildAttrName name_template model_name = ReplaceAll name_template ''%s'' model_name"

section \<open>Hyper-parameters and vocabulary\<close>

definition GGUF_ReadHyperParams :: "attr_map \<Rightarrow> ModelHyperParams \<Rightarrow> ModelHyperParams option" where
  "GGUF_ReadHyperParams attr_map hparams =
     do { let model_arch = GGUF_GetAttrValue_Str attr_map ''general.architecture'';
          let hparams = (case GGUF_GetAttrValue_Arr attr_map ''tokenizer.ggml.tokens'' of
             Some arr \<Rightarrow> hparams\<lparr>hp_vocab_size := to_i32 (gr_size arr)\<rparr> | None \<Rightarrow> hparams);
          attr_name \<leftarrow> GGUF_BuildAttrName ''%s.context_length'' model_arch;
          let hparams = hparams\<lparr>hp_training_context_len := GGUF_GetAttrValue_I32 attr_map attr_name\<rparr>;
          attr_name \<leftarrow> GGUF_BuildAttrName ''%s.embedding_length'' model_arch;
          let hparams = hparams\<lparr>hp_embd_dims := GGUF_GetAttrValue_I32 attr_map attr_name\<rparr>;
          attr_name \<leftarrow> GGUF_BuildAttrName ''%s.feed_forward_length'' model_arch;
          let hparams = hparams\<lparr>hp_hidden_dim := GGUF_GetAttrValue_I32 attr_map attr_name\<rparr>;
          attr_name \<leftarrow> GGUF_BuildAttrName ''%s.attention.head_count'' model_arch;
          let kv_heads = GGUF_GetAttrValue_I32 attr_map attr_name;
          let hparams = hparams\<lparr>hp_decoder_kv_heads := (if kv_heads > 0 then kv_heads else hp_decoder_heads hparams)\<rparr>;
          attr_name \<leftarrow> GGUF_BuildAttrName ''%s.attention.head_count_kv'' model_arch;
          let hparams = hparams\<lparr>hp_decoder_heads := GGUF_GetAttrValue_I32 attr_map attr_name\<rparr>;
          attr_name \<leftarrow> GGUF_BuildAttrName ''%s.block_count'' model_arch;
          let hparams = hparams\<lparr>hp_decoder_layers := GGUF_GetAttrValue_I32 attr_map attr_name\<rparr>;
          Some hparams }"

text \<open>Element \<open>i\<close> of an array of 4-byte numbers; an array of another kind has no such element.\<close>

definition arr_word :: "GgufArr \<Rightarrow> nat \<Rightarrow> nat option" where
  "arr_word arr i =
     (case gr_data arr of
        Arr_bytes bs \<Rightarrow> if 4 * i + 4 \<le> length bs then Some (le_nat (take 4 (drop (4 * i) bs))) else None
      | _ \<Rightarrow> None)"

definition arr_str :: "GgufArr \<Rightarrow> nat \<Rightarrow> string option" where
  "arr_str arr i =
     (case gr_data arr of
        Arr_strs strs \<Rightarrow> if i < length strs then Some (take (gs_size (strs ! i)) (gs_data (strs ! i))) else None
      | _ \<Rightarrow> None)"

text \<open>One token; the result \<open>False\<close> is a string that the byte-level alphabet does not spell.\<close>

definition gguf_token :: "GgufArr \<Rightarrow> GgufArr option \<Rightarrow> GgufArr option \<Rightarrow> int \<Rightarrow> nat \<Rightarrow> (bool \<times> u32 Token) option" where
  "gguf_token token_arr score_array token_type_array token_bytes_mapping token_id =
     do { str \<leftarrow> arr_str token_arr token_id;
          let (is_succ, str) = (if token_bytes_mapping \<noteq> 0 then DecodeTokenStr (snd (Utf8ToUcs2 0 str)) else (True, str));
          if \<not> is_succ then Some (False, \<lparr>tk_id = int token_id, tk_str = str, tk_score = 0, tk_type = 0\<rparr>)
          else do { score \<leftarrow> (case score_array of None \<Rightarrow> Some 0 | Some a \<Rightarrow> map_option of_nat (arr_word a token_id));
            str \<leftarrow> ReplaceAll str (ToUtf8 [0x2581]) '' '';
            type \<leftarrow> (case token_type_array of None \<Rightarrow> Some 0 | Some a \<Rightarrow> map_option to_i32 (arr_word a token_id));
            Some (True, \<lparr>tk_id = int token_id, tk_str = str, tk_score = score, tk_type = type\<rparr>) } }"

text \<open>
  The loop over the tokens. The tokens behind a token that fails have their initial values; the
  type for the replacement character is always overwritten and not shown.
\<close>

primrec GGUF_ReadVocabulary_loop :: "GgufArr \<Rightarrow> GgufArr option \<Rightarrow> GgufArr option \<Rightarrow> int \<Rightarrow> nat list \<Rightarrow> u32 StdVocabulary
    \<Rightarrow> (bool \<times> u32 StdVocabulary) option" where
  "GGUF_ReadVocabulary_loop tokens scores types token_bytes_mapping [] vocab = Some (True, vocab)"
| "GGUF_ReadVocabulary_loop tokens scores types token_bytes_mapping (i # ids) vocab =
     do { (ok, token) \<leftarrow> gguf_token tokens scores types token_bytes_mapping i;
          let vocab = vocab\<lparr>token_array := (token_array vocab)[i := token]\<rparr>;
          if \<not> ok then Some (False, vocab)
          else GGUF_ReadVocabulary_loop tokens scores types token_bytes_mapping ids
            (vocab\<lparr>str_to_id := omap_put (tk_str token) (tk_id token) (str_to_id vocab)\<rparr>) }"

definition GGUF_ReadVocabulary :: "attr_map \<Rightarrow> int \<Rightarrow> u32 StdVocabulary \<Rightarrow> (bool \<times> u32 StdVocabulary) option" where
  "GGUF_ReadVocabulary attr_map token_bytes_mapping vocab =
     (let vocab = Vocab_Clear vocab;
          scores = GGUF_GetAttrValue_Arr attr_map ''tokenizer.ggml.scores'';
          types = GGUF_GetAttrValue_Arr attr_map ''tokenizer.ggml.token_type''
      in case GGUF_GetAttrValue_Arr attr_map ''tokenizer.ggml.tokens'' of
           None \<Rightarrow> Some (False, vocab)
         | Some tokens \<Rightarrow>
             let vocab_size = to_i32 (gr_size tokens)
             in if vocab_size < 0 then None
                else GGUF_ReadVocabulary_loop tokens scores types token_bytes_mapping [0..<nat vocab_size]
                  (vocab\<lparr>token_array := replicate (nat vocab_size) \<lparr>tk_id = 0, tk_str = [], tk_score = 0, tk_type = 0\<rparr>\<rparr>))"

section \<open>Loading a file\<close>

text \<open>The parts of \<open>TransformerModel\<close> that the reader sets; a null pointer in the map is \<open>None\<close>.\<close>

record LoadedModel =
  tm_hyper_params :: ModelHyperParams
  tm_vocabulary :: "u32 StdVocabulary"
  tm_tensor_spec_table :: TensorSpecTable
  tm_tensor_map :: "(int, HostTensor option) omap"

fun GgufValueType_value :: "GgufValueType \<Rightarrow> int" where
  "GgufValueType_value T_UINT8 = 0" | "GgufValueType_value T_INT8 = 1"
| "GgufValueType_value T_UINT16 = 2" | "GgufValueType_value T_INT16 = 3"
| "GgufValueType_value T_UINT32 = 4" | "GgufValueType_value T_INT32 = 5"
| "GgufValueType_value T_FLOAT32 = 6" | "GgufValueType_value T_BOOL = 7"
| "GgufValueType_value T_STRING = 8" | "GgufValueType_value T_ARRAY = 9"
| "GgufValueType_value T_UINT64 = 10" | "GgufValueType_value T_INT64 = 11"
| "GgufValueType_value T_FLOAT64 = 12" | "GgufValueType_value (T_unlisted i) = i"

text \<open>
  The member \<open>u32\<close> of the union, whatever member was written: its first four bytes, undefined when
  they were not all written.
\<close>

fun value_u32 :: "GgufAttrValue \<Rightarrow> u32 option" where
  "value_u32 (V_u32 w) = Some w" | "value_u32 (V_i32 w) = Some w" | "value_u32 (V_f32 w) = Some w"
| "value_u32 (V_u64 w) = Some (ucast w)" | "value_u32 (V_i64 w) = Some (ucast w)" | "value_u32 (V_f64 w) = Some (ucast w)"
| "value_u32 (V_str str) = Some (of_nat (gs_size str))"
| "value_u32 (V_arr arr) = Some (of_int (GgufValueType_value (gr_value_type arr)))"
| "value_u32 _ = None"

text \<open>The element type of a stored number; other numbers than the enumerators do not occur.\<close>

definition ElementType_of :: "int \<Rightarrow> ElementType" where
  "ElementType_of i =
     (case find (\<lambda>t. ElementType_value t = i) [ET_F32, ET_F16, ET_BF16, ET_I32, ET_I16, ET_Q8_GL, ET_Q8_LOG,
        ET_Q8_B32T1, ET_Q8_B32T2, ET_Q6_B64T1, ET_Q5_B64T1, ET_Q5_B32T1, ET_Q4_B16, ET_Q4_B32T1A, ET_Q4_B32T1B,
        ET_Q4_B32T2, ET_Q4_B32P8, ET_Q4_B64T1, ET_Q3H_B64T1, ET_Q3_B32T1A, ET_Q3_B32T1B, ET_Q2_B32T1A,
        ET_Q2_B32T1B, ET_Invalid, ET_Auto] of
        Some t \<Rightarrow> t | None \<Rightarrow> ET_Invalid)"

text \<open>Skipping to the next multiple of the alignment, in 64-bit arithmetic; an alignment of 0 is undefined.\<close>

definition skip_padding :: "u32 \<Rightarrow> FileStream \<Rightarrow> FileStream option" where
  "skip_padding alignment strm =
     (let a = unat (scast alignment :: u64); offset = TellRd strm
      in if a = 0 then None
         else if offset mod a \<noteq> 0 then Some (snd (SeekRd strm ((offset + (a - offset mod a)) mod 2 ^ 64) SEEK_WAY_ABS))
         else Some strm)"

text \<open>The tensors, one behind the other: the offsets of the specifications are not used.\<close>

primrec gguf_read_tensors :: "'s reader \<Rightarrow> (nat \<Rightarrow> string) \<Rightarrow> TensorSpec list \<Rightarrow> int \<Rightarrow> (int, HostTensor option) omap \<Rightarrow> 's
    \<Rightarrow> (bool \<times> (int, HostTensor option) omap \<times> 's) option" where
  "gguf_read_tensors rd fresh [] tensor_idx tensor_map s = Some (True, tensor_map, s)"
| "gguf_read_tensors rd fresh (spec # specs) tensor_idx tensor_map s =
     do { (ret, tensor, s) \<leftarrow> ReadTensor rd fresh (ElementType_of (ts_data_type spec)) (ts_ne spec ! 0) (ts_ne spec ! 1) s;
          let tensor_map = omap_put tensor_idx (if ret then Some tensor else None) tensor_map;
          if \<not> ret then Some (False, tensor_map, s)
          else gguf_read_tensors rd fresh specs (tensor_idx + 1) tensor_map s }"

text \<open>\<open>file\<close> is the content of the model file, \<open>None\<close> when it cannot be opened.\<close>

definition LoadModel_GGUF :: "sys_read \<Rightarrow> (nat \<Rightarrow> string) \<Rightarrow> LoadedModel \<Rightarrow> string option
    \<Rightarrow> (bool \<times> LoadedModel) option" where
  "LoadModel_GGUF sys_read fresh model file =
     do { (ret, strm) \<leftarrow> OpenForRead sys_read new_FileStream file True;
          if \<not> ret then Some (False, model) else do {
          (ret, header, strm) \<leftarrow> GGUF_ReadHeader (FS_Read sys_read) strm;
          if \<not> ret then Some (False, model) else do {
          (ret, attr_map, strm) \<leftarrow> GGUF_ReadAttributes (FS_Read sys_read) fresh header strm;
          if \<not> ret then Some (False, model) else do {
          hparams \<leftarrow> GGUF_ReadHyperParams attr_map (tm_hyper_params model);
          let model = model\<lparr>tm_hyper_params := hparams\<rparr>;
          (ret, vocab) \<leftarrow> GGUF_ReadVocabulary attr_map 0 (tm_vocabulary model);
          let model = model\<lparr>tm_vocabulary := vocab\<rparr>;
          if \<not> ret then Some (False, model) else do {
          (ret, table, strm) \<leftarrow> GGUF_ReadTensorSpecTable (FS_Read sys_read) fresh (tm_tensor_spec_table model) header strm;
          let model = model\<lparr>tm_tensor_spec_table := table\<rparr>;
          if \<not> ret then Some (False, model) else do {
          alignment \<leftarrow> (case omap_find attr_map ''general.alignment'' of None \<Rightarrow> Some 32 | Some attr \<Rightarrow> value_u32 (ga_value attr));
          strm \<leftarrow> skip_padding alignment strm;
          (ret, tensor_map, strm) \<leftarrow> gguf_read_tensors (FS_Read sys_read) fresh (tensor_array_of table) 0
            (tm_tensor_map model) strm;
          Some (ret, model\<lparr>tm_tensor_map := tensor_map\<rparr>) } } } } } }"

end
