(* ===== verification/LlamaCpp.thy ===== *)
theory LlamaCpp
  imports Gguf
begin

text \<open>
  The reader of the older llama.cpp formats GGML, GGMF and GGJT and of the binary vocabularies
  (src/src/transformer/model_reader.cc). As in theory \<open>Gguf\<close>, \<open>rd\<close> reads from the stream, \<open>fresh\<close> is
  the content of uninitialised memory, and \<open>None\<close> stands for undefined behaviour or a loop that does
  not end.
\<close>

section \<open>File versions\<close>

datatype LlamaCppFileVersion = FV_GGML | FV_GGMF_V1 | FV_GGJT_V1 | FV_GGJT_V2 | FV_GGJT_V3

fun LlamaCppFileVersion_value :: "LlamaCppFileVersion \<Rightarrow> int" where
  "LlamaCppFileVersion_value FV_GGML = 0" | "LlamaCppFileVersion_value FV_GGMF_V1 = 1"
| "LlamaCppFileVersion_value FV_GGJT_V1 = 2" | "LlamaCppFileVersion_value FV_GGJT_V2 = 3"
| "LlamaCppFileVersion_value FV_GGJT_V3 = 4"

definition GGJT_MAGIC :: nat where "GGJT_MAGIC = 0x67676a74"
definition GGMF_MAGIC :: nat where "GGMF_MAGIC = 0x67676d66"
definition GGML_MAGIC :: nat where "GGML_MAGIC = 0x67676d6c"

definition LlamaCpp_ReadMagic :: "'s reader \<Rightarrow> int \<Rightarrow> 's \<Rightarrow> (bool \<times> int \<times> 's) option" where
  "LlamaCpp_ReadMagic rd file_version s =
     do { (ret, magic, s) \<leftarrow> Read_le rd 4 0 s;
          if magic = GGML_MAGIC then Some (True, LlamaCppFileVersion_value FV_GGML, s)
          else do { (ret, version, s) \<leftarrow> Read_le rd 4 0 s;
            if \<not> ret then Some (False, file_version, s)
            else if magic = GGMF_MAGIC \<and> version = 1 then Some (True, LlamaCppFileVersion_value FV_GGMF_V1, s)
            else if magic = GGJT_MAGIC \<and> version = 1 then Some (True, LlamaCppFileVersion_value FV_GGJT_V1, s)
            else if magic = GGJT_MAGIC \<and> version = 2 then Some (True, LlamaCppFileVersion_value FV_GGJT_V2, s)
            else if magic = GGJT_MAGIC \<and> version = 3 then Some (True, LlamaCppFileVersion_value FV_GGJT_V3, s)
            else Some (False, file_version, s) } }"

section \<open>Hyper-parameters\<close>

text \<open>The bits of an \<open>int\<close>.\<close>

definition of_i32 :: "int \<Rightarrow> nat" where
  "of_i32 i = nat (i mod 2 ^ 32)"

text \<open>Reading into a field of type \<open>int\<close>; nothing is read after a failure.\<close>

definition read_int :: "'s reader \<Rightarrow> bool \<Rightarrow> int \<Rightarrow> 's \<Rightarrow> (bool \<times> int \<times> 's) option" where
  "read_int rd ret old s =
     do { (ret, k, s) \<leftarrow> and_read ret (Read_le rd 4 (of_i32 old)) (of_i32 old) s; Some (ret, to_i32 k, s) }"

definition LlamaCpp_ReadHyperParams :: "'s reader \<Rightarrow> ModelHyperParams \<Rightarrow> 's \<Rightarrow> (bool \<times> ModelHyperParams \<times> 's) option" where
  "LlamaCpp_ReadHyperParams rd h s =
     do { (ret, vocab_size, s) \<leftarrow> read_int rd True (hp_vocab_size h) s;
          (ret, embd_dims, s) \<leftarrow> read_int rd ret (hp_embd_dims h) s;
          (ret, mult, s) \<leftarrow> read_int rd ret 0 s;
          (ret, heads, s) \<leftarrow> read_int rd ret (hp_decoder_heads h) s;
          (ret, layers, s) \<leftarrow> read_int rd ret (hp_decoder_layers h) s;
          (ret, rot, s) \<leftarrow> read_int rd ret 0 s;
          (ret, ftype, s) \<leftarrow> read_int rd ret 0 s;
          Some (ret, h\<lparr>hp_vocab_size := vocab_size, hp_embd_dims := embd_dims, hp_decoder_heads := heads,
            hp_decoder_layers := layers\<rparr>, s) }"

section \<open>Vocabularies\<close>

definition TT_Invalid :: int where "TT_Invalid = 255"

definition token_type_of :: "string \<Rightarrow> int" where
  "token_type_of str = (if str = [CHR 0xEF, CHR 0xBF, CHR 0xBD] then TT_Invalid else 0)"

definition put_token :: "nat \<Rightarrow> string \<Rightarrow> nat \<Rightarrow> u32 StdVocabulary \<Rightarrow> u32 StdVocabulary" where
  "put_token token_id str score vocab =
     vocab\<lparr>str_to_id := omap_put str (int token_id) (str_to_id vocab),
       token_array := (token_array vocab)[token_id := \<lparr>tk_id = int token_id, tk_str = str, tk_score = of_nat score,
         tk_type = token_type_of str\<rparr>]\<rparr>"

definition blank_tokens :: "nat \<Rightarrow> u32 Token list" where
  "blank_tokens n = replicate n \<lparr>tk_id = 0, tk_str = [], tk_score = 0, tk_type = 0\<rparr>"

text \<open>
  The loop over the tokens; a string that could not be read has the bytes of earlier strings. The
  buffer and the length keep their values between the tokens.
\<close>

primrec ReadVocabulary_Std_loop :: "'s reader \<Rightarrow> bool \<Rightarrow> nat list \<Rightarrow> string \<Rightarrow> nat \<Rightarrow> u32 StdVocabulary \<Rightarrow> 's
    \<Rightarrow> (bool \<times> u32 StdVocabulary \<times> 's) option" where
  "ReadVocabulary_Std_loop rd has_score [] token_buf token_len vocab s = Some (True, vocab, s)"
| "ReadVocabulary_Std_loop rd has_score (token_id # ids) token_buf token_len vocab s =
     do { (ret, token_len, s) \<leftarrow> Read_le rd 4 token_len s;
          if token_len > 4095 then Some (False, vocab, s)
          else do { (ret, got, s) \<leftarrow> and_read ret (\<lambda>s. rd s token_len) [] s;
            let token_buf = got @ drop (length got) token_buf;
            (ret, score, s) \<leftarrow> (if ret \<and> has_score then Read_le rd 4 0 s else Some (ret, 0, s));
            let vocab = put_token token_id (take token_len token_buf) score vocab;
            if ret then ReadVocabulary_Std_loop rd has_score ids token_buf token_len vocab s
            else Some (False, vocab, s) } }"

definition ReadVocabulary_Std :: "'s reader \<Rightarrow> (nat \<Rightarrow> string) \<Rightarrow> bool \<Rightarrow> int \<Rightarrow> u32 StdVocabulary \<Rightarrow> 's
    \<Rightarrow> (bool \<times> u32 StdVocabulary \<times> 's) option" where
  "ReadVocabulary_Std rd fresh has_score vocab_size vocab s =
     (if vocab_size < 0 then None
      else ReadVocabulary_Std_loop rd has_score [0..<nat vocab_size] (fresh 4096) 0
        ((Vocab_Clear vocab)\<lparr>token_array := blank_tokens (nat vocab_size)\<rparr>) s)"

text \<open>
  The second format: the file gives the length limit (whose buffer length is computed in 32 bits),
  and the score comes first.
\<close>

primrec ReadVocabulary_Format2_loop :: "'s reader \<Rightarrow> nat \<Rightarrow> nat list \<Rightarrow> string \<Rightarrow> nat \<Rightarrow> u32 StdVocabulary \<Rightarrow> 's
    \<Rightarrow> (bool \<times> u32 StdVocabulary \<times> 's) option" where
  "ReadVocabulary_Format2_loop rd max_token_len [] token_buf token_len vocab s = Some (True, vocab, s)"
| "ReadVocabulary_Format2_loop rd max_token_len (token_id # ids) token_buf token_len vocab s =
     do { (ret, score, s) \<leftarrow> Read_le rd 4 0 s;
          (ret, token_len, s) \<leftarrow> and_read ret (Read_le rd 4 token_len) token_len s;
          if token_len > max_token_len
          then Some (False, vocab\<lparr>token_array := (token_array vocab)[token_id := (token_array vocab ! token_id)\<lparr>tk_id := int token_id\<rparr>]\<rparr>, s)
          else do { (ret, got, s) \<leftarrow> and_read ret (\<lambda>s. rd s token_len) [] s;
            let token_buf' = got @ drop (length got) token_buf;
            let vocab = put_token token_id (take token_len token_buf') score vocab;
            if length got > length token_buf then None
            else if ret then ReadVocabulary_Format2_loop rd max_token_len ids token_buf' token_len vocab s
            else Some (False, vocab, s) } }"

definition ReadVocabulary_Format2 :: "'s reader \<Rightarrow> (nat \<Rightarrow> string) \<Rightarrow> int \<Rightarrow> u32 StdVocabulary \<Rightarrow> 's
    \<Rightarrow> (bool \<times> u32 StdVocabulary \<times> 's) option" where
  "ReadVocabulary_Format2 rd fresh vocab_size vocab s =
     (if vocab_size < 0 then None
      else let vocab = (Vocab_Clear vocab)\<lparr>token_array := blank_tokens (nat vocab_size)\<rparr>
           in do { (ret, max_token_len, s) \<leftarrow> Read_le rd 4 4095 s;
             if \<not> ret then Some (False, vocab, s)
             else ReadVocabulary_Format2_loop rd max_token_len [0..<nat vocab_size] (fresh ((max_token_len + 1) mod 2 ^ 32)) 0
               vocab s })"

section \<open>Tensors\<close>

text \<open>Elements and bytes of a block of the supported \<open>ggml_type\<close> numbers.\<close>

definition ggml_blck_size :: "int \<Rightarrow> nat" where
  "ggml_blck_size t = (if t \<in> {0, 1} then 1 else 32)"

definition ggml_type_size :: "int \<Rightarrow> nat" where
  "ggml_type_size t =
     (if t = 0 then 4 else if t = 1 then 2 else if t = 2 then 18 else if t = 3 then 20 else if t = 6 then 22
      else if t = 7 then 24 else 34)"

definition LlamaCpp_CalcTensorSize :: "TensorSpec \<Rightarrow> int \<Rightarrow> u32" where
  "LlamaCpp_CalcTensorSize spec file_version =
     (let sz = fold (\<lambda>dim_idx (sz :: u64). sz * of_int (ts_ne spec ! dim_idx)) [0..<nat (ts_dims spec)] 1;
          t = ts_data_type spec;
          type_size = ggml_type_size t + (if file_version \<le> 0 then (if t = 2 then 2 else if t = 3 then 4 else 0) else 0)
      in ucast (sz * of_nat type_size div of_nat (ggml_blck_size t)))"

record llama_state =
  ls_dims :: nat
  ls_name_len :: nat
  ls_data_type :: nat
  ls_buf :: string
  ls_tensor_id :: int

text \<open>
  The loop over the tensors, until the position reaches the end of the file. The results of the
  header reads are not tested.
\<close>

partial_function (option) LlamaCpp_ReadTensors_loop :: "sys_read \<Rightarrow> (nat \<Rightarrow> string) \<Rightarrow> int \<Rightarrow> nat \<Rightarrow> llama_state
    \<Rightarrow> TensorSpecTable \<Rightarrow> (int, HostTensor option) omap \<Rightarrow> FileStream
    \<Rightarrow> (bool \<times> (TensorSpecTable \<times> (int, HostTensor option) omap) \<times> FileStream) option" where
  "LlamaCpp_ReadTensors_loop sys_read fresh file_version file_length ls table tensor_map s =
     (if TellRd s \<ge> file_length then Some (\<not> fs_has_error s, (table, tensor_map), s)
      else do {
        (_, dims, s) \<leftarrow> Read_le (FS_Read sys_read) 4 (ls_dims ls) s;
        (_, name_len, s) \<leftarrow> Read_le (FS_Read sys_read) 4 (ls_name_len ls) s;
        (_, data_type, s) \<leftarrow> Read_le (FS_Read sys_read) 4 (ls_data_type ls) s;
        if dims < 1 \<or> dims > 2 \<or> name_len > 255 then Some (False, (table, tensor_map), s)
        else do {
          (_, ne, s) \<leftarrow> FS_Read sys_read s (dims * 4);
          (_, name, s) \<leftarrow> FS_Read sys_read s name_len;
          let ne = ne @ replicate (8 - length ne) CHR 0x00;
          let buf = name @ drop (length name) (ls_buf ls);
          let spec = new_TensorSpec\<lparr>ts_dims := int dims, ts_data_type := to_i32 data_type,
            ts_ne := [to_i32 (le_nat (take 4 ne)), to_i32 (le_nat (drop 4 ne)), 0], ts_id := ls_tensor_id ls,
            ts_name := take name_len buf\<rparr>;
          if to_i32 data_type \<notin> {0, 1, 2, 3, 6, 7, 8} then Some (False, (table, tensor_map), s)
          else do {
            let r = TellRd s mod 32;
            let s = (if file_version \<ge> LlamaCppFileVersion_value FV_GGJT_V1 \<and> r \<noteq> 0
              then snd (SeekRd s (TellRd s + (32 - r)) SEEK_WAY_ABS) else s);
            let spec = spec\<lparr>ts_offset_in_file := of_nat (TellRd s)\<rparr>;
            let spec = spec\<lparr>ts_size := LlamaCpp_CalcTensorSize spec file_version\<rparr>;
            (ret, tensor, s') \<leftarrow> ReadTensor (FS_Read sys_read) fresh (ToElementType (ts_data_type spec))
              (ts_ne spec ! 0) (ts_ne spec ! 1) s;
            if \<not> ret then Some (False, (table, tensor_map), s')
            else do {
              let s' = snd (SeekRd s' (TellRd s + unat (ts_size spec)) SEEK_WAY_ABS);
              let (ret_idx, table) = TST_Add table spec;
              LlamaCpp_ReadTensors_loop sys_read fresh file_version file_length
                (ls\<lparr>ls_dims := dims, ls_name_len := name_len, ls_data_type := data_type, ls_buf := buf, ls_tensor_id := ls_tensor_id ls + 1\<rparr>)
                table (omap_put ret_idx (Some tensor) tensor_map) s' } } } })"

declare LlamaCpp_ReadTensors_loop.simps [code]

definition LlamaCpp_ReadTensors :: "sys_read \<Rightarrow> (nat \<Rightarrow> string) \<Rightarrow> int \<Rightarrow> nat \<Rightarrow> LoadedModel \<Rightarrow> FileStream
    \<Rightarrow> (bool \<times> LoadedModel \<times> FileStream) option" where
  "LlamaCpp_ReadTensors sys_read fresh file_version file_length model s =
     do { (ret, (table, tensor_map), s) \<leftarrow> LlamaCpp_ReadTensors_loop sys_read fresh file_version file_length
            \<lparr>ls_dims = 0, ls_name_len = 0, ls_data_type = 0, ls_buf = fresh 256, ls_tensor_id = 0\<rparr>
            (tm_tensor_spec_table model) (tm_tensor_map model) s;
          Some (ret, model\<lparr>tm_tensor_spec_table := table, tm_tensor_map := tensor_map\<rparr>, s) }"

definition LoadModel_GGML :: "sys_read \<Rightarrow> (nat \<Rightarrow> string) \<Rightarrow> LoadedModel \<Rightarrow> string option
    \<Rightarrow> (bool \<times> LoadedModel) option" where
  "LoadModel_GGML sys_read fresh model file =
     do { (ret, s) \<leftarrow> OpenForRead sys_read new_FileStream file True;
          if \<not> ret then Some (False, model) else do {
          (ret, file_version, s) \<leftarrow> LlamaCpp_ReadMagic (FS_Read sys_read) 0 s;
          (ret, hparams, s) \<leftarrow> and_read ret (LlamaCpp_ReadHyperParams (FS_Read sys_read) (tm_hyper_params model))
            (tm_hyper_params model) s;
          let model = model\<lparr>tm_hyper_params := hparams\<lparr>hp_decoder_kv_heads := hp_decoder_heads hparams\<rparr>\<rparr>;
          (ret, vocab, s) \<leftarrow> and_read ret (ReadVocabulary_Std (FS_Read sys_read) fresh
            (file_version \<ge> LlamaCppFileVersion_value FV_GGMF_V1) (hp_vocab_size hparams) (tm_vocabulary model)) (tm_vocabulary model) s;
          let model = model\<lparr>tm_vocabulary := vocab\<rparr>;
          (ret, model, s) \<leftarrow> and_read ret (LlamaCpp_ReadTensors sys_read fresh file_version (case file of None \<Rightarrow> 0 | Some f \<Rightarrow> length f) model) model s;
          Some (ret, model) } }"

end
