(* ===== verification/GgufFormat.thy ===== *)
theory GgufFormat
  imports Gguf
begin

text \<open>
  The GGUF format as a description of the bytes, and the theorems that the reader of theory
  \<open>Gguf\<close> reads what the description writes: numbers, strings, attributes, tensor specifications, and
  a whole file with its tensors.
\<close>

section \<open>The bytes of a file\<close>

definition enc_size :: "nat \<Rightarrow> nat \<Rightarrow> string" where
  "enc_size version n = bytes_le (if version = 1 then 4 else 8) n"

definition enc_str :: "nat \<Rightarrow> string \<Rightarrow> string" where
  "enc_str version x = enc_size version (length x) @ x"

fun value_type_of :: "GgufAttrValue \<Rightarrow> GgufValueType" where
  "value_type_of (V_u8 w) = T_UINT8" | "value_type_of (V_i8 w) = T_INT8"
| "value_type_of (V_u16 w) = T_UINT16" | "value_type_of (V_i16 w) = T_INT16"
| "value_type_of (V_u32 w) = T_UINT32" | "value_type_of (V_i32 w) = T_INT32"
| "value_type_of (V_f32 w) = T_FLOAT32" | "value_type_of (V_u64 w) = T_UINT64"
| "value_type_of (V_i64 w) = T_INT64" | "value_type_of (V_f64 w) = T_FLOAT64"
| "value_type_of (V_bval w) = T_BOOL" | "value_type_of (V_str x) = T_STRING"
| "value_type_of (V_arr x) = T_ARRAY" | "value_type_of V_unset = T_unlisted 13"

definition enc_type :: "GgufValueType \<Rightarrow> string" where
  "enc_type ty = bytes_le 4 (nat (GgufValueType_value ty))"

fun enc_arr_data :: "nat \<Rightarrow> GgufArrData \<Rightarrow> string" where
  "enc_arr_data version (Arr_bytes bs) = bs"
| "enc_arr_data version (Arr_strs strs) = concat (map (\<lambda>x. enc_str version (gs_data x)) strs)"
| "enc_arr_data version Arr_unset = []"

fun enc_value :: "nat \<Rightarrow> GgufAttrValue \<Rightarrow> string" where
  "enc_value version (V_u8 w) = bytes_le 1 (unat w)" | "enc_value version (V_i8 w) = bytes_le 1 (unat w)"
| "enc_value version (V_u16 w) = bytes_le 2 (unat w)" | "enc_value version (V_i16 w) = bytes_le 2 (unat w)"
| "enc_value version (V_u32 w) = bytes_le 4 (unat w)" | "enc_value version (V_i32 w) = bytes_le 4 (unat w)"
| "enc_value version (V_f32 w) = bytes_le 4 (unat w)" | "enc_value version (V_u64 w) = bytes_le 8 (unat w)"
| "enc_value version (V_i64 w) = bytes_le 8 (unat w)" | "enc_value version (V_f64 w) = bytes_le 8 (unat w)"
| "enc_value version (V_bval w) = bytes_le 1 (unat w)"
| "enc_value version (V_str x) = enc_str version (gs_data x)"
| "enc_value version (V_arr a) = enc_type (gr_value_type a) @ enc_size version (gr_size a) @ enc_arr_data version (gr_data a)"
| "enc_value version V_unset = []"

text \<open>Values that a file can hold: sizes agree with the data and stay below 2^31.\<close>

definition str_ok :: "GgufStr \<Rightarrow> bool" where
  "str_ok x \<longleftrightarrow> gs_size x = length (gs_data x) \<and> length (gs_data x) < 2 ^ 31"

fun value_ok :: "GgufAttrValue \<Rightarrow> bool" where
  "value_ok (V_str x) = str_ok x"
| "value_ok (V_arr a) =
     (gr_size a < 2 ^ 31 \<and>
      (case gr_data a of
         Arr_bytes bs \<Rightarrow> length bs < 2 ^ 31 \<and>
           (case arr_type_size (gr_value_type a) of Some n \<Rightarrow> length bs = gr_size a * n | None \<Rightarrow> False)
       | Arr_strs strs \<Rightarrow> gr_value_type a = T_STRING \<and> gr_size a = length strs \<and> list_all str_ok strs
       | Arr_unset \<Rightarrow> False))"
| "value_ok V_unset = False"
| "value_ok _ = True"

type_synonym attr_desc = "string \<times> GgufAttrValue"

definition enc_attr :: "nat \<Rightarrow> attr_desc \<Rightarrow> string" where
  "enc_attr version = (\<lambda>(name, v). enc_str version name @ enc_type (value_type_of v) @ enc_value version v)"

lemma enc_attr_pair: "enc_attr version (name, v) = enc_str version name @ enc_type (value_type_of v) @ enc_value version v"
  by (simp add: enc_attr_def)

definition attr_ok :: "attr_desc \<Rightarrow> bool" where
  "attr_ok = (\<lambda>(name, v). length name \<le> 1024 \<and> value_ok v)"

definition attr_of :: "GgufAttrValue \<Rightarrow> GgufAttr" where
  "attr_of v = \<lparr>ga_value = v, ga_value_type = value_type_of v\<rparr>"

text \<open>
  The numbers of the element types that the engine has, with the bytes of a block and the elements
  it holds.
\<close>

definition ggml_type :: "nat \<Rightarrow> (ElementType \<times> nat \<times> nat) option" where
  "ggml_type = map_of
    [(0, ET_F32, 4, 1), (1, ET_F16, 2, 1), (3, ET_Q4_B32T1A, 20, 32), (7, ET_Q5_B32T1, 24, 32), (8, ET_Q8_B32T2, 34, 32)]"

definition ggml_element :: "nat \<Rightarrow> ElementType" where "ggml_element ty = fst (the (ggml_type ty))"

definition ggml_bytes :: "nat \<Rightarrow> nat" where "ggml_bytes ty = fst (snd (the (ggml_type ty)))"

definition ggml_capacity :: "nat \<Rightarrow> nat" where "ggml_capacity ty = snd (snd (the (ggml_type ty)))"

lemma ggml_type_dom: "ggml_type ty \<noteq> None \<longleftrightarrow> ty \<in> {0, 1, 3, 7, 8}"
  by (auto simp: ggml_type_def)

lemma ggml_type_code:
  assumes "ggml_type ty \<noteq> None"
  shows "ToElementType (int ty) = ggml_element ty" "BlockSize (ggml_element ty) = ggml_bytes ty"
    "BlockCapacity (ggml_element ty) = ggml_capacity ty" "ggml_element ty \<noteq> ET_Invalid"
proof -
  have "BlockSize ET_F32 = 4" "BlockSize ET_F16 = 2" by (simp_all add: BlockSize_def)
  then show "ToElementType (int ty) = ggml_element ty" "BlockSize (ggml_element ty) = ggml_bytes ty"
    "BlockCapacity (ggml_element ty) = ggml_capacity ty" "ggml_element ty \<noteq> ET_Invalid"
    using assms unfolding ggml_type_dom
    by (auto simp: ggml_element_def ggml_bytes_def ggml_capacity_def ggml_type_def ToElementType_def BlockCapacity_def capacity_defs)
qed

text \<open>A number of elements that fills whole blocks has the bytes of these blocks.\<close>

lemma ggml_byte_num:
  assumes "ggml_type ty \<noteq> None" "ggml_capacity ty dvd n"
  shows "byte_num (ggml_element ty) n = n div ggml_capacity ty * ggml_bytes ty"
proof -
  obtain k where k: "n = ggml_capacity ty * k" using assms(2) by blast
  note code = ggml_type_code [OF assms(1)]
  have pos: "0 < ggml_capacity ty" using BlockCapacity_bounds(1) [of "ggml_element ty"] code(3) by simp
  then have "(n + (ggml_capacity ty - 1)) div ggml_capacity ty = k" unfolding k by (intro div_nat_eqI) auto
  then show ?thesis using code pos k by (simp add: byte_num_def)
qed

text \<open>
  The tensor that a file's data are loaded into, for \<open>cy\<close> rows of \<open>cx\<close> elements (0 rows: a vector).
  It holds the data and nothing else when the rows fill whole blocks.
\<close>

definition matrix_tensor :: "nat \<Rightarrow> nat \<Rightarrow> nat \<Rightarrow> string \<Rightarrow> HostTensor" where
  "matrix_tensor ty cx cy d =
     \<lparr>ht_size = of_nat (cx * max 1 cy), ht_data = Some d, ht_data_type = ggml_element ty, ht_dim = (if cy = 0 then 1 else 2),
      ht_ne = [int cx, int (max 1 cy), 1], ht_bytes_per_row = of_nat (cx div ggml_capacity ty * ggml_bytes ty)\<rparr>"

lemma loaded_matrix_tensor:
  assumes "ggml_type ty \<noteq> None" "ggml_capacity ty dvd cx" "\<forall>k. length (fresh k) = k"
    "length d = cx * max 1 cy div ggml_capacity ty * ggml_bytes ty"
  shows "loaded_tensor fresh (ggml_element ty) cx cy d = matrix_tensor ty cx cy d"
proof -
  note row = ggml_byte_num [OF assms(1,2)]
  have "cx * max 1 cy div ggml_capacity ty = max 1 cy * (cx div ggml_capacity ty)"
    by (metis assms(2) div_mult_swap mult.commute)
  then have "length (fresh (max 1 cy * byte_num (ggml_element ty) cx)) = length d"
    using assms(3,4) row by (simp add: ac_simps)
  then show ?thesis by (simp add: loaded_tensor_def matrix_tensor_def row)
qed

text \<open>A tensor: name, extents, number of the element type and offset.\<close>

type_synonym tensor_desc = "string \<times> nat list \<times> nat \<times> nat"

definition enc_tensor :: "nat \<Rightarrow> tensor_desc \<Rightarrow> string" where
  "enc_tensor version = (\<lambda>(name, ne, ty, off). enc_str version name @ bytes_le 4 (length ne)
     @ concat (map (enc_size version) ne) @ bytes_le 4 ty @ bytes_le 8 off)"

definition tensor_ok :: "tensor_desc \<Rightarrow> bool" where
  "tensor_ok = (\<lambda>(name, ne, ty, off). length name \<le> 1024 \<and> length ne \<le> 3 \<and> list_all (\<lambda>n. n < 2 ^ 31) ne
     \<and> ggml_type ty \<noteq> None \<and> off < 2 ^ 64)"

definition spec_of :: "tensor_desc \<Rightarrow> TensorSpec" where
  "spec_of = (\<lambda>(name, ne, ty, off). new_TensorSpec\<lparr>ts_name := name, ts_dims := int (length ne),
     ts_ne := map int ne @ replicate (3 - length ne) 0, ts_data_type := ElementType_value (ggml_element ty),
     ts_offset_in_file := of_nat off\<rparr>)"

definition enc_header :: "nat \<Rightarrow> nat \<Rightarrow> nat \<Rightarrow> string" where
  "enc_header version tensor_num attr_num =
     bytes_le 4 GGUF_MAGIC @ bytes_le 4 version @ enc_size version tensor_num @ enc_size version attr_num"

definition enc_meta :: "nat \<Rightarrow> attr_desc list \<Rightarrow> tensor_desc list \<Rightarrow> string" where
  "enc_meta version attrs tensors =
     enc_header version (length tensors) (length attrs) @ concat (map (enc_attr version) attrs)
       @ concat (map (enc_tensor version) tensors)"

section \<open>Parts\<close>

lemma length_enc_size [simp]: "length (enc_size version n) = (if version = 1 then 4 else 8)"
  by (simp add: enc_size_def)

context byte_stream
begin

lemma parses_size:
  assumes "n < 2 ^ 31"
  shows "parses (GGUF_ReadSize rd version old) (enc_size version n) n"
proof (cases "version = 1")
  case True
  then show ?thesis using parses_le [of 4 n 0] assms
    by (simp add: GGUF_ReadSize_def [abs_def] enc_size_def)
next
  case False
  then show ?thesis using parses_le [of 8 n old] assms
    by (simp add: GGUF_ReadSize_def [abs_def] enc_size_def)
qed

end

context byte_stream
begin

lemma parses_string_raw:
  assumes "str_ok x" and fresh: "\<forall>k. length (fresh k) = k"
  shows "parses (GGUF_ReadString_raw rd fresh version) (enc_str version (gs_data x)) x"
proof (rule parsesI)
  let ?n = "length (gs_data x)"
  fix s tail
  assume s: "ok s" "rest s = enc_str version (gs_data x) @ tail"
  have n: "?n < 2 ^ 31" using assms(1) by (simp add: str_ok_def)
  obtain s1 where s1: "GGUF_ReadSize rd version 0 s = Some (True, ?n, s1)" "ok s1" "rest s1 = gs_data x @ tail"
    "tell s1 = tell s + length (enc_size version ?n)"
    using parsesE [OF parses_size [OF n] s(1), of version "gs_data x @ tail" 0] s(2) by (auto simp: enc_str_def)
  obtain s2 where "rd s1 ?n = Some (True, gs_data x, s2)" "ok s2" "rest s2 = tail" "tell s2 = tell s1 + ?n"
    using parsesE [OF parses_rd [OF n] s1(2,3)] by blast
  moreover have "x = \<lparr>gs_size = ?n, gs_data = gs_data x\<rparr>" using assms(1) by (simp add: str_ok_def)
  ultimately show "\<exists>s'. GGUF_ReadString_raw rd fresh version s = Some (True, x, s') \<and> ok s' \<and> rest s' = tail
      \<and> tell s' = tell s + length (enc_str version (gs_data x))"
    using s1 fresh by (simp add: GGUF_ReadString_raw_def enc_str_def)
qed

lemma parses_name:
  assumes "length name \<le> 1024"
  shows "parses (GGUF_ReadString rd version buf 1024) (enc_str version name) (name, name @ drop (length name) buf)"
proof (rule parsesI)
  fix s tail
  assume s: "ok s" "rest s = enc_str version name @ tail"
  have n: "length name < 2 ^ 31" using assms by simp
  obtain s1 where s1: "GGUF_ReadSize rd version 0 s = Some (True, length name, s1)" "ok s1" "rest s1 = name @ tail"
    "tell s1 = tell s + length (enc_size version (length name))"
    using parsesE [OF parses_size [OF n] s(1), of version "name @ tail" 0] s(2) by (auto simp: enc_str_def)
  obtain s2 where "rd s1 (length name) = Some (True, name, s2)" "ok s2" "rest s2 = tail" "tell s2 = tell s1 + length name"
    using parsesE [OF parses_rd [OF n] s1(2,3)] by blast
  then show "\<exists>s'. GGUF_ReadString rd version buf 1024 s = Some (True, (name, name @ drop (length name) buf), s')
      \<and> ok s' \<and> rest s' = tail \<and> tell s' = tell s + length (enc_str version name)"
    using s1 assms by (simp add: GGUF_ReadString_def enc_str_def)
qed

lemma parses_strs:
  assumes "list_all str_ok strs" and fresh: "\<forall>k. length (fresh k) = k"
  shows "parses (read_strs rd fresh version (length strs)) (enc_arr_data version (Arr_strs strs)) strs"
  using assms(1)
proof (induction strs)
  case Nil
  show ?case by (rule parsesI) simp
next
  case (Cons x strs)
  have x: "parses (GGUF_ReadString_raw rd fresh version) (enc_str version (gs_data x)) x"
    using Cons.prems fresh by (intro parses_string_raw) auto
  show ?case
  proof (rule parsesI)
    fix s tail
    assume s: "ok s" "rest s = enc_arr_data version (Arr_strs (x # strs)) @ tail"
    obtain s1 where s1: "GGUF_ReadString_raw rd fresh version s = Some (True, x, s1)" "ok s1"
      "rest s1 = enc_arr_data version (Arr_strs strs) @ tail" "tell s1 = tell s + length (enc_str version (gs_data x))"
      using parsesE [OF x s(1), of "enc_arr_data version (Arr_strs strs) @ tail"] s(2) by auto
    obtain s2 where "read_strs rd fresh version (length strs) s1 = Some (True, strs, s2)" "ok s2" "rest s2 = tail"
      "tell s2 = tell s1 + length (enc_arr_data version (Arr_strs strs))"
      using parsesE [OF Cons.IH s1(2,3)] Cons.prems by auto
    then show "\<exists>s'. read_strs rd fresh version (length (x # strs)) s = Some (True, x # strs, s') \<and> ok s' \<and> rest s' = tail
        \<and> tell s' = tell s + length (enc_arr_data version (Arr_strs (x # strs)))"
      using s1 by (simp add: and_read_def)
  qed
qed

end

lemma arr_type_cases:
  assumes "arr_type_size ty = Some n"
  shows "n \<in> {1, 2, 4, 8}" "ty \<noteq> T_STRING"
  using assms by (cases ty; simp; fail)+

lemma GgufValueType_of_value: "arr_type_size ty \<noteq> None \<or> ty \<in> {T_STRING, T_ARRAY} \<Longrightarrow>
    GgufValueType_of (GgufValueType_value ty) = ty \<and> 0 \<le> GgufValueType_value ty \<and> GgufValueType_value ty < 13"
  by (cases ty) (auto simp: GgufValueType_of_def nth_Cons')

lemma read_type: "arr_type_size ty \<noteq> None \<or> ty \<in> {T_STRING, T_ARRAY} \<Longrightarrow>
    GgufValueType_of (to_i32 (nat (GgufValueType_value ty))) = ty"
  using GgufValueType_of_value [of ty] by (subst to_i32_small) auto

context byte_stream
begin

lemma parses_type:
  assumes "arr_type_size ty \<noteq> None \<or> ty \<in> {T_STRING, T_ARRAY}"
  shows "parses (Read_le rd 4 old) (enc_type ty) (nat (GgufValueType_value ty))"
proof -
  have "nat (GgufValueType_value ty) < 256 ^ 4" using GgufValueType_of_value [OF assms] by auto
  then show ?thesis unfolding enc_type_def by (intro parses_le) auto
qed

lemma parses_arr:
  assumes "value_ok (V_arr a)" and fresh: "\<forall>k. length (fresh k) = k"
  shows "parses (read_arr rd fresh version) (enc_value version (V_arr a)) (V_arr a)"
proof (rule parsesI)
  let ?ty = "gr_value_type a" and ?data = "enc_arr_data version (gr_data a)"
  let ?len = "length (enc_type ?ty) + length (enc_size version (gr_size a))"
  fix s tail
  assume s: "ok s" "rest s = enc_value version (V_arr a) @ tail"
  have sz: "gr_size a < 2 ^ 31" and ty: "arr_type_size ?ty \<noteq> None \<or> ?ty \<in> {T_STRING, T_ARRAY}"
    using assms(1) by (auto split: GgufArrData.splits option.splits)
  obtain s1 where s1: "Read_le rd 4 0 s = Some (True, nat (GgufValueType_value ?ty), s1)" "ok s1"
    "rest s1 = enc_size version (gr_size a) @ ?data @ tail" "tell s1 = tell s + length (enc_type ?ty)"
    using parsesE [OF parses_type [OF ty] s(1), of "enc_size version (gr_size a) @ ?data @ tail"] s(2) by auto
  obtain s2 where s2: "GGUF_ReadSize rd version 0 s1 = Some (True, gr_size a, s2)" "ok s2" "rest s2 = ?data @ tail"
    "tell s2 = tell s + ?len"
    by (rule parsesE [OF parses_size [OF sz] s1(2,3), of 0]) (use s1(4) in auto)
  note read = s1(1) s2(1) read_type [OF ty]
  show "\<exists>s'. read_arr rd fresh version s = Some (True, V_arr a, s') \<and> ok s' \<and> rest s' = tail
      \<and> tell s' = tell s + length (enc_value version (V_arr a))"
  proof (cases "gr_data a")
    case (Arr_bytes bs)
    then obtain n where n: "arr_type_size ?ty = Some n" "length bs = gr_size a * n" "length bs < 2 ^ 31"
      using assms(1) by (auto split: option.splits)
    obtain s3 where "rd s2 (length bs) = Some (True, bs, s3)" "ok s3" "rest s3 = tail" "tell s3 = tell s2 + length bs"
      using parsesE [OF parses_rd [OF n(3)] s2(2)] s2(3) Arr_bytes by auto
    moreover have "gr_size a * n mod 2 ^ 64 = length bs" using n by simp
    moreover have "V_arr a = V_arr \<lparr>gr_value_type = ?ty, gr_size = gr_size a, gr_data = Arr_bytes bs\<rparr>"
      using Arr_bytes by simp
    ultimately show ?thesis using read n(1) fresh s2(4) Arr_bytes by (simp add: read_arr_def and_read_def Let_def)
  next
    case (Arr_strs strs)
    then have strs: "?ty = T_STRING" "gr_size a = length strs" "list_all str_ok strs" using assms(1) by auto
    obtain s3 where "read_strs rd fresh version (length strs) s2 = Some (True, strs, s3)" "ok s3" "rest s3 = tail"
      "tell s3 = tell s2 + length ?data"
      using parsesE [OF parses_strs [OF strs(3) fresh] s2(2)] s2(3) Arr_strs by auto
    moreover have "V_arr a = V_arr \<lparr>gr_value_type = T_STRING, gr_size = length strs, gr_data = Arr_strs strs\<rparr>"
      using Arr_strs strs by simp
    ultimately show ?thesis using read strs sz s2(4) by (simp add: read_arr_def and_read_def Let_def)
  next
    case Arr_unset
    then show ?thesis using assms(1) by simp
  qed
qed

lemma parses_num:
  assumes "n < 2 ^ 31" "k < 256 ^ n"
  shows "parses (read_num rd n con) (bytes_le n k) (con k)"
proof (rule parsesI)
  fix s tail
  assume s: "ok s" "rest s = bytes_le n k @ tail"
  show "\<exists>s'. read_num rd n con s = Some (True, con k, s') \<and> ok s' \<and> rest s' = tail \<and> tell s' = tell s + length (bytes_le n k)"
    by (rule parsesE [OF parses_le [OF assms] s, of 0]) (auto simp: read_num_def)
qed

lemma parses_word:
  assumes "n < 2 ^ 31" "unat w < 256 ^ n"
  shows "parses (read_num rd n (\<lambda>k. con (of_nat k))) (bytes_le n (unat w)) (con w)"
  using parses_num [OF assms, of "\<lambda>k. con (of_nat k)"] by simp

end

lemma ReadAttrValue_num:
  "GGUF_ReadAttrValue rd fresh T_UINT8 version = read_num rd 1 (\<lambda>k. V_u8 (of_nat k))"
  "GGUF_ReadAttrValue rd fresh T_INT8 version = read_num rd 1 (\<lambda>k. V_i8 (of_nat k))"
  "GGUF_ReadAttrValue rd fresh T_UINT16 version = read_num rd 2 (\<lambda>k. V_u16 (of_nat k))"
  "GGUF_ReadAttrValue rd fresh T_INT16 version = read_num rd 2 (\<lambda>k. V_i16 (of_nat k))"
  "GGUF_ReadAttrValue rd fresh T_UINT32 version = read_num rd 4 (\<lambda>k. V_u32 (of_nat k))"
  "GGUF_ReadAttrValue rd fresh T_INT32 version = read_num rd 4 (\<lambda>k. V_i32 (of_nat k))"
  "GGUF_ReadAttrValue rd fresh T_FLOAT32 version = read_num rd 4 (\<lambda>k. V_f32 (of_nat k))"
  "GGUF_ReadAttrValue rd fresh T_UINT64 version = read_num rd 8 (\<lambda>k. V_u64 (of_nat k))"
  "GGUF_ReadAttrValue rd fresh T_INT64 version = read_num rd 8 (\<lambda>k. V_i64 (of_nat k))"
  "GGUF_ReadAttrValue rd fresh T_FLOAT64 version = read_num rd 8 (\<lambda>k. V_f64 (of_nat k))"
  "GGUF_ReadAttrValue rd fresh T_BOOL version = read_num rd 1 (\<lambda>k. V_bval (of_nat k))"
  "GGUF_ReadAttrValue rd fresh T_ARRAY version = read_arr rd fresh version"
  by (rule ext; simp)+

lemma width_small: "(1::nat) < 2 ^ 31" "(2::nat) < 2 ^ 31" "(4::nat) < 2 ^ 31" "(8::nat) < 2 ^ 31"
  by simp_all

lemma unat_bytes:
  "unat (w8 :: u8) < 256 ^ 1" "unat (w16 :: u16) < 256 ^ 2" "unat (w32 :: u32) < 256 ^ 4" "unat (w64 :: u64) < 256 ^ 8"
  using unsigned_less [of w8, where 'a = nat] unsigned_less [of w16, where 'a = nat]
    unsigned_less [of w32, where 'a = nat] unsigned_less [of w64, where 'a = nat] by simp_all

context byte_stream
begin

lemma parses_value:
  assumes "value_ok v" and fresh: "\<forall>k. length (fresh k) = k"
  shows "parses (GGUF_ReadAttrValue rd fresh (value_type_of v) version) (enc_value version v) v"
proof (cases v)
  case (V_str x)
  then have x: "parses (GGUF_ReadString_raw rd fresh version) (enc_str version (gs_data x)) x"
    using assms by (intro parses_string_raw) auto
  show ?thesis
  proof (rule parsesI)
    fix s tail
    assume s: "ok s" "rest s = enc_value version v @ tail"
    then obtain s' where "GGUF_ReadString_raw rd fresh version s = Some (True, x, s')" "ok s'" "rest s' = tail"
      "tell s' = tell s + length (enc_str version (gs_data x))"
      using parsesE [OF x s(1)] V_str by auto
    then show "\<exists>s'. GGUF_ReadAttrValue rd fresh (value_type_of v) version s = Some (True, v, s') \<and> ok s' \<and> rest s' = tail
        \<and> tell s' = tell s + length (enc_value version v)"
      using V_str by simp
  qed
next
  case (V_arr a)
  then show ?thesis using parses_arr [OF _ fresh, of a version] assms(1) by (simp add: ReadAttrValue_num)
qed (use assms(1) unat_bytes width_small in \<open>auto simp only: value_type_of.simps enc_value.simps value_ok.simps ReadAttrValue_num
      intro!: parses_word\<close>)

end

section \<open>Attributes and tensor specifications\<close>

lemma value_type_named: "value_ok v \<Longrightarrow> arr_type_size (value_type_of v) \<noteq> None \<or> value_type_of v \<in> {T_STRING, T_ARRAY}"
  by (cases v) auto

context byte_stream
begin

lemma parses_attributes:
  assumes "list_all attr_ok attrs" and fresh: "\<forall>k. length (fresh k) = k"
  shows "parses (GGUF_ReadAttributes_loop rd fresh version (length attrs) m buf vt) (concat (map (enc_attr version) attrs))
    (fold (\<lambda>(name, v). omap_put name (attr_of v)) attrs m)"
  using assms(1)
proof (induction attrs arbitrary: m buf vt)
  case Nil
  show ?case by (rule parsesI) simp
next
  case (Cons a attrs)
  obtain name v where a: "a = (name, v)" by (cases a)
  have ih: "list_all attr_ok attrs" and ok_a: "length name \<le> 1024" "value_ok v"
    using Cons.prems a by (auto simp: attr_ok_def)
  note named = value_type_named [OF ok_a(2)]
  let ?ty = "value_type_of v" and ?rest = "concat (map (enc_attr version) attrs)"
  show ?case
  proof (rule parsesI)
    fix s tail
    assume s: "ok s" "rest s = concat (map (enc_attr version) (a # attrs)) @ tail"
    obtain s1 buf1 where s1: "GGUF_ReadString rd version buf 1024 s = Some (True, (name, buf1), s1)" "ok s1"
      "rest s1 = enc_type ?ty @ enc_value version v @ ?rest @ tail" "tell s1 = tell s + length (enc_str version name)"
      by (rule parsesE [OF parses_name [OF ok_a(1)] s(1), of version "enc_type ?ty @ enc_value version v @ ?rest @ tail" buf])
        (use s(2) a in \<open>auto simp: enc_attr_pair\<close>)
    obtain s2 where s2: "Read_le rd 4 vt s1 = Some (True, nat (GgufValueType_value ?ty), s2)" "ok s2"
      "rest s2 = enc_value version v @ ?rest @ tail" "tell s2 = tell s1 + length (enc_type ?ty)"
      using parsesE [OF parses_type [OF named] s1(2,3)] by blast
    obtain s3 where s3: "GGUF_ReadAttrValue rd fresh ?ty version s2 = Some (True, v, s3)" "ok s3" "rest s3 = ?rest @ tail"
      "tell s3 = tell s2 + length (enc_value version v)"
      using parsesE [OF parses_value [OF ok_a(2) fresh] s2(2,3)] by blast
    obtain s4 where "GGUF_ReadAttributes_loop rd fresh version (length attrs) (omap_put name (attr_of v) m) buf1
          (nat (GgufValueType_value ?ty)) s3
        = Some (True, fold (\<lambda>(name, v). omap_put name (attr_of v)) attrs (omap_put name (attr_of v) m), s4)"
      "ok s4" "rest s4 = tail" "tell s4 = tell s3 + length ?rest"
      using parsesE [OF Cons.IH [OF ih] s3(2,3)] by blast
    then show "\<exists>s'. GGUF_ReadAttributes_loop rd fresh version (length (a # attrs)) m buf vt s
          = Some (True, fold (\<lambda>(name, v). omap_put name (attr_of v)) (a # attrs) m, s') \<and> ok s' \<and> rest s' = tail
        \<and> tell s' = tell s + length (concat (map (enc_attr version) (a # attrs)))"
      using s1 s2 s3 a read_type [OF named] by (simp add: and_read_def Let_def attr_of_def enc_attr_pair)
  qed
qed

lemma read_dims_enc:
  assumes "list_all (\<lambda>n. n < 2 ^ 31) ns" "dim + length ns \<le> 3" "length spec = 3"
    "ok s" "rest s = concat (map (enc_size version) ns) @ tail"
  shows "\<exists>ne' s'. read_dims rd version dim (length ns) ne spec s
      = Some (ne', take dim spec @ map int ns @ drop (dim + length ns) spec, s') \<and> ok s' \<and> rest s' = tail
    \<and> tell s' = tell s + length (concat (map (enc_size version) ns))"
  using assms
proof (induction ns arbitrary: dim ne spec s)
  case (Cons n ns)
  obtain s1 where s1: "GGUF_ReadSize rd version (ne ! dim) s = Some (True, n, s1)" "ok s1"
    "rest s1 = concat (map (enc_size version) ns) @ tail" "tell s1 = tell s + length (enc_size version n)"
    by (rule parsesE [OF parses_size Cons.prems(4), of n version "concat (map (enc_size version) ns) @ tail" "ne ! dim"])
      (use Cons.prems in auto)
  obtain ne' s' where s': "read_dims rd version (dim + 1) (length ns) (ne[dim := n]) (spec[dim := int n]) s1
      = Some (ne', take (dim + 1) (spec[dim := int n]) @ map int ns @ drop (dim + 1 + length ns) (spec[dim := int n]), s')"
    "ok s'" "rest s' = tail" "tell s' = tell s1 + length (concat (map (enc_size version) ns))"
    using Cons.IH [of "dim + 1" "spec[dim := int n]" s1 "ne[dim := n]"] Cons.prems s1 by auto
  have "take (Suc dim) (spec[dim := int n]) = take dim spec @ [int n]"
    using Cons.prems(2,3) by (simp add: take_Suc_conv_app_nth)
  moreover have "dim < MaxDimCount" "n < 2 ^ 31" using Cons.prems by (auto simp: MaxDimCount_def)
  ultimately show ?case using s1 s' by simp
qed simp

end

lemma enc_tensor_tuple: "enc_tensor version (name, ne, ty, off) =
    enc_str version name @ bytes_le 4 (length ne) @ concat (map (enc_size version) ne) @ bytes_le 4 ty @ bytes_le 8 off"
  by (simp add: enc_tensor_def)

context byte_stream
begin

lemma parses_tensor_specs:
  assumes "list_all tensor_ok tensors"
  shows "parses (GGUF_ReadTensorSpecTable_loop rd version (length tensors) table buf ne) (concat (map (enc_tensor version) tensors))
    (fold (\<lambda>t table. snd (TST_Add table (spec_of t))) tensors table)"
  using assms
proof (induction tensors arbitrary: table buf ne)
  case Nil
  show ?case by (rule parsesI) simp
next
  case (Cons t tensors)
  obtain name dims ty off where t: "t = (name, dims, ty, off)" by (cases t)
  have ih: "list_all tensor_ok tensors" and t_ok: "length name \<le> 1024" "length dims \<le> 3" "list_all (\<lambda>n. n < 2 ^ 31) dims"
    "ggml_type ty \<noteq> None" "off < 256 ^ 8"
    using Cons.prems t by (auto simp: tensor_ok_def)
  have small: "length dims < 256 ^ 4" "ty < 256 ^ 4" "to_i32 (length dims) = int (length dims)" "to_i32 ty = int ty"
    using t_ok(2,4) unfolding ggml_type_dom by auto
  have zeros: "drop (length dims) [0, 0, 0 :: int] = replicate (3 - length dims) 0"
    using drop_replicate [of "length dims" 3 "0 :: int"] by (simp add: numeral_3_eq_3)
  let ?rest = "concat (map (enc_tensor version) tensors)"
  let ?offs = "bytes_le 8 off @ ?rest"
  let ?types = "bytes_le 4 ty @ ?offs"
  let ?extents = "concat (map (enc_size version) dims) @ ?types"
  show ?case
  proof (rule parsesI)
    fix s tail
    assume s: "ok s" "rest s = concat (map (enc_tensor version) (t # tensors)) @ tail"
    obtain s1 buf1 where s1: "GGUF_ReadString rd version buf 1024 s = Some (True, (name, buf1), s1)" "ok s1"
      "rest s1 = bytes_le 4 (length dims) @ ?extents @ tail" "tell s1 = tell s + length (enc_str version name)"
      by (rule parsesE [OF parses_name [OF t_ok(1)] s(1), of version "bytes_le 4 (length dims) @ ?extents @ tail" buf])
        (use s(2) t in \<open>auto simp: enc_tensor_tuple\<close>)
    obtain s2 where s2: "Read_le rd 4 0 s1 = Some (True, length dims, s2)" "ok s2" "rest s2 = ?extents @ tail"
      "tell s2 = tell s1 + length (bytes_le 4 (length dims))"
      using parsesE [OF parses_le [OF width_small(3) small(1)] s1(2,3)] by blast
    obtain ne1 s3 where s3: "read_dims rd version 0 (length dims) ne [0, 0, 0] s2
        = Some (ne1, map int dims @ replicate (3 - length dims) 0, s3)" "ok s3" "rest s3 = bytes_le 4 ty @ ?offs @ tail"
      "tell s3 = tell s2 + length (concat (map (enc_size version) dims))"
      using read_dims_enc [OF t_ok(3), of 0 "[0, 0, 0]" s2 version "?types @ tail" ne] t_ok(2) s2(2,3) zeros by auto
    obtain s4 where s4: "Read_le rd 4 0 s3 = Some (True, ty, s4)" "ok s4" "rest s4 = bytes_le 8 off @ ?rest @ tail"
      "tell s4 = tell s3 + length (bytes_le 4 ty)"
      by (rule parsesE [OF parses_le [OF width_small(3) small(2)] s3(2), of "?offs @ tail" 0]) (use s3(3) in auto)
    obtain s5 where s5: "Read_le rd 8 0 s4 = Some (True, off, s5)" "ok s5" "rest s5 = ?rest @ tail"
      "tell s5 = tell s4 + length (bytes_le 8 off)"
      using parsesE [OF parses_le [OF width_small(4) t_ok(5)] s4(2,3)] by blast
    obtain s6 where "GGUF_ReadTensorSpecTable_loop rd version (length tensors) (snd (TST_Add table (spec_of t))) buf1 ne1 s5
        = Some (True, fold (\<lambda>t table. snd (TST_Add table (spec_of t))) tensors (snd (TST_Add table (spec_of t))), s6)"
      "ok s6" "rest s6 = tail" "tell s6 = tell s5 + length ?rest"
      using parsesE [OF Cons.IH [OF ih] s5(2,3)] by blast
    moreover have "new_TensorSpec\<lparr>ts_name := name, ts_dims := int (length dims),
        ts_ne := map int dims @ replicate (3 - length dims) 0,
        ts_data_type := ElementType_value (ToElementType (int ty)), ts_offset_in_file := of_nat off\<rparr> = spec_of t"
      using t ggml_type_code(1) [OF t_ok(4)] by (simp add: spec_of_def)
    ultimately show "\<exists>s'. GGUF_ReadTensorSpecTable_loop rd version (length (t # tensors)) table buf ne s
          = Some (True, fold (\<lambda>t table. snd (TST_Add table (spec_of t))) (t # tensors) table, s') \<and> ok s' \<and> rest s' = tail
        \<and> tell s' = tell s + length (concat (map (enc_tensor version) (t # tensors)))"
      using s1 s2 s3 s4 s5 t small(3,4) ggml_type_code(1,4) [OF t_ok(4)]
      by (simp add: and_read_def Let_def enc_tensor_tuple)
  qed
qed

lemma parses_header:
  assumes "version < 2 ^ 32" "tensor_num < 2 ^ 31" "attr_num < 2 ^ 31"
  shows "parses (GGUF_ReadHeader rd) (enc_header version tensor_num attr_num)
    \<lparr>gh_magic = GGUF_MAGIC, gh_version = version, gh_tensor_num = tensor_num, gh_attr_num = attr_num\<rparr>"
proof (rule parsesI)
  let ?w = "if version = 1 then 4 else 8 :: nat"
  fix s tail
  assume s: "ok s" "rest s = enc_header version tensor_num attr_num @ tail"
  have k: "GGUF_MAGIC < 256 ^ 4" "version < 256 ^ 4" "tensor_num < 256 ^ ?w" "attr_num < 256 ^ ?w" "?w < 2 ^ 31"
    using assms by (auto simp: GGUF_MAGIC_def)
  obtain s1 where s1: "Read_le rd 4 0 s = Some (True, GGUF_MAGIC, s1)" "ok s1"
    "rest s1 = bytes_le 4 version @ bytes_le ?w tensor_num @ bytes_le ?w attr_num @ tail" "tell s1 = tell s + 4"
    by (rule parsesE [OF parses_le [OF width_small(3) k(1)] s(1), of "bytes_le 4 version @ bytes_le ?w tensor_num @ bytes_le ?w attr_num @ tail" 0])
      (use s(2) in \<open>auto simp: enc_header_def enc_size_def\<close>)
  obtain s2 where s2: "Read_le rd 4 2 s1 = Some (True, version, s2)" "ok s2"
    "rest s2 = bytes_le ?w tensor_num @ bytes_le ?w attr_num @ tail" "tell s2 = tell s1 + length (bytes_le 4 version)"
    using parsesE [OF parses_le [OF width_small(3) k(2)] s1(2,3)] by blast
  obtain s3 where s3: "Read_le rd ?w 0 s2 = Some (True, tensor_num, s3)" "ok s3" "rest s3 = bytes_le ?w attr_num @ tail"
    "tell s3 = tell s2 + length (bytes_le ?w tensor_num)"
    using parsesE [OF parses_le [OF k(5) k(3)] s2(2,3)] by blast
  obtain s4 where "Read_le rd ?w 0 s3 = Some (True, attr_num, s4)" "ok s4" "rest s4 = tail"
    "tell s4 = tell s3 + length (bytes_le ?w attr_num)"
    using parsesE [OF parses_le [OF k(5) k(4)] s3(2,3)] by blast
  then show "\<exists>s'. GGUF_ReadHeader rd s = Some (True, \<lparr>gh_magic = GGUF_MAGIC, gh_version = version,
        gh_tensor_num = tensor_num, gh_attr_num = attr_num\<rparr>, s') \<and> ok s' \<and> rest s' = tail
      \<and> tell s' = tell s + length (enc_header version tensor_num attr_num)"
    using s1 s2 s3 by (auto simp: GGUF_ReadHeader_def and_read_def Let_def enc_header_def enc_size_def)
qed

end

section \<open>Tensor data\<close>

definition extent_x :: "tensor_desc \<Rightarrow> nat" where
  "extent_x = (\<lambda>(name, ne, ty, off). ne ! 0)"

definition extent_y :: "tensor_desc \<Rightarrow> nat" where
  "extent_y = (\<lambda>(name, ne, ty, off). if length ne > 1 then ne ! 1 else 0)"

definition element_type :: "tensor_desc \<Rightarrow> ElementType" where
  "element_type = (\<lambda>(name, ne, ty, off). ggml_element ty)"

text \<open>
  The size of a tensor's data, for all its elements: rows fill whole blocks. A tensor that the engine
  has memory for has one or two dimensions, or a third extent of 1.
\<close>

definition tensor_size :: "tensor_desc \<Rightarrow> nat" where
  "tensor_size = (\<lambda>(name, ne, ty, off). prod_list ne div ggml_capacity ty * ggml_bytes ty)"

definition shape_ok :: "tensor_desc \<Rightarrow> bool" where
  "shape_ok = (\<lambda>(name, ne, ty, off). ne \<noteq> [] \<and> list_all (\<lambda>n. 0 < n) ne \<and> (length ne > 2 \<longrightarrow> ne ! 2 = 1)
     \<and> ggml_capacity ty dvd ne ! 0 \<and> prod_list ne < 2 ^ 31 \<and> prod_list ne div ggml_capacity ty * ggml_bytes ty < 2 ^ 31)"

definition data_ok :: "tensor_desc \<Rightarrow> string \<Rightarrow> bool" where
  "data_ok t d \<longleftrightarrow> fst (snd t) \<noteq> [] \<and> 0 < extent_x t \<and> extent_x t * max 1 (extent_y t) < 2 ^ 31
     \<and> length d = byte_num (element_type t) (extent_x t * max 1 (extent_y t)) \<and> length d < 2 ^ 31"

definition gguf_tensor :: "tensor_desc \<Rightarrow> string \<Rightarrow> HostTensor" where
  "gguf_tensor t d = matrix_tensor (fst (snd (snd t))) (extent_x t) (extent_y t) d"

lemma shape_data_ok:
  assumes "tensor_ok t" "shape_ok t" "length d = tensor_size t"
  shows "data_ok t d \<and> ((\<forall>k. length (fresh k) = k) \<longrightarrow>
    loaded_tensor fresh (element_type t) (extent_x t) (extent_y t) d = gguf_tensor t d)"
proof -
  obtain name ne ty off where t: "t = (name, ne, ty, off)" by (cases t)
  have ne: "ne \<noteq> []" "length ne \<le> 3" "list_all (\<lambda>n. 0 < n) ne" "length ne > 2 \<longrightarrow> ne ! 2 = 1" and ty: "ggml_type ty \<noteq> None"
    using assms(1,2) t by (auto simp: tensor_ok_def shape_ok_def)
  consider x where "ne = [x]" | x y where "ne = [x, y]" | x y where "ne = [x, y, 1]"
    using ne(1,2,4) by (cases ne; cases "tl ne"; cases "tl (tl ne)") auto
  then have elems: "extent_x t * max 1 (extent_y t) = prod_list ne" "0 < extent_x t" "ne ! 0 dvd prod_list ne"
    using ne(3) t by (cases; simp add: extent_x_def extent_y_def)+
  have "ggml_capacity ty dvd prod_list ne" using assms(2) t elems(3) by (auto simp: shape_ok_def intro: dvd_trans)
  then have "data_ok t d"
    using ggml_byte_num [OF ty] assms elems t ne(1) by (simp add: data_ok_def tensor_size_def element_type_def shape_ok_def)
  moreover have "loaded_tensor fresh (element_type t) (extent_x t) (extent_y t) d = gguf_tensor t d"
    if "\<forall>k. length (fresh k) = k"
  proof -
    have "ggml_capacity ty dvd extent_x t" using assms(2) t by (simp add: shape_ok_def extent_x_def)
    from loaded_matrix_tensor [OF ty this that, of d "extent_y t"] show ?thesis
      using assms(3) elems(1) t by (simp add: element_type_def gguf_tensor_def tensor_size_def)
  qed
  ultimately show ?thesis by blast
qed

definition tensor_of :: "(nat \<Rightarrow> string) \<Rightarrow> tensor_desc \<Rightarrow> string \<Rightarrow> HostTensor" where
  "tensor_of fresh t d = loaded_tensor fresh (element_type t) (extent_x t) (extent_y t) d"

primrec put_from :: "int \<Rightarrow> 'v list \<Rightarrow> (int, 'v option) omap \<Rightarrow> (int, 'v option) omap" where
  "put_from i [] m = m"
| "put_from i (x # xs) m = put_from (i + 1) xs (omap_put i (Some x) m)"

lemma find_put_from:
  "omap_find (put_from i xs m) k = (if i \<le> k \<and> k < i + int (length xs) then Some (Some (xs ! nat (k - i))) else omap_find m k)"
proof (induction xs arbitrary: i m)
  case (Cons x xs)
  show ?case
  proof (cases "k = i")
    case True
    then show ?thesis using Cons by (simp add: omap_find_put)
  next
    case False
    have "nat (k - i) = Suc (nat (k - (i + 1)))" if "i < k" using that by simp
    then show ?thesis using Cons False by (auto simp: omap_find_put)
  qed
qed auto

lemma spec_of_fields:
  assumes "tensor_ok t" "fst (snd t) \<noteq> []"
  shows "ts_ne (spec_of t) ! 0 = int (extent_x t)" "ts_ne (spec_of t) ! 1 = int (extent_y t)"
    "ElementType_of (ts_data_type (spec_of t)) = element_type t"
proof -
  obtain name ne ty off where t: "t = (name, ne, ty, off)" by (cases t)
  have ne: "ne \<noteq> []" "length ne \<le> 3" and ty: "ty \<in> {0, 1, 3, 7, 8}"
    using assms t unfolding ggml_type_dom [symmetric] by (auto simp: tensor_ok_def)
  then show "ts_ne (spec_of t) ! 0 = int (extent_x t)" "ts_ne (spec_of t) ! 1 = int (extent_y t)"
    using t by (auto simp: spec_of_def extent_x_def extent_y_def nth_append)
  show "ElementType_of (ts_data_type (spec_of t)) = element_type t"
    using ty t by (auto simp: spec_of_def element_type_def ggml_element_def ggml_type_def ElementType_of_def)
qed

context byte_stream
begin

lemma parses_tensors:
  assumes "list_all2 data_ok tensors ds" "list_all tensor_ok tensors" and fresh: "\<forall>k. length (fresh k) = k"
  shows "parses (gguf_read_tensors rd fresh (map spec_of tensors) i m) (concat ds)
    (put_from i (map2 (tensor_of fresh) tensors ds) m)"
  using assms(1,2)
proof (induction tensors ds arbitrary: i m rule: list_all2_induct)
  case Nil
  show ?case by (rule parsesI) simp
next
  case (Cons t tensors d ds)
  then have t: "data_ok t d" "tensor_ok t" and ih: "list_all tensor_ok tensors" by simp_all
  have one: "parses (ReadTensor rd fresh (element_type t) (int (extent_x t)) (int (extent_y t))) d (tensor_of fresh t d)"
    unfolding tensor_of_def using t(1) fresh by (intro parses_ReadTensor) (auto simp: data_ok_def)
  have fields: "ts_ne (spec_of t) ! 0 = int (extent_x t)" "ts_ne (spec_of t) ! 1 = int (extent_y t)"
    "ElementType_of (ts_data_type (spec_of t)) = element_type t"
    using spec_of_fields [OF t(2)] t(1) by (simp_all add: data_ok_def)
  show ?case
  proof (rule parsesI)
    fix s tail
    assume s: "ok s" "rest s = concat (d # ds) @ tail"
    obtain s1 where s1: "ReadTensor rd fresh (element_type t) (int (extent_x t)) (int (extent_y t)) s
        = Some (True, tensor_of fresh t d, s1)" "ok s1" "rest s1 = concat ds @ tail" "tell s1 = tell s + length d"
      by (rule parsesE [OF one s(1), of "concat ds @ tail"]) (use s(2) in auto)
    obtain s2 where "gguf_read_tensors rd fresh (map spec_of tensors) (i + 1) (omap_put i (Some (tensor_of fresh t d)) m) s1
        = Some (True, put_from (i + 1) (map2 (tensor_of fresh) tensors ds) (omap_put i (Some (tensor_of fresh t d)) m), s2)"
      "ok s2" "rest s2 = tail" "tell s2 = tell s1 + length (concat ds)"
      using parsesE [OF Cons.IH [OF ih] s1(2,3)] by blast
    then show "\<exists>s'. gguf_read_tensors rd fresh (map spec_of (t # tensors)) i m s
          = Some (True, put_from i (map2 (tensor_of fresh) (t # tensors) (d # ds)) m, s') \<and> ok s' \<and> rest s' = tail
        \<and> tell s' = tell s + length (concat (d # ds))"
      using s1 fields by (simp add: Let_def)
  qed
qed

end

text \<open>Tensors with distinct names are entered in their order.\<close>

lemma table_of_distinct:
  assumes "distinct (map fst tensors)" "\<forall>t \<in> set tensors. omap_find (name2idx table) (fst t) = None"
  shows "tensor_array_of (fold (\<lambda>t table. snd (TST_Add table (spec_of t))) tensors table)
    = tensor_array_of table @ map spec_of tensors"
  using assms
proof (induction tensors arbitrary: table)
  case (Cons t tensors)
  have name: "ts_name (spec_of t) = fst t" by (simp add: spec_of_def split: prod.splits)
  let ?table = "snd (TST_Add table (spec_of t))"
  have "tensor_array_of ?table = tensor_array_of table @ [spec_of t]"
    "name2idx ?table = omap_put (fst t) (int (length (tensor_array_of table))) (name2idx table)"
    using Cons.prems(2) name by (simp_all add: TST_Add_def Let_def)
  moreover from this(2) have "\<forall>t' \<in> set tensors. omap_find (name2idx ?table) (fst t') = None"
    using Cons.prems by (auto simp: omap_find_put image_iff)
  ultimately show ?case using Cons.IH [of ?table] Cons.prems(1) by simp
qed simp

section \<open>Vocabulary and hyper-parameters\<close>

definition attrs_map :: "attr_desc list \<Rightarrow> attr_map" where
  "attrs_map attrs = fold (\<lambda>(name, v). omap_put name (attr_of v)) attrs []"

text \<open>
  The attributes of a file by their names: the last one of a name counts. An integer that is
  missing (or has another type) is -1, a missing string is empty.
\<close>

definition attr_value :: "attr_desc list \<Rightarrow> string \<Rightarrow> GgufAttrValue option" where
  "attr_value attrs = map_of (rev attrs)"

definition attr_int :: "attr_desc list \<Rightarrow> string \<Rightarrow> int" where
  "attr_int attrs name = (case attr_value attrs name of
     Some (V_u32 w) \<Rightarrow> sint w | Some (V_i32 w) \<Rightarrow> sint w | Some (V_u16 w) \<Rightarrow> uint w | Some (V_i16 w) \<Rightarrow> sint w | _ \<Rightarrow> -1)"

definition attr_str :: "attr_desc list \<Rightarrow> string \<Rightarrow> string" where
  "attr_str attrs name = (case attr_value attrs name of Some (V_str x) \<Rightarrow> gs_data x | _ \<Rightarrow> [])"

definition attr_arr :: "attr_desc list \<Rightarrow> string \<Rightarrow> GgufArr option" where
  "attr_arr attrs name = (case attr_value attrs name of Some (V_arr arr) \<Rightarrow> Some arr | _ \<Rightarrow> None)"

lemma find_attrs_map: "omap_find (attrs_map attrs) name = map_option attr_of (attr_value attrs name)"
  unfolding attrs_map_def attr_value_def
  by (induction attrs rule: rev_induct) (auto simp: omap_find_put split_beta)

lemma GetAttrValue_I32_eq: "GGUF_GetAttrValue_I32 (attrs_map attrs) name = attr_int attrs name"
  by (auto simp: GGUF_GetAttrValue_I32_def attr_int_def find_attrs_map attr_of_def split: option.split GgufAttrValue.split)

lemma GetAttrValue_Arr_eq: "GGUF_GetAttrValue_Arr (attrs_map attrs) name = attr_arr attrs name"
  by (auto simp: GGUF_GetAttrValue_Arr_def attr_arr_def find_attrs_map attr_of_def split: option.split GgufAttrValue.split)

lemma GetAttrValue_Str_eq:
  assumes "list_all attr_ok attrs"
  shows "GGUF_GetAttrValue_Str (attrs_map attrs) name = attr_str attrs name"
proof -
  have "str_ok x" if "attr_value attrs name = Some (V_str x)" for x
    using that assms map_of_SomeD [of "rev attrs" name] by (auto simp: attr_value_def attr_ok_def list_all_iff)
  then show ?thesis
    by (auto simp: GGUF_GetAttrValue_Str_def attr_str_def find_attrs_map attr_of_def str_ok_def split: option.split GgufAttrValue.split)
qed

definition word_arr_ok :: "nat \<Rightarrow> GgufArr option \<Rightarrow> bool" where
  "word_arr_ok n a \<longleftrightarrow> (case a of None \<Rightarrow> True
     | Some arr \<Rightarrow> (case gr_data arr of Arr_bytes bs \<Rightarrow> 4 * n \<le> length bs | _ \<Rightarrow> False))"

text \<open>The token arrays of a file that the vocabulary can be read from.\<close>

definition tokens_ok :: "attr_desc list \<Rightarrow> GgufStr list \<Rightarrow> bool" where
  "tokens_ok attrs strs \<longleftrightarrow>
     (\<exists>ty. attr_arr attrs ''tokenizer.ggml.tokens'' = Some \<lparr>gr_value_type = ty, gr_size = length strs, gr_data = Arr_strs strs\<rparr>)
     \<and> length strs < 2 ^ 31 \<and> list_all str_ok strs
     \<and> word_arr_ok (length strs) (attr_arr attrs ''tokenizer.ggml.scores'')
     \<and> word_arr_ok (length strs) (attr_arr attrs ''tokenizer.ggml.token_type'')"

text \<open>Number \<open>i\<close> of an array of 4-byte numbers; without the array the number is 0.\<close>

definition word_at :: "GgufArr option \<Rightarrow> nat \<Rightarrow> nat" where
  "word_at a i = (case a of
     Some arr \<Rightarrow> (case gr_data arr of Arr_bytes bs \<Rightarrow> le_nat (take 4 (drop (4 * i) bs)) | _ \<Rightarrow> 0) | None \<Rightarrow> 0)"

definition token_of :: "attr_desc list \<Rightarrow> GgufStr list \<Rightarrow> nat \<Rightarrow> u32 Token" where
  "token_of attrs strs i =
     \<lparr>tk_id = int i, tk_str = replace_rest [CHR 0xE2, CHR 0x96, CHR 0x81] '' '' (gs_data (strs ! i)),
      tk_score = of_nat (word_at (attr_arr attrs ''tokenizer.ggml.scores'') i),
      tk_type = to_i32 (word_at (attr_arr attrs ''tokenizer.ggml.token_type'') i)\<rparr>"

lemma arr_word_ok: "word_arr_ok n (Some arr) \<Longrightarrow> i < n \<Longrightarrow> arr_word arr i = Some (word_at (Some arr) i)"
  by (auto simp: word_arr_ok_def word_at_def arr_word_def split: GgufArrData.splits)

lemma key2_bytes: "ToUtf8 [0x2581] = [CHR 0xE2, CHR 0x96, CHR 0x81]" "c_str (ToUtf8 [0x2581]) = ToUtf8 [0x2581]"
proof -
  show bytes: "ToUtf8 [0x2581] = [CHR 0xE2, CHR 0x96, CHR 0x81]"
    by (simp add: ToUtf8_def Ucs2ToUtf8_char_def Let_def drop_bit_eq_div char_of_def and_low [of _ 6, simplified] bit_0)
  show "c_str (ToUtf8 [0x2581]) = ToUtf8 [0x2581]" unfolding bytes by (rule c_str_id) simp
qed

lemma gguf_token_ok:
  assumes "tokens_ok attrs strs" "i < length strs"
  shows "gguf_token \<lparr>gr_value_type = ty, gr_size = length strs, gr_data = Arr_strs strs\<rparr>
      (attr_arr attrs ''tokenizer.ggml.scores'') (attr_arr attrs ''tokenizer.ggml.token_type'') 0 i
    = Some (True, token_of attrs strs i)"
proof -
  let ?scores = "attr_arr attrs ''tokenizer.ggml.scores''"
  let ?types = "attr_arr attrs ''tokenizer.ggml.token_type''"
  have "str_ok (strs ! i)" using assms by (simp add: tokens_ok_def list_all_length)
  then have "take (gs_size (strs ! i)) (gs_data (strs ! i)) = gs_data (strs ! i)" by (simp add: str_ok_def)
  moreover have "(case ?scores of None \<Rightarrow> Some (0 :: u32) | Some a \<Rightarrow> map_option of_nat (arr_word a i)) = Some (of_nat (word_at ?scores i))"
    using assms arr_word_ok by (cases ?scores) (auto simp: tokens_ok_def word_at_def)
  moreover have "(case ?types of None \<Rightarrow> Some 0 | Some a \<Rightarrow> map_option to_i32 (arr_word a i)) = Some (to_i32 (word_at ?types i))"
    using assms arr_word_ok by (cases ?types) (auto simp: tokens_ok_def word_at_def)
  moreover have "ReplaceAll x (ToUtf8 [0x2581]) '' '' = Some (replace_rest (ToUtf8 [0x2581]) '' '' x)" for x
    using ReplaceAll_eq [of "ToUtf8 [0x2581]" x "'' ''"] key2_bytes by (simp add: c_str_id)
  ultimately show ?thesis using assms(2) by (simp add: gguf_token_def arr_str_def token_of_def Let_def key2_bytes(1))
qed

lemma fold_update_all: "n \<le> length a \<Longrightarrow> fold (\<lambda>i a. a[i := f i]) [0..<n] a = map f [0..<n] @ drop n a"
proof (induction n)
  case (Suc n)
  then have "drop n a = a ! n # drop (Suc n) a" by (simp add: Cons_nth_drop_Suc)
  with Suc show ?case by (simp add: list_update_append)
qed simp

lemma GGUF_ReadVocabulary_loop_ok:
  assumes "\<forall>i \<in> set ids. gguf_token tokens scores types mapping i = Some (True, tok i)"
  shows "GGUF_ReadVocabulary_loop tokens scores types mapping ids vocab =
    Some (True, vocab\<lparr>token_array := fold (\<lambda>i a. a[i := tok i]) ids (token_array vocab),
      str_to_id := fold (\<lambda>i. omap_put (tk_str (tok i)) (tk_id (tok i))) ids (str_to_id vocab)\<rparr>)"
  using assms by (induction ids arbitrary: vocab) (auto simp: Let_def)

lemma GGUF_ReadVocabulary_ok:
  assumes "tokens_ok attrs strs"
  shows "\<exists>vocab'. GGUF_ReadVocabulary (attrs_map attrs) 0 vocab = Some (True, vocab')
    \<and> token_array vocab' = map (token_of attrs strs) [0..<length strs]
    \<and> str_to_id vocab' = fold (\<lambda>i. omap_put (tk_str (token_of attrs strs i)) (int i)) [0..<length strs] []"
proof -
  obtain ty where ty: "attr_arr attrs ''tokenizer.ggml.tokens''
      = Some \<lparr>gr_value_type = ty, gr_size = length strs, gr_data = Arr_strs strs\<rparr>" "length strs < 2 ^ 31"
    using assms by (auto simp: tokens_ok_def)
  have "tk_id (token_of attrs strs i) = int i" for i by (simp add: token_of_def)
  moreover have "fold (\<lambda>i a. a[i := token_of attrs strs i]) [0..<length strs] (replicate (length strs) z)
      = map (token_of attrs strs) [0..<length strs]" for z
    using fold_update_all [of "length strs" "replicate (length strs) z" "token_of attrs strs"] by simp
  ultimately show ?thesis
    using ty gguf_token_ok [OF assms, of _ ty]
      GGUF_ReadVocabulary_loop_ok [of "[0..<length strs]" _ _ _ _ "token_of attrs strs"]
    by (simp add: GGUF_ReadVocabulary_def GetAttrValue_Arr_eq Let_def Vocab_Clear_def)
qed

lemma BuildAttrName_eq:
  "GGUF_BuildAttrName name_template arch = Some (replace_rest ''%s'' (c_str arch) name_template)"
  unfolding GGUF_BuildAttrName_def by (subst ReplaceAll_eq) (simp_all add: c_str_def)

text \<open>
  The hyper-parameters of a file, from the attributes of its architecture. The two numbers of heads
  are exchanged, as the reader has them.
\<close>

definition hparams_of :: "attr_desc list \<Rightarrow> nat \<Rightarrow> ModelHyperParams \<Rightarrow> ModelHyperParams" where
  "hparams_of attrs vocab_size h =
     (let arch = c_str (attr_str attrs ''general.architecture'')
      in h\<lparr>hp_vocab_size := int vocab_size,
           hp_training_context_len := attr_int attrs (arch @ ''.context_length''),
           hp_embd_dims := attr_int attrs (arch @ ''.embedding_length''),
           hp_hidden_dim := attr_int attrs (arch @ ''.feed_forward_length''),
           hp_decoder_kv_heads := (if 0 < attr_int attrs (arch @ ''.attention.head_count'')
             then attr_int attrs (arch @ ''.attention.head_count'') else hp_decoder_heads h),
           hp_decoder_heads := attr_int attrs (arch @ ''.attention.head_count_kv''),
           hp_decoder_layers := attr_int attrs (arch @ ''.block_count'')\<rparr>)"

lemma GGUF_ReadHyperParams_ok:
  assumes "list_all attr_ok attrs" "tokens_ok attrs strs"
  shows "GGUF_ReadHyperParams (attrs_map attrs) h = Some (hparams_of attrs (length strs) h)"
proof -
  have "\<exists>ty. attr_arr attrs ''tokenizer.ggml.tokens'' = Some \<lparr>gr_value_type = ty, gr_size = length strs, gr_data = Arr_strs strs\<rparr>"
    "length strs < 2 ^ 31" using assms(2) by (simp_all add: tokens_ok_def)
  then show ?thesis
    by (auto simp: GGUF_ReadHyperParams_def hparams_of_def GetAttrValue_Str_eq [OF assms(1)] GetAttrValue_I32_eq GetAttrValue_Arr_eq
        BuildAttrName_eq Let_def replace_rest.simps)
qed

section \<open>Whole files\<close>

definition alignment_ok :: "attr_map \<Rightarrow> u32 \<Rightarrow> bool" where
  "alignment_ok attr_map a \<longleftrightarrow> 0 < sint a \<and>
     (case omap_find attr_map ''general.alignment'' of None \<Rightarrow> a = 32 | Some attr \<Rightarrow> attr = attr_of (V_u32 a))"

definition padding :: "nat \<Rightarrow> nat \<Rightarrow> nat" where
  "padding a n = (if n mod a = 0 then 0 else a - n mod a)"

lemma unat_scast_pos:
  assumes "0 < sint (a :: u32)"
  shows "unat (scast a :: u64) = unat a" "0 < unat a"
proof -
  have range: "sint a < 2 ^ 31" using sint_less [of a] by simp
  have "uint a = sint a mod 2 ^ 32" by (simp add: uint_sint take_bit_eq_mod)
  then have ua: "uint a = sint a" using assms range by simp
  have "uint (scast a :: u64) = sint a mod 2 ^ 64"
    by (subst scast_eq, subst uint_word_of_int) simp
  then have "uint (scast a :: u64) = sint a" using assms range by simp
  then show "unat (scast a :: u64) = unat a" "0 < unat a"
    using ua assms by (simp_all add: unat_eq_nat_uint)
qed

lemma skip_padding_ok:
  assumes "plain_stream s" "rest_of s = pad @ tail" "length pad = padding (unat a) (fs_offset_rd s)" "0 < sint a"
    "fs_offset_rd s + unat a < 2 ^ 64"
  shows "\<exists>s'. skip_padding a s = Some s' \<and> plain_stream s' \<and> rest_of s' = tail"
proof (cases "fs_offset_rd s mod unat a = 0")
  case True
  then show ?thesis using assms unat_scast_pos [OF assms(4)] by (simp add: skip_padding_def TellRd_def padding_def)
next
  case False
  let ?p = "fs_offset_rd s + (unat a - fs_offset_rd s mod unat a)"
  have p: "?p mod 2 ^ 64 = ?p" using assms(5) by simp
  have pad: "?p = fs_offset_rd s + length pad" using assms(3) False by (simp add: padding_def)
  have "fs_offset_rd s mod unat a < unat a" using unat_scast_pos [OF assms(4)] by (intro mod_less_divisor)
  then have "pad \<noteq> []" using assms(3) False by (auto simp: padding_def)
  then have "length pad \<le> length (rest_of s)" "fs_offset_rd s < length (fs_file s)"
    using assms(2) by (simp, metis Nil_is_append_conv drop_all not_le)
  then have "?p \<le> length (fs_file s)" unfolding pad by simp
  note seek = SeekRd_plain [OF assms(1) this]
  have "drop ?p (fs_file s) = drop (length pad) (rest_of s)" unfolding pad by (simp add: add.commute)
  then have "drop ?p (fs_file s) = tail" using assms(2) by simp
  then show ?thesis using False p seek unat_scast_pos [OF assms(4)]
    by (simp add: skip_padding_def TellRd_def Let_def)
qed

lemma enc_meta_Cons: "\<exists>bs. enc_meta version attrs tensors = CHR ''G'' # bs"
proof -
  have "bytes_le 4 GGUF_MAGIC = char_of GGUF_MAGIC # bytes_le 3 (GGUF_MAGIC div 256)"
    using bytes_le.simps(2) [of 3 GGUF_MAGIC] by simp
  moreover have "char_of GGUF_MAGIC = CHR ''G''" by (simp add: GGUF_MAGIC_def char_of_def bit_0)
  ultimately show ?thesis by (simp add: enc_meta_def enc_header_def)
qed

definition empty_specs :: TensorSpecTable where
  "empty_specs = \<lparr>tensor_array_of = [], name2idx = []\<rparr>"

definition table_of :: "tensor_desc list \<Rightarrow> TensorSpecTable" where
  "table_of tensors = fold (\<lambda>t table. snd (TST_Add table (spec_of t))) tensors empty_specs"

definition header_of :: "nat \<Rightarrow> attr_desc list \<Rightarrow> tensor_desc list \<Rightarrow> GgufHeader" where
  "header_of version attrs tensors = \<lparr>gh_magic = GGUF_MAGIC, gh_version = version, gh_tensor_num = length tensors,
     gh_attr_num = length attrs\<rparr>"

definition meta_ok :: "nat \<Rightarrow> attr_desc list \<Rightarrow> tensor_desc list \<Rightarrow> bool" where
  "meta_ok version attrs tensors \<longleftrightarrow> version < 2 ^ 32 \<and> list_all attr_ok attrs \<and> length attrs < 2 ^ 31
     \<and> list_all tensor_ok tensors \<and> length tensors < 2 ^ 31 \<and> distinct (map fst tensors)"

context regular_file
begin

text \<open>The stream behind the specifications: all of the file that describes the model has been read.\<close>

lemma read_meta:
  assumes "meta_ok version attrs tensors" and fresh: "\<forall>k. length (fresh k) = k"
  obtains s0 s1 s2 s3 where
    "OpenForRead sys_read new_FileStream (Some (enc_meta version attrs tensors @ tail)) True = Some (True, s0)"
    "GGUF_ReadHeader (FS_Read sys_read) s0 = Some (True, header_of version attrs tensors, s1)"
    "GGUF_ReadAttributes (FS_Read sys_read) fresh (header_of version attrs tensors) s1 = Some (True, attrs_map attrs, s2)"
    "GGUF_ReadTensorSpecTable (FS_Read sys_read) fresh empty_specs (header_of version attrs tensors) s2
      = Some (True, table_of tensors, s3)"
    "plain_stream s3" "rest_of s3 = tail" "fs_offset_rd s3 = length (enc_meta version attrs tensors)"
proof -
  let ?attrs = "concat (map (enc_attr version) attrs)" and ?tensors = "concat (map (enc_tensor version) tensors)"
  let ?h = "header_of version attrs tensors"
  have m: "version < 2 ^ 32" "list_all attr_ok attrs" "length attrs < 2 ^ 31" "list_all tensor_ok tensors" "length tensors < 2 ^ 31"
    using assms(1) by (auto simp: meta_ok_def)
  then have count: "nat (to_i32 (length attrs)) = length attrs" "nat (to_i32 (length tensors)) = length tensors" by simp_all
  obtain bs where "enc_meta version attrs tensors = CHR ''G'' # bs" using enc_meta_Cons by blast
  then have f: "enc_meta version attrs tensors @ tail = CHR ''G'' # bs @ tail" by simp
  obtain s0 where open0: "OpenForRead sys_read new_FileStream (Some (enc_meta version attrs tensors @ tail)) True = Some (True, s0)"
    "plain_stream s0" "fs_file s0 = enc_meta version attrs tensors @ tail" "fs_offset_rd s0 = 0"
    using OpenForRead_plain [OF f] by auto
  then have s0: "plain_stream s0" "rest_of s0 = enc_header version (length tensors) (length attrs) @ ?attrs @ ?tensors @ tail"
    by (simp_all add: enc_meta_def)
  obtain s1 where s1: "GGUF_ReadHeader (FS_Read sys_read) s0 = Some (True, ?h, s1)" "plain_stream s1"
    "rest_of s1 = ?attrs @ ?tensors @ tail" "TellRd s1 = TellRd s0 + length (enc_header version (length tensors) (length attrs))"
    using fstream.parsesE [OF fstream.parses_header [OF m(1,5,3)] s0] unfolding header_of_def by blast
  obtain s2 where s2: "GGUF_ReadAttributes (FS_Read sys_read) fresh ?h s1 = Some (True, attrs_map attrs, s2)" "plain_stream s2"
    "rest_of s2 = ?tensors @ tail" "TellRd s2 = TellRd s1 + length ?attrs"
    using fstream.parsesE [OF fstream.parses_attributes [OF m(2) fresh] s1(2,3)]
    unfolding GGUF_ReadAttributes_def attrs_map_def header_of_def GgufHeader.select_convs count by blast
  obtain s3 where s3: "GGUF_ReadTensorSpecTable (FS_Read sys_read) fresh empty_specs ?h s2 = Some (True, table_of tensors, s3)"
    "plain_stream s3" "rest_of s3 = tail" "TellRd s3 = TellRd s2 + length ?tensors"
    using fstream.parsesE [OF fstream.parses_tensor_specs [OF m(4)] s2(2,3)]
    unfolding GGUF_ReadTensorSpecTable_def table_of_def header_of_def GgufHeader.select_convs count by blast
  have "fs_offset_rd s3 = length (enc_meta version attrs tensors)"
    using open0(4) s1(4) s2(4) s3(4) by (simp add: TellRd_def enc_meta_def)
  then show ?thesis using that open0 s1 s2 s3 by blast
qed

end

lemma table_of_array: "distinct (map fst tensors) \<Longrightarrow> tensor_array_of (table_of tensors) = map spec_of tensors"
  unfolding table_of_def by (subst table_of_distinct) (simp_all add: empty_specs_def)

context regular_file
begin

lemma LoadModel_GGUF_ok:
  assumes "meta_ok version attrs tensors" and fresh: "\<forall>k. length (fresh k) = k"
    and "tokens_ok attrs strs" "alignment_ok (attrs_map attrs) a" "list_all2 data_ok tensors ds"
    and "length pad = padding (unat a) (length (enc_meta version attrs tensors))"
    and "length (enc_meta version attrs tensors) < 2 ^ 63" "tm_tensor_spec_table model = empty_specs"
  shows "\<exists>vocab. LoadModel_GGUF sys_read fresh model (Some (enc_meta version attrs tensors @ pad @ concat ds @ tail))
      = Some (True, model\<lparr>tm_hyper_params := hparams_of attrs (length strs) (tm_hyper_params model), tm_vocabulary := vocab, tm_tensor_spec_table := table_of tensors,
          tm_tensor_map := put_from 0 (map2 (tensor_of fresh) tensors ds) (tm_tensor_map model)\<rparr>)
    \<and> token_array vocab = map (token_of attrs strs) [0..<length strs]"
proof -
  have m: "list_all tensor_ok tensors" "distinct (map fst tensors)" "list_all attr_ok attrs" using assms(1) by (auto simp: meta_ok_def)
  note h = GGUF_ReadHyperParams_ok [OF m(3) assms(3), of "tm_hyper_params model"]
  obtain vocab where v: "GGUF_ReadVocabulary (attrs_map attrs) 0 (tm_vocabulary model) = Some (True, vocab)"
    "token_array vocab = map (token_of attrs strs) [0..<length strs]"
    using GGUF_ReadVocabulary_ok [OF assms(3)] by blast
  have a: "0 < sint a" "(case omap_find (attrs_map attrs) ''general.alignment'' of None \<Rightarrow> Some 32
      | Some attr \<Rightarrow> value_u32 (ga_value attr)) = Some a"
    using assms(4) by (auto simp: alignment_ok_def attr_of_def split: option.splits)
  obtain s0 s1 s2 s3 where s:
    "OpenForRead sys_read new_FileStream (Some (enc_meta version attrs tensors @ pad @ concat ds @ tail)) True = Some (True, s0)"
    "GGUF_ReadHeader (FS_Read sys_read) s0 = Some (True, header_of version attrs tensors, s1)"
    "GGUF_ReadAttributes (FS_Read sys_read) fresh (header_of version attrs tensors) s1 = Some (True, attrs_map attrs, s2)"
    "GGUF_ReadTensorSpecTable (FS_Read sys_read) fresh empty_specs (header_of version attrs tensors) s2
      = Some (True, table_of tensors, s3)"
    "plain_stream s3" "rest_of s3 = pad @ concat ds @ tail" "fs_offset_rd s3 = length (enc_meta version attrs tensors)"
    by (rule read_meta [OF assms(1) fresh])
  have "unat a < 2 ^ 32" using unsigned_less [of a, where 'a = nat] by simp
  then obtain s4 where s4: "skip_padding a s3 = Some s4" "plain_stream s4" "rest_of s4 = concat ds @ tail"
    using skip_padding_ok [OF s(5,6) _ a(1)] assms(6,7) s(7) by auto
  obtain s5 where s5: "gguf_read_tensors (FS_Read sys_read) fresh (map spec_of tensors) 0 (tm_tensor_map model) s4
      = Some (True, put_from 0 (map2 (tensor_of fresh) tensors ds) (tm_tensor_map model), s5)"
    by (rule fstream.parsesE [OF fstream.parses_tensors [OF assms(5) m(1) fresh] s4(2,3)])
  have "LoadModel_GGUF sys_read fresh model (Some (enc_meta version attrs tensors @ pad @ concat ds @ tail))
      = Some (True, model\<lparr>tm_hyper_params := hparams_of attrs (length strs) (tm_hyper_params model), tm_vocabulary := vocab, tm_tensor_spec_table := table_of tensors,
          tm_tensor_map := put_from 0 (map2 (tensor_of fresh) tensors ds) (tm_tensor_map model)\<rparr>)"
    unfolding LoadModel_GGUF_def using s(1-4) h v(1) a(2) s4(1) s5 assms(8) table_of_array [OF m(2)] by (simp add: Let_def)
  then show ?thesis using v(2) by blast
qed

end

context regular_file
begin

lemma truncated_string:
  assumes "plain_stream s" "rest_of s = enc_size version n @ x" "length x < n" "n < 2 ^ 31"
  shows "\<exists>s'. GGUF_ReadString_raw (FS_Read sys_read) fresh version s
    = Some (True, \<lparr>gs_size = n, gs_data = x @ drop (length x) (fresh n)\<rparr>, s')"
proof -
  obtain s1 where s1: "GGUF_ReadSize (FS_Read sys_read) version 0 s = Some (True, n, s1)" "plain_stream s1" "rest_of s1 = x"
    by (rule fstream.parsesE [OF fstream.parses_size [OF assms(4)] assms(1,2)])
  obtain s2 where "FS_Read sys_read s1 n = Some (False, x, s2)"
    using fstream.rd_bytes [OF s1(2) assms(4)] s1(3) assms(3) by auto
  then show ?thesis using s1(1) by (simp add: GGUF_ReadString_raw_def)
qed

end

text \<open>
  The data section: every tensor starts at its offset, a multiple of the alignment, and the tensors
  follow each other without gaps.
\<close>

definition tensor_offset :: "tensor_desc \<Rightarrow> nat" where
  "tensor_offset = (\<lambda>(name, ne, ty, off). off)"

primrec packed :: "nat \<Rightarrow> nat \<Rightarrow> tensor_desc list \<Rightarrow> bool" where
  "packed a pos [] \<longleftrightarrow> True"
| "packed a pos (t # ts) \<longleftrightarrow> tensor_offset t = pos \<and> a dvd pos \<and> packed a (pos + tensor_size t) ts"

definition data_of :: "string \<Rightarrow> tensor_desc \<Rightarrow> string" where
  "data_of data t = take (tensor_size t) (drop (tensor_offset t) data)"

lemma packed_data:
  assumes "packed a pos ts" "pos + sum_list (map tensor_size ts) \<le> length data"
  shows "drop pos data = concat (map (data_of data) ts) @ drop (pos + sum_list (map tensor_size ts)) data"
    "list_all (\<lambda>t. length (data_of data t) = tensor_size t) ts"
proof -
  have "drop pos data = concat (map (data_of data) ts) @ drop (pos + sum_list (map tensor_size ts)) data
      \<and> list_all (\<lambda>t. length (data_of data t) = tensor_size t) ts"
    using assms
  proof (induction ts arbitrary: pos)
    case (Cons t ts)
    have "drop pos data = take (tensor_size t) (drop pos data) @ drop (pos + tensor_size t) data"
      by (metis add.commute append_take_drop_id drop_drop)
    then show ?case using Cons.IH [of "pos + tensor_size t"] Cons.prems by (simp add: data_of_def add.assoc)
  qed simp
  then show "drop pos data = concat (map (data_of data) ts) @ drop (pos + sum_list (map tensor_size ts)) data"
    "list_all (\<lambda>t. length (data_of data t) = tensor_size t) ts" by simp_all
qed

section \<open>Properties\<close>

text \<open>
  C2. A well-formed GGUF file whose tensors are packed loads: for any attributes, any tensors with
  distinct names of one or two dimensions (or a third extent of 1) and supported element types,
  either size width (version 1 or later), any alignment, and however the system call splits its
  reads, the reader succeeds. The tensor table lists the tensors in order, every tensor holds the
  bytes of the data section from its offset on, the vocabulary lists the tokens, and the
  hyper-parameters are those of the attributes (the numbers of heads exchanged). Packed means that
  every offset, a multiple of the alignment, is the end of the tensor before: the reader does not use
  the offsets, so that with padding between tensors it would read the padding.
\<close>

theorem LoadModel_GGUF_reads:
  assumes "regular_file sys_read" "\<forall>k. length (fresh k) = k" "meta_ok version attrs tensors"
    "tokens_ok attrs strs" "alignment_ok (attrs_map attrs) a" "list_all shape_ok tensors"
    "packed (unat a) 0 tensors" "sum_list (map tensor_size tensors) \<le> length data"
    "length pad = padding (unat a) (length (enc_meta version attrs tensors))"
    "length (enc_meta version attrs tensors) < 2 ^ 63" "tm_tensor_spec_table model = empty_specs"
  shows "\<exists>model'. LoadModel_GGUF sys_read fresh model (Some (enc_meta version attrs tensors @ pad @ data)) = Some (True, model')
    \<and> tensor_array_of (tm_tensor_spec_table model') = map spec_of tensors
    \<and> (\<forall>i < length tensors. omap_find (tm_tensor_map model') (int i)
        = Some (Some (gguf_tensor (tensors ! i) (data_of data (tensors ! i)))))
    \<and> token_array (tm_vocabulary model') = map (token_of attrs strs) [0..<length strs]
    \<and> tm_hyper_params model' = hparams_of attrs (length strs) (tm_hyper_params model)"
proof -
  let ?ds = "map (data_of data) tensors"
  have tensors: "list_all tensor_ok tensors" "distinct (map fst tensors)" using assms(3) by (auto simp: meta_ok_def)
  obtain tail where data: "data = concat ?ds @ tail" "list_all (\<lambda>t. length (data_of data t) = tensor_size t) tensors"
    using packed_data [OF assms(7), of data] assms(8) by auto
  have "list_all2 data_ok tensors ?ds"
    using tensors(1) assms(6) data(2) by (simp add: list_all2_map2 list_all2_same list_all_iff shape_data_ok)
  moreover have "tensor_of fresh (tensors ! i) (data_of data (tensors ! i)) = gguf_tensor (tensors ! i) (data_of data (tensors ! i))"
    if "i < length tensors" for i
    using that tensors(1) assms(2,6) data(2) shape_data_ok [of "tensors ! i"] unfolding tensor_of_def list_all_length by blast
  moreover from regular_file.LoadModel_GGUF_ok [OF assms(1,3,2,4,5) calculation(1) assms(9-11), of tail]
  obtain vocab where "LoadModel_GGUF sys_read fresh model (Some (enc_meta version attrs tensors @ pad @ data))
      = Some (True, model\<lparr>tm_hyper_params := hparams_of attrs (length strs) (tm_hyper_params model), tm_vocabulary := vocab,
          tm_tensor_spec_table := table_of tensors, tm_tensor_map := put_from 0 (map2 (tensor_of fresh) tensors ?ds) (tm_tensor_map model)\<rparr>)"
    "token_array vocab = map (token_of attrs strs) [0..<length strs]"
    unfolding data(1) [symmetric] by blast
  ultimately show ?thesis using tensors(2) by (simp add: table_of_array find_put_from)
qed

definition tiny_attrs :: "attr_desc list" where
  "tiny_attrs = [(''tokenizer.ggml.tokens'', V_arr \<lparr>gr_value_type = T_STRING, gr_size = 1,
     gr_data = Arr_strs [\<lparr>gs_size = 1, gs_data = ''a''\<rparr>]\<rparr>), (''.block_count'', V_u32 5)]"

definition tiny_tensors :: "tensor_desc list" where
  "tiny_tensors = [(''x'', [8], 0, 0), (''y'', [1, 2], 1, 32)]"

definition tiny_data :: string where
  "tiny_data = replicate 32 CHR 0x07 @ ''abcd''"

lemma tiny_file:
  "meta_ok 2 tiny_attrs tiny_tensors" "tokens_ok tiny_attrs [\<lparr>gs_size = 1, gs_data = ''a''\<rparr>]"
  "alignment_ok (attrs_map tiny_attrs) 32" "list_all shape_ok tiny_tensors" "packed (unat (32 :: u32)) 0 tiny_tensors"
  "sum_list (map tensor_size tiny_tensors) \<le> length tiny_data" "length (enc_meta 2 tiny_attrs tiny_tensors) < 2 ^ 63"
proof -
  note types = ggml_type_def ggml_capacity_def ggml_bytes_def
  show "meta_ok 2 tiny_attrs tiny_tensors"
    by (simp add: meta_ok_def tiny_attrs_def tiny_tensors_def attr_ok_def tensor_ok_def str_ok_def ggml_type_def)
  show "tokens_ok tiny_attrs [\<lparr>gs_size = 1, gs_data = ''a''\<rparr>]"
    by (simp add: tokens_ok_def attr_arr_def attr_value_def tiny_attrs_def str_ok_def word_arr_ok_def)
  show "alignment_ok (attrs_map tiny_attrs) 32"
    by (simp add: alignment_ok_def find_attrs_map attr_value_def tiny_attrs_def)
  show "list_all shape_ok tiny_tensors" by (simp add: tiny_tensors_def shape_ok_def types)
  show "packed (unat (32 :: u32)) 0 tiny_tensors" "sum_list (map tensor_size tiny_tensors) \<le> length tiny_data"
    by (simp_all add: tiny_tensors_def tiny_data_def tensor_offset_def tensor_size_def types)
  show "length (enc_meta 2 tiny_attrs tiny_tensors) < 2 ^ 63"
    by (simp add: enc_meta_def enc_header_def tiny_attrs_def tiny_tensors_def enc_attr_pair enc_tensor_tuple enc_str_def enc_type_def)
qed

theorem LoadModel_GGUF_reads_witness:
  "\<exists>model'. LoadModel_GGUF full_read (\<lambda>n. replicate n CHR 0x00)
      \<lparr>tm_hyper_params = default_hparams, tm_vocabulary = new_StdVocabulary, tm_tensor_spec_table = empty_specs, tm_tensor_map = []\<rparr>
      (Some (enc_meta 2 tiny_attrs tiny_tensors @ replicate (padding 32 (length (enc_meta 2 tiny_attrs tiny_tensors))) CHR 0x00 @ tiny_data))
    = Some (True, model')
    \<and> omap_find (tm_tensor_map model') 1 = Some (Some (gguf_tensor (''y'', [1, 2], 1, 32) ''abcd''))
    \<and> hp_decoder_layers (tm_hyper_params model') = 5"
proof -
  let ?model = "\<lparr>tm_hyper_params = default_hparams, tm_vocabulary = new_StdVocabulary, tm_tensor_spec_table = empty_specs, tm_tensor_map = []\<rparr>"
  let ?pad = "replicate (padding 32 (length (enc_meta 2 tiny_attrs tiny_tensors))) CHR 0x00"
  have pad: "length ?pad = padding (unat (32 :: u32)) (length (enc_meta 2 tiny_attrs tiny_tensors))" by simp
  obtain model' where m: "LoadModel_GGUF full_read (\<lambda>n. replicate n CHR 0x00) ?model (Some (enc_meta 2 tiny_attrs tiny_tensors @ ?pad @ tiny_data))
      = Some (True, model')"
    "\<forall>i < length tiny_tensors. omap_find (tm_tensor_map model') (int i)
      = Some (Some (gguf_tensor (tiny_tensors ! i) (data_of tiny_data (tiny_tensors ! i))))"
    "tm_hyper_params model' = hparams_of tiny_attrs (length [\<lparr>gs_size = 1, gs_data = ''a''\<rparr>]) (tm_hyper_params ?model)"
    using LoadModel_GGUF_reads [OF full.regular_file_axioms _ tiny_file(1-6) pad tiny_file(7), of "\<lambda>n. replicate n CHR 0x00" ?model] by auto
  have "data_of tiny_data (''y'', [1, 2], 1, 32) = ''abcd''"
    by (simp add: data_of_def tiny_data_def tensor_size_def tensor_offset_def ggml_capacity_def ggml_bytes_def ggml_type_def)
  then have y: "omap_find (tm_tensor_map model') 1 = Some (Some (gguf_tensor (''y'', [1, 2], 1, 32) ''abcd''))"
    using spec [OF m(2), of 1] by (simp add: tiny_tensors_def)
  have "hp_decoder_layers (tm_hyper_params model') = 5"
    unfolding m(3) by (simp add: hparams_of_def attr_int_def attr_str_def attr_value_def tiny_attrs_def c_str_def Let_def)
  then show ?thesis using m(1) y by blast
qed

text \<open>
  C39. The reader exchanges the numbers of attention heads: \<open>head_count\<close> becomes the number of key-value
  heads and \<open>head_count_kv\<close> the number of heads.
\<close>

theorem GGUF_heads_exchanged:
  assumes "omap_find attr_map ''general.architecture'' = Some (attr_of (V_str \<lparr>gs_size = length arch, gs_data = arch\<rparr>))"
    "CHR 0x00 \<notin> set arch"
    "omap_find attr_map (arch @ ''.attention.head_count'') = Some (attr_of (V_u32 heads))" "0 < sint heads"
    "omap_find attr_map (arch @ ''.attention.head_count_kv'') = Some (attr_of (V_u32 kv_heads))"
  shows "\<exists>h. GGUF_ReadHyperParams attr_map hparams = Some h
    \<and> hp_decoder_heads h = sint kv_heads \<and> hp_decoder_kv_heads h = sint heads"
proof -
  have "GGUF_GetAttrValue_Str attr_map ''general.architecture'' = arch"
    using assms(1) by (simp add: GGUF_GetAttrValue_Str_def attr_of_def)
  moreover have "GGUF_GetAttrValue_I32 attr_map (arch @ ''.attention.head_count'') = sint heads"
    "GGUF_GetAttrValue_I32 attr_map (arch @ ''.attention.head_count_kv'') = sint kv_heads"
    using assms(3,5) by (simp_all add: GGUF_GetAttrValue_I32_def attr_of_def)
  ultimately show ?thesis
    using assms(4) c_str_id [OF assms(2)] by (simp add: GGUF_ReadHyperParams_def BuildAttrName_eq Let_def replace_rest.simps)
qed

theorem GGUF_heads_exchanged_witness:
  "\<exists>h. GGUF_ReadHyperParams
      (attrs_map [(''general.architecture'', V_str \<lparr>gs_size = 5, gs_data = ''llama''\<rparr>),
         (''llama.attention.head_count'', V_u32 32), (''llama.attention.head_count_kv'', V_u32 8)]) default_hparams = Some h
    \<and> hp_decoder_heads h = 8 \<and> hp_decoder_kv_heads h = 32"
  using GGUF_heads_exchanged [of "attrs_map [(''general.architecture'', V_str \<lparr>gs_size = 5, gs_data = ''llama''\<rparr>),
         (''llama.attention.head_count'', V_u32 32), (''llama.attention.head_count_kv'', V_u32 8)]" "''llama''" 32 8 default_hparams]
  by (simp add: attrs_map_def omap_find_def eval_nat_numeral)

text \<open>
  A truncated string is accepted: when the file ends inside a string value, reading it reports
  success, and the bytes behind the end of the file are those the new array happened to hold.
\<close>

lemma truncated_string_accepted:
  assumes "regular_file sys_read" "plain_stream s" "rest_of s = enc_size version n @ x" "length x < n" "n < 2 ^ 31"
  shows "\<exists>s'. GGUF_ReadString_raw (FS_Read sys_read) fresh version s
    = Some (True, \<lparr>gs_size = n, gs_data = x @ drop (length x) (fresh n)\<rparr>, s')"
  using regular_file.truncated_string [OF assms] .

lemma truncated_string_accepted_witness:
  "\<exists>s'. GGUF_ReadString_raw (FS_Read full_read) (\<lambda>n. replicate n CHR ''?'') 2
      (snd (Open_read new_FileStream (Some (enc_size 2 3 @ ''a''))))
    = Some (True, \<lparr>gs_size = 3, gs_data = ''a??''\<rparr>, s')"
proof -
  obtain s where s: "Open_read new_FileStream (Some (enc_size 2 3 @ ''a'')) = (True, s)" "plain_stream s"
    "fs_file s = enc_size 2 3 @ ''a''" "fs_offset_rd s = 0" using Open_read_plain by blast
  then have "rest_of s = enc_size 2 3 @ ''a''" by simp
  from truncated_string_accepted [OF full.regular_file_axioms s(2) this, of "\<lambda>n. replicate n CHR ''?''"]
  show ?thesis using s(1) by (simp add: numeral_3_eq_3)
qed

end
