(* ===== verification/LlamaCppFormat.thy ===== *)
theory LlamaCppFormat
  imports LlamaCpp GgufFormat
begin

text \<open>
  The bytes of GGML, GGMF and GGJT files, and the theorems that the reader of theory \<open>LlamaCpp\<close>
  reads what the description writes.
\<close>

section \<open>Vocabularies\<close>

text \<open>A token: its string and the bits of its score.\<close>

type_synonym token_desc = "string \<times> nat"

definition token_ok :: "token_desc \<Rightarrow> bool" where
  "token_ok = (\<lambda>(str, score). length str \<le> 4095 \<and> score < 2 ^ 32)"

definition enc_token :: "bool \<Rightarrow> token_desc \<Rightarrow> string" where
  "enc_token has_score = (\<lambda>(str, score). bytes_le 4 (length str) @ str @ (if has_score then bytes_le 4 score else []))"

definition desc_token :: "bool \<Rightarrow> token_desc list \<Rightarrow> nat \<Rightarrow> u32 Token" where
  "desc_token has_score toks i = (let (str, score) = toks ! i
     in \<lparr>tk_id = int i, tk_str = str, tk_score = of_nat (if has_score then score else 0), tk_type = (if str = [CHR 0xEF, CHR 0xBF, CHR 0xBD] then 255 else 0)\<rparr>)"

definition put_tokens :: "bool \<Rightarrow> nat \<Rightarrow> token_desc list \<Rightarrow> u32 StdVocabulary \<Rightarrow> u32 StdVocabulary" where
  "put_tokens has_score i toks vocab =
     fold (\<lambda>(j, str, score). put_token j str (if has_score then score else 0)) (zip [i..<i + length toks] toks) vocab"

lemma put_tokens_Cons: "put_tokens has_score i ((str, score) # toks) vocab
    = put_tokens has_score (Suc i) toks (put_token i str (if has_score then score else 0) vocab)"
  by (simp add: put_tokens_def upt_conv_Cons del: upt_Suc)

lemma enc_token_pair: "enc_token has_score (str, score)
    = bytes_le 4 (length str) @ str @ (if has_score then bytes_le 4 score else [])"
  by (simp add: enc_token_def)

context byte_stream
begin

lemma parses_vocabulary_loop:
  assumes "list_all token_ok toks"
  shows "parses (ReadVocabulary_Std_loop rd has_score [i..<i + length toks] buf len vocab) (concat (map (enc_token has_score) toks))
    (put_tokens has_score i toks vocab)"
  using assms
proof (induction toks arbitrary: i buf len vocab)
  case Nil
  show ?case by (rule parsesI) (simp add: put_tokens_def)
next
  case (Cons t toks)
  obtain str score where t: "t = (str, score)" by (cases t)
  have ih: "list_all token_ok toks" and t_ok: "length str \<le> 4095" "score < 256 ^ 4"
    using Cons.prems t by (auto simp: token_ok_def)
  have n: "length str < 256 ^ 4" "length str < 2 ^ 31" using t_ok by simp_all
  let ?rest = "concat (map (enc_token has_score) toks)" and ?score = "if has_score then bytes_le 4 score else []"
  show ?case
  proof (rule parsesI)
    fix s tail
    assume s: "ok s" "rest s = concat (map (enc_token has_score) (t # toks)) @ tail"
    obtain s1 where s1: "Read_le rd 4 len s = Some (True, length str, s1)" "ok s1" "rest s1 = str @ ?score @ ?rest @ tail"
      "tell s1 = tell s + length (bytes_le 4 (length str))"
      by (rule parsesE [OF parses_le [OF width_small(3) n(1)] s(1), of "str @ ?score @ ?rest @ tail" len])
        (use s(2) t in \<open>auto simp: enc_token_pair\<close>)
    obtain s2 where s2: "rd s1 (length str) = Some (True, str, s2)" "ok s2" "rest s2 = ?score @ ?rest @ tail"
      "tell s2 = tell s1 + length str"
      using parsesE [OF parses_rd [OF n(2)] s1(2,3)] by blast
    obtain s3 where s3: "(if has_score then Read_le rd 4 0 s2 else Some (True, 0, s2))
        = Some (True, if has_score then score else 0, s3)" "ok s3" "rest s3 = ?rest @ tail" "tell s3 = tell s2 + length ?score"
    proof (cases has_score)
      case True
      then have "rest s2 = bytes_le 4 score @ ?rest @ tail" using s2(3) by simp
      then show ?thesis using parsesE [OF parses_le [OF width_small(3) t_ok(2)] s2(2), of "?rest @ tail" 0] that True by auto
    next
      case False
      then show ?thesis using that [of s2] s2 by simp
    qed
    obtain s4 where s4: "ReadVocabulary_Std_loop rd has_score [Suc i..<Suc i + length toks] (str @ drop (length str) buf) (length str)
        (put_token i str (if has_score then score else 0) vocab) s3
        = Some (True, put_tokens has_score (Suc i) toks (put_token i str (if has_score then score else 0) vocab), s4)"
      "ok s4" "rest s4 = tail" "tell s4 = tell s3 + length ?rest"
      by (rule parsesE [OF Cons.IH [OF ih] s3(2,3)])
    have "[i..<i + length (t # toks)] = i # [Suc i..<Suc i + length toks]" by (simp add: upt_conv_Cons del: upt_Suc)
    then have "ReadVocabulary_Std_loop rd has_score [i..<i + length (t # toks)] buf len vocab s
        = Some (True, put_tokens has_score i (t # toks) vocab, s4)"
      using s1(1) s2(1) s3(1) s4(1) t_ok(1) t put_tokens_Cons [of has_score i str score toks vocab]
      by (simp add: and_read_def Let_def del: upt_Suc)
    then show "\<exists>s'. ReadVocabulary_Std_loop rd has_score [i..<i + length (t # toks)] buf len vocab s
          = Some (True, put_tokens has_score i (t # toks) vocab, s') \<and> ok s' \<and> rest s' = tail
        \<and> tell s' = tell s + length (concat (map (enc_token has_score) (t # toks)))"
      using s1 s2 s3 s4 t by (simp add: enc_token_pair del: upt_Suc)
  qed
qed

end

lemma token_array_put_tokens:
  assumes "i + length toks \<le> length (token_array vocab)"
  shows "token_array (put_tokens has_score i toks vocab) = take i (token_array vocab)
    @ map (\<lambda>(j, str, score). \<lparr>tk_id = int j, tk_str = str, tk_score = of_nat (if has_score then score else 0),
        tk_type = token_type_of str\<rparr>) (zip [i..<i + length toks] toks)
    @ drop (i + length toks) (token_array vocab)"
  using assms
proof (induction toks arbitrary: i vocab)
  case (Cons t toks)
  obtain str score where t: "t = (str, score)" by (cases t)
  let ?v = "put_token i str (if has_score then score else 0) vocab"
  have "token_array ?v = (token_array vocab)[i := \<lparr>tk_id = int i, tk_str = str,
      tk_score = of_nat (if has_score then score else 0), tk_type = token_type_of str\<rparr>]"
    by (simp add: put_token_def)
  moreover have "i < length (token_array vocab)" using Cons.prems by simp
  ultimately show ?case using Cons.IH [of "Suc i" ?v] Cons.prems t
    by (simp add: put_tokens_Cons upt_conv_Cons take_Suc_conv_app_nth del: upt_Suc)
qed (simp add: put_tokens_def)

lemma put_tokens_blank:
  assumes "token_array vocab = blank_tokens (length toks)"
  shows "token_array (put_tokens has_score 0 toks vocab) = map (desc_token has_score toks) [0..<length toks]"
  using assms by (subst token_array_put_tokens) (auto simp: blank_tokens_def desc_token_def token_type_of_def TT_Invalid_def split: prod.splits intro!: nth_equalityI)

context byte_stream
begin

lemma parses_vocabulary:
  assumes "list_all token_ok toks" "vocab_size = int (length toks)"
  shows "\<exists>vocab'. parses (ReadVocabulary_Std rd fresh has_score vocab_size vocab) (concat (map (enc_token has_score) toks)) vocab'
    \<and> token_array vocab' = map (desc_token has_score toks) [0..<length toks]"
proof -
  let ?v = "(Vocab_Clear vocab)\<lparr>token_array := blank_tokens (length toks)\<rparr>"
  have "parses (ReadVocabulary_Std rd fresh has_score vocab_size vocab) (concat (map (enc_token has_score) toks)) (put_tokens has_score 0 toks ?v)"
    using parses_vocabulary_loop [OF assms(1), of has_score 0 "fresh 4096" 0 ?v] assms(2)
    by (simp add: ReadVocabulary_Std_def [abs_def])
  then show ?thesis using put_tokens_blank [of ?v toks has_score] by auto
qed

end

section \<open>Header\<close>

definition enc_magic :: "LlamaCppFileVersion \<Rightarrow> string" where
  "enc_magic v = (case v of
     FV_GGML \<Rightarrow> bytes_le 4 GGML_MAGIC
   | FV_GGMF_V1 \<Rightarrow> bytes_le 4 GGMF_MAGIC @ bytes_le 4 1
   | FV_GGJT_V1 \<Rightarrow> bytes_le 4 GGJT_MAGIC @ bytes_le 4 1
   | FV_GGJT_V2 \<Rightarrow> bytes_le 4 GGJT_MAGIC @ bytes_le 4 2
   | FV_GGJT_V3 \<Rightarrow> bytes_le 4 GGJT_MAGIC @ bytes_le 4 3)"

text \<open>Vocabulary size, embedding dimension, heads and layers; the other numbers are not used.\<close>

definition enc_hparams :: "nat \<Rightarrow> nat \<Rightarrow> nat \<Rightarrow> nat \<Rightarrow> nat \<Rightarrow> nat \<Rightarrow> nat \<Rightarrow> string" where
  "enc_hparams vocab embd mult heads layers rot ftype = concat (map (bytes_le 4) [vocab, embd, mult, heads, layers, rot, ftype])"

lemma magic_values: "GGML_MAGIC < 256 ^ 4" "GGMF_MAGIC < 256 ^ 4" "GGJT_MAGIC < 256 ^ 4" "GGMF_MAGIC \<noteq> GGML_MAGIC"
  "GGJT_MAGIC \<noteq> GGML_MAGIC" "GGJT_MAGIC \<noteq> GGMF_MAGIC"
  by (simp_all add: GGML_MAGIC_def GGMF_MAGIC_def GGJT_MAGIC_def)

context byte_stream
begin

lemma parses_two_words:
  assumes "k < 256 ^ 4" "n < 256 ^ 4" "k \<noteq> GGML_MAGIC"
    "\<And>s. (if k = GGMF_MAGIC \<and> n = 1 then Some (True, LlamaCppFileVersion_value FV_GGMF_V1, s)
      else if k = GGJT_MAGIC \<and> n = 1 then Some (True, LlamaCppFileVersion_value FV_GGJT_V1, s)
      else if k = GGJT_MAGIC \<and> n = 2 then Some (True, LlamaCppFileVersion_value FV_GGJT_V2, s)
      else if k = GGJT_MAGIC \<and> n = 3 then Some (True, LlamaCppFileVersion_value FV_GGJT_V3, s)
      else Some (False, old, s)) = Some (True, v, s :: 's)"
  shows "parses (LlamaCpp_ReadMagic rd old) (bytes_le 4 k @ bytes_le 4 n) v"
proof (rule parsesI)
  fix s tail
  assume s: "ok s" "rest s = (bytes_le 4 k @ bytes_le 4 n) @ tail"
  obtain s1 where s1: "Read_le rd 4 0 s = Some (True, k, s1)" "ok s1" "rest s1 = bytes_le 4 n @ tail" "tell s1 = tell s + 4"
    by (rule parsesE [OF parses_le [OF width_small(3) assms(1)] s(1), of "bytes_le 4 n @ tail" 0]) (use s(2) in auto)
  obtain s2 where "Read_le rd 4 0 s1 = Some (True, n, s2)" "ok s2" "rest s2 = tail" "tell s2 = tell s1 + length (bytes_le 4 n)"
    by (rule parsesE [OF parses_le [OF width_small(3) assms(2)] s1(2,3)])
  then show "\<exists>s'. LlamaCpp_ReadMagic rd old s = Some (True, v, s') \<and> ok s' \<and> rest s' = tail
      \<and> tell s' = tell s + length (bytes_le 4 k @ bytes_le 4 n)"
    using s1 assms(3) assms(4) [of s2] by (simp add: LlamaCpp_ReadMagic_def)
qed

lemma parses_magic: "parses (LlamaCpp_ReadMagic rd old) (enc_magic v) (LlamaCppFileVersion_value v)"
proof (cases v)
  case FV_GGML
  show ?thesis
  proof (rule parsesI)
    fix s tail
    assume s: "ok s" "rest s = enc_magic v @ tail"
    then show "\<exists>s'. LlamaCpp_ReadMagic rd old s = Some (True, LlamaCppFileVersion_value v, s') \<and> ok s' \<and> rest s' = tail
        \<and> tell s' = tell s + length (enc_magic v)"
      using FV_GGML by (auto simp: enc_magic_def LlamaCpp_ReadMagic_def intro: parsesE [OF parses_le [OF width_small(3) magic_values(1)] s(1), of tail 0])
  qed
qed (auto simp: enc_magic_def magic_values [simplified] intro!: parses_two_words)

end

context byte_stream
begin

lemma parses_int:
  assumes "k < 2 ^ 31"
  shows "parses (read_int rd True old) (bytes_le 4 k) (int k)"
proof (rule parsesI)
  fix s tail
  assume s: "ok s" "rest s = bytes_le 4 k @ tail"
  have "k < 256 ^ 4" using assms by simp
  from parsesE [OF parses_le [OF width_small(3) this] s, of "of_i32 old"]
  obtain s' where "Read_le rd 4 (of_i32 old) s = Some (True, k, s')" "ok s'" "rest s' = tail" "tell s' = tell s + length (bytes_le 4 k)" .
  then show "\<exists>s'. read_int rd True old s = Some (True, int k, s') \<and> ok s' \<and> rest s' = tail \<and> tell s' = tell s + length (bytes_le 4 k)"
    using assms by (simp add: read_int_def and_read_def)
qed

lemma parses_hparams:
  assumes "list_all (\<lambda>k. k < 2 ^ 31) [vocab, embd, mult, heads, layers, rot, ftype]"
  shows "parses (LlamaCpp_ReadHyperParams rd h) (enc_hparams vocab embd mult heads layers rot ftype)
    (h\<lparr>hp_vocab_size := int vocab, hp_embd_dims := int embd, hp_decoder_heads := int heads, hp_decoder_layers := int layers\<rparr>)"
proof (rule parsesI)
  fix s tail
  assume s: "ok s" "rest s = enc_hparams vocab embd mult heads layers rot ftype @ tail"
  have k: "vocab < 2 ^ 31" "embd < 2 ^ 31" "mult < 2 ^ 31" "heads < 2 ^ 31" "layers < 2 ^ 31" "rot < 2 ^ 31" "ftype < 2 ^ 31"
    using assms by simp_all
  have r: "rest s = bytes_le 4 vocab @ bytes_le 4 embd @ bytes_le 4 mult @ bytes_le 4 heads @ bytes_le 4 layers
      @ bytes_le 4 rot @ bytes_le 4 ftype @ tail" using s(2) by (simp add: enc_hparams_def)
  note step = parsesE [OF parses_int]
  obtain s1 where s1: "read_int rd True (hp_vocab_size h) s = Some (True, int vocab, s1)" "ok s1" "rest s1 = bytes_le 4 embd
      @ bytes_le 4 mult @ bytes_le 4 heads @ bytes_le 4 layers @ bytes_le 4 rot @ bytes_le 4 ftype @ tail"
    "tell s1 = tell s + length (bytes_le 4 vocab)" by (rule step [OF k(1) s(1) r])
  obtain s2 where s2: "read_int rd True (hp_embd_dims h) s1 = Some (True, int embd, s2)" "ok s2" "rest s2 = bytes_le 4 mult
      @ bytes_le 4 heads @ bytes_le 4 layers @ bytes_le 4 rot @ bytes_le 4 ftype @ tail"
    "tell s2 = tell s1 + length (bytes_le 4 embd)" by (rule step [OF k(2) s1(2,3)])
  obtain s3 where s3: "read_int rd True 0 s2 = Some (True, int mult, s3)" "ok s3" "rest s3 = bytes_le 4 heads
      @ bytes_le 4 layers @ bytes_le 4 rot @ bytes_le 4 ftype @ tail"
    "tell s3 = tell s2 + length (bytes_le 4 mult)" by (rule step [OF k(3) s2(2,3)])
  obtain s4 where s4: "read_int rd True (hp_decoder_heads h) s3 = Some (True, int heads, s4)" "ok s4"
    "rest s4 = bytes_le 4 layers @ bytes_le 4 rot @ bytes_le 4 ftype @ tail"
    "tell s4 = tell s3 + length (bytes_le 4 heads)" by (rule step [OF k(4) s3(2,3)])
  obtain s5 where s5: "read_int rd True (hp_decoder_layers h) s4 = Some (True, int layers, s5)" "ok s5"
    "rest s5 = bytes_le 4 rot @ bytes_le 4 ftype @ tail"
    "tell s5 = tell s4 + length (bytes_le 4 layers)" by (rule step [OF k(5) s4(2,3)])
  obtain s6 where s6: "read_int rd True 0 s5 = Some (True, int rot, s6)" "ok s6" "rest s6 = bytes_le 4 ftype @ tail"
    "tell s6 = tell s5 + length (bytes_le 4 rot)" by (rule step [OF k(6) s5(2,3)])
  obtain s7 where s7: "read_int rd True 0 s6 = Some (True, int ftype, s7)" "ok s7" "rest s7 = tail"
    "tell s7 = tell s6 + length (bytes_le 4 ftype)" by (rule step [OF k(7) s6(2,3)])
  have "LlamaCpp_ReadHyperParams rd h s = Some (True, h\<lparr>hp_vocab_size := int vocab, hp_embd_dims := int embd,
      hp_decoder_heads := int heads, hp_decoder_layers := int layers\<rparr>, s7)"
    using s1(1) s2(1) s3(1) s4(1) s5(1) s6(1) s7(1) by (simp add: LlamaCpp_ReadHyperParams_def)
  then show "\<exists>s'. LlamaCpp_ReadHyperParams rd h s = Some (True, h\<lparr>hp_vocab_size := int vocab, hp_embd_dims := int embd,
        hp_decoder_heads := int heads, hp_decoder_layers := int layers\<rparr>, s') \<and> ok s' \<and> rest s' = tail
      \<and> tell s' = tell s + length (enc_hparams vocab embd mult heads layers rot ftype)"
    using s1 s2 s3 s4 s5 s6 s7 by (simp add: enc_hparams_def)
qed

end

section \<open>Tensors\<close>

text \<open>A tensor of one or two dimensions: name, extents and type number, and its data.\<close>

type_synonym ggml_tensor = "(string \<times> nat list \<times> nat) \<times> string"

definition gt_cx :: "ggml_tensor \<Rightarrow> nat" where "gt_cx = (\<lambda>((name, ne, ty), d). ne ! 0)"

definition gt_cy :: "ggml_tensor \<Rightarrow> nat" where "gt_cy = (\<lambda>((name, ne, ty), d). if length ne > 1 then ne ! 1 else 0)"

definition gt_ok :: "LlamaCppFileVersion \<Rightarrow> ggml_tensor \<Rightarrow> bool" where
  "gt_ok v t \<longleftrightarrow> (case t of ((name, ne, ty), d) \<Rightarrow>
     length name \<le> 255 \<and> length ne \<in> {1, 2} \<and> (length ne = 2 \<longrightarrow> 0 < ne ! 1) \<and> 0 < gt_cx t
     \<and> gt_cx t * max 1 (gt_cy t) < 2 ^ 31 \<and> ggml_capacity ty dvd gt_cx t
     \<and> ggml_type ty \<noteq> None \<and> (v = FV_GGML \<longrightarrow> ty \<noteq> 3)
     \<and> length d = gt_cx t * max 1 (gt_cy t) div ggml_capacity ty * ggml_bytes ty \<and> length d < 2 ^ 31)"

definition enc_gt_header :: "ggml_tensor \<Rightarrow> string" where
  "enc_gt_header = (\<lambda>((name, ne, ty), d). bytes_le 4 (length ne) @ bytes_le 4 (length name) @ bytes_le 4 ty
     @ concat (map (bytes_le 4) ne) @ name)"

text \<open>From GGJT on the data start at a multiple of 32.\<close>

definition gt_padding :: "LlamaCppFileVersion \<Rightarrow> nat \<Rightarrow> nat" where
  "gt_padding v n = (if v \<in> {FV_GGML, FV_GGMF_V1} then 0 else padding 32 n)"

lemma gt_padding_value: "gt_padding v n = (if LlamaCppFileVersion_value v \<ge> 2 then padding 32 n else 0)"
  by (cases v) (simp_all add: gt_padding_def)

primrec enc_tensors :: "LlamaCppFileVersion \<Rightarrow> nat \<Rightarrow> ggml_tensor list \<Rightarrow> string" where
  "enc_tensors v pos [] = []"
| "enc_tensors v pos (t # ts) =
     (let h = enc_gt_header t; p = gt_padding v (pos + length h)
      in h @ replicate p CHR 0x00 @ snd t @ enc_tensors v (pos + length h + p + length (snd t)) ts)"

lemma ggml_sizes:
  assumes "ggml_type ty \<noteq> None"
  shows "ggml_blck_size (int ty) = ggml_capacity ty" "ggml_type_size (int ty) = ggml_bytes ty" "ggml_bytes ty \<le> 34"
  using assms unfolding ggml_type_dom
  by (auto simp: ggml_blck_size_def ggml_type_size_def ggml_capacity_def ggml_bytes_def ggml_type_def)

lemma CalcTensorSize_ok:
  assumes "gt_ok v ((name, ne, ty), d)" "ts_dims spec = int (length ne)" "ts_data_type spec = int ty"
    "ts_ne spec = [int (gt_cx ((name, ne, ty), d)), int (gt_cy ((name, ne, ty), d)), 0]"
  shows "LlamaCpp_CalcTensorSize spec (LlamaCppFileVersion_value v) = of_nat (length d)"
proof -
  let ?t = "((name, ne, ty), d)"
  let ?n = "gt_cx ?t * max 1 (gt_cy ?t)"
  have t: "length ne \<in> {1, 2}" "length ne = 2 \<longrightarrow> 0 < ne ! 1" "?n < 2 ^ 31" "ggml_capacity ty dvd ?n" "ggml_type ty \<noteq> None"
    "v = FV_GGML \<longrightarrow> ty \<noteq> 3" "length d = ?n div ggml_capacity ty * ggml_bytes ty"
    using assms(1) by (simp_all add: gt_ok_def)
  note sizes = ggml_sizes [OF t(5)]
  have cy: "length ne = 2 \<longrightarrow> max 1 (gt_cy ?t) = gt_cy ?t" "length ne = 1 \<longrightarrow> gt_cy ?t = 0" using t(2) by (auto simp: gt_cy_def)
  have elems: "fold (\<lambda>dim_idx (sz :: u64). sz * of_int (ts_ne spec ! dim_idx)) [0..<nat (ts_dims spec)] 1 = of_nat ?n"
    using t(1) cy assms(2,4) by (auto simp: numeral_2_eq_2)
  have "?n * ggml_type_size (int ty) \<le> ?n * 34" using sizes(2,3) by (intro mult_le_mono2) simp
  also have "\<dots> < 2 ^ 64" using t(3) by simp
  finally have "unat (of_nat ?n * of_nat (ggml_type_size (int ty)) :: u64) = ?n * ggml_type_size (int ty)"
    by (subst of_nat_mult [symmetric], subst unat_of_nat) simp
  moreover have "unat (of_nat (ggml_blck_size (int ty)) :: u64) = ggml_blck_size (int ty)"
    by (simp add: ggml_blck_size_def)
  ultimately have "unat (of_nat ?n * of_nat (ggml_type_size (int ty)) div of_nat (ggml_blck_size (int ty)) :: u64) = length d"
    using t(4,7) sizes by (simp add: unat_div div_mult_swap mult.commute [of _ "ggml_bytes ty"])
  then have word: "of_nat ?n * of_nat (ggml_type_size (int ty)) div of_nat (ggml_blck_size (int ty)) = (of_nat (length d) :: u64)"
    by (metis of_nat_unat ucast_id)
  have extra: "(if LlamaCppFileVersion_value v \<le> 0 then if int ty = 2 then 2 else if int ty = 3 then 4 else 0 else 0 :: nat) = 0"
    using t(5,6) unfolding ggml_type_dom by (cases v) auto
  have "length d < 2 ^ 31" using assms(1) by (simp add: gt_ok_def)
  then show ?thesis unfolding LlamaCpp_CalcTensorSize_def Let_def elems assms(3) extra add_0_right word
    by (simp add: unsigned_of_nat take_bit_nat_eq_self)
qed

definition gt_spec :: "int \<Rightarrow> nat \<Rightarrow> ggml_tensor \<Rightarrow> TensorSpec" where
  "gt_spec i p t = (case t of ((name, ne, ty), d) \<Rightarrow>
     new_TensorSpec\<lparr>ts_dims := int (length ne), ts_data_type := int ty, ts_ne := [int (gt_cx t), int (gt_cy t), 0],
       ts_id := i, ts_name := name, ts_offset_in_file := of_nat p, ts_size := of_nat (length d)\<rparr>)"

definition gt_tensor :: "ggml_tensor \<Rightarrow> HostTensor" where
  "gt_tensor t = (case t of ((name, ne, ty), d) \<Rightarrow> matrix_tensor ty (gt_cx t) (gt_cy t) d)"

lemma le_nat_zeros: "le_nat (replicate n CHR 0x00) = 0"
  by (induction n) auto

lemma gt_extents:
  assumes "gt_ok v ((name, ne, ty), d)"
  defines "bs \<equiv> concat (map (bytes_le 4) ne)"
  shows "length bs = length ne * 4" "length bs < 2 ^ 31"
    "to_i32 (le_nat (take 4 (bs @ replicate (8 - length bs) CHR 0x00))) = int (gt_cx ((name, ne, ty), d))"
    "to_i32 (le_nat (drop 4 (bs @ replicate (8 - length bs) CHR 0x00))) = int (gt_cy ((name, ne, ty), d))"
proof -
  let ?cx = "gt_cx ((name, ne, ty), d)" and ?cy = "gt_cy ((name, ne, ty), d)"
  have t: "length ne \<in> {1, 2}" "length ne = 2 \<longrightarrow> 0 < ne ! 1" "0 < ?cx" "?cx * max 1 ?cy < 2 ^ 31"
    using assms(1) by (simp_all add: gt_ok_def)
  have "?cx \<le> ?cx * max 1 ?cy" by simp
  moreover have "1 * max 1 ?cy \<le> ?cx * max 1 ?cy" using t(3) by (intro mult_le_mono1) simp
  moreover have "?cy \<le> 1 * max 1 ?cy" by simp
  ultimately have small: "?cx < 2 ^ 31" "?cy < 2 ^ 31" using t(4) by linarith+
  consider x where "ne = [x]" | x y where "ne = [x, y]"
    using t(1) by (cases ne; cases "tl ne") auto
  then show "length bs = length ne * 4" "length bs < 2 ^ 31"
    "to_i32 (le_nat (take 4 (bs @ replicate (8 - length bs) CHR 0x00))) = int ?cx"
    "to_i32 (le_nat (drop 4 (bs @ replicate (8 - length bs) CHR 0x00))) = int ?cy"
    using small by (cases; simp add: bs_def gt_cx_def gt_cy_def byte_simps le_nat_zeros)+
qed

context regular_file
begin

lemma skip_to_data:
  assumes "plain_stream s" "rest_of s = replicate (gt_padding v (TellRd s)) CHR 0x00 @ tail"
  defines "s' \<equiv> (if LlamaCppFileVersion_value v \<ge> LlamaCppFileVersion_value FV_GGJT_V1 \<and> TellRd s mod 32 \<noteq> 0
    then snd (SeekRd s (TellRd s + (32 - TellRd s mod 32)) SEEK_WAY_ABS) else s)"
  shows "plain_stream s'" "rest_of s' = tail" "TellRd s' = TellRd s + gt_padding v (TellRd s)"
proof -
  let ?p = "TellRd s + (32 - TellRd s mod 32)"
  have "plain_stream s' \<and> rest_of s' = tail \<and> TellRd s' = TellRd s + gt_padding v (TellRd s)"
  proof (cases "LlamaCppFileVersion_value v \<ge> LlamaCppFileVersion_value FV_GGJT_V1 \<and> TellRd s mod 32 \<noteq> 0")
    case True
    then have p: "?p = fs_offset_rd s + gt_padding v (TellRd s)" by (simp add: gt_padding_value padding_def TellRd_def)
    have "fs_offset_rd s \<le> length (fs_file s)" using assms(1) by (simp add: plain_stream_def)
    moreover have "gt_padding v (TellRd s) \<le> length (rest_of s)" unfolding assms(2) by simp
    ultimately have "?p \<le> length (fs_file s)" unfolding p by simp
    note seek = SeekRd_plain [OF assms(1) this]
    have "drop ?p (fs_file s) = drop (gt_padding v (TellRd s)) (rest_of s)" unfolding p by (simp add: add.commute)
    also have "\<dots> = tail" unfolding assms(2) by simp
    finally show ?thesis using True seek p by (simp add: s'_def TellRd_def)
  next
    case False
    then have "gt_padding v (TellRd s) = 0" by (auto simp: gt_padding_value padding_def)
    moreover have "s' = s" using False by (auto simp: s'_def)
    ultimately show ?thesis using assms(1,2) by simp
  qed
  then show "plain_stream s'" "rest_of s' = tail" "TellRd s' = TellRd s + gt_padding v (TellRd s)" by simp_all
qed

lemma seek_here: "plain_stream s \<Longrightarrow> SeekRd s (TellRd s) SEEK_WAY_ABS = (True, s)"
  using SeekRd_plain(1) [of s "TellRd s"] by (simp add: plain_stream_def TellRd_def)

end

text \<open>One round of the tensor loop.\<close>

definition after_tensor :: "ggml_tensor \<Rightarrow> llama_state \<Rightarrow> llama_state" where
  "after_tensor t ls = (case t of ((name, ne, ty), d) \<Rightarrow>
     ls\<lparr>ls_dims := length ne, ls_name_len := length name, ls_data_type := ty, ls_buf := name @ drop (length name) (ls_buf ls),
       ls_tensor_id := ls_tensor_id ls + 1\<rparr>)"

context regular_file
begin

lemma read_gt_header:
  assumes t: "gt_ok v t" "t = ((name, ne, ty), d)" and s: "plain_stream s" and bytes: "rest_of s = enc_gt_header t @ tail"
  obtains s1 s2 s3 s4 s5 where "Read_le (FS_Read sys_read) 4 dims0 s = Some (True, length ne, s1)"
    "Read_le (FS_Read sys_read) 4 len0 s1 = Some (True, length name, s2)"
    "Read_le (FS_Read sys_read) 4 ty0 s2 = Some (True, ty, s3)"
    "FS_Read sys_read s3 (length ne * 4) = Some (True, concat (map (bytes_le 4) ne), s4)"
    "FS_Read sys_read s4 (length name) = Some (True, name, s5)"
    "plain_stream s5" "rest_of s5 = tail" "TellRd s5 = TellRd s + length (enc_gt_header t)"
proof -
  let ?ext = "concat (map (bytes_le 4) ne)"
  note ext = gt_extents [OF t(1) [unfolded t(2)]]
  have "length name \<le> 255" "length ne \<in> {1, 2}" "ty \<in> {0, 1, 3, 7, 8}"
    using t unfolding ggml_type_dom [symmetric] by (simp_all add: gt_ok_def)
  then have small: "length ne < 256 ^ 4" "length name < 256 ^ 4" "ty < 256 ^ 4" "length name < 2 ^ 31" by auto
  let ?b3 = "?ext @ name @ tail"
  let ?b2 = "bytes_le 4 ty @ ?b3"
  let ?b1 = "bytes_le 4 (length name) @ ?b2"
  have r: "rest_of s = bytes_le 4 (length ne) @ ?b1" using bytes t(2) by (simp add: enc_gt_header_def)
  obtain s1 where s1: "Read_le (FS_Read sys_read) 4 dims0 s = Some (True, length ne, s1)" "plain_stream s1"
    "rest_of s1 = ?b1" "TellRd s1 = TellRd s + length (bytes_le 4 (length ne))"
    by (rule fstream.parsesE [OF fstream.parses_le [OF width_small(3) small(1)] s r])
  obtain s2 where s2: "Read_le (FS_Read sys_read) 4 len0 s1 = Some (True, length name, s2)" "plain_stream s2"
    "rest_of s2 = ?b2" "TellRd s2 = TellRd s1 + length (bytes_le 4 (length name))"
    by (rule fstream.parsesE [OF fstream.parses_le [OF width_small(3) small(2)] s1(2,3)])
  obtain s3 where s3: "Read_le (FS_Read sys_read) 4 ty0 s2 = Some (True, ty, s3)" "plain_stream s3"
    "rest_of s3 = ?b3" "TellRd s3 = TellRd s2 + length (bytes_le 4 ty)"
    by (rule fstream.parsesE [OF fstream.parses_le [OF width_small(3) small(3)] s2(2,3)])
  obtain s4 where s4: "FS_Read sys_read s3 (length ?ext) = Some (True, ?ext, s4)" "plain_stream s4" "rest_of s4 = name @ tail"
    "TellRd s4 = TellRd s3 + length ?ext"
    by (rule fstream.parsesE [OF fstream.parses_rd [OF ext(2)] s3(2,3)])
  obtain s5 where s5: "FS_Read sys_read s4 (length name) = Some (True, name, s5)" "plain_stream s5"
    "rest_of s5 = tail" "TellRd s5 = TellRd s4 + length name"
    by (rule fstream.parsesE [OF fstream.parses_rd [OF small(4)] s4(2,3)])
  have "TellRd s5 = TellRd s + length (enc_gt_header t)"
    using s1(4) s2(4) s3(4) s4(4) s5(4) t(2) by (simp add: enc_gt_header_def)
  then show ?thesis using that s1(1) s2(1) s3(1) s4(1) s5(1-3) ext(1) by simp
qed

lemma ReadTensors_step:
  fixes s fresh file_length ls
  assumes t: "gt_ok v t" and fresh: "\<forall>k. length (fresh k) = k" and s: "plain_stream s"
    and bytes: "rest_of s = enc_gt_header t @ replicate p CHR 0x00 @ snd t @ tail"
    and p: "p = gt_padding v (TellRd s + length (enc_gt_header t))" and "TellRd s < file_length"
  defines "spec \<equiv> gt_spec (ls_tensor_id ls) (TellRd s + length (enc_gt_header t) + p) t"
  obtains s' where "plain_stream s'" "rest_of s' = tail" "TellRd s' = TellRd s + length (enc_gt_header t) + p + length (snd t)"
    "LlamaCpp_ReadTensors_loop sys_read fresh (LlamaCppFileVersion_value v) file_length ls table tensor_map s
      = LlamaCpp_ReadTensors_loop sys_read fresh (LlamaCppFileVersion_value v) file_length (after_tensor t ls)
          (snd (TST_Add table spec)) (omap_put (fst (TST_Add table spec)) (Some (gt_tensor t)) tensor_map) s'"
proof -
  obtain name ne ty d where td: "t = ((name, ne, ty), d)" by (metis prod.exhaust)
  let ?cx = "gt_cx t" and ?cy = "gt_cy t" and ?ext = "concat (map (bytes_le 4) ne)"
  have ok: "length name \<le> 255" "length ne \<in> {1, 2}" "0 < ?cx" "?cx * max 1 ?cy < 2 ^ 31" "ty \<in> {0, 1, 3, 7, 8}"
    "length d = ?cx * max 1 ?cy div ggml_capacity ty * ggml_bytes ty" "length d < 2 ^ 31" "ggml_capacity ty dvd ?cx"
    using t td unfolding ggml_type_dom [symmetric] by (simp_all add: gt_ok_def)
  then have type: "ggml_type ty \<noteq> None" unfolding ggml_type_dom by simp
  note elem = ggml_type_code(1) [OF type]
  have bytes_d: "length d = byte_num (ggml_element ty) (?cx * max 1 ?cy)"
    using ok(6,8) ggml_byte_num [OF type, of "?cx * max 1 ?cy"] by simp
  note loaded = loaded_matrix_tensor [OF type ok(8) fresh ok(6)]
  note ext = gt_extents [OF t [unfolded td], folded td]
  have r: "rest_of s = enc_gt_header t @ (replicate p CHR 0x00 @ d @ tail)" using bytes td by simp
  obtain s1 s2 s3 s4 s5 where hdr: "Read_le (FS_Read sys_read) 4 (ls_dims ls) s = Some (True, length ne, s1)"
    "Read_le (FS_Read sys_read) 4 (ls_name_len ls) s1 = Some (True, length name, s2)"
    "Read_le (FS_Read sys_read) 4 (ls_data_type ls) s2 = Some (True, ty, s3)"
    "FS_Read sys_read s3 (length ne * 4) = Some (True, ?ext, s4)"
    "FS_Read sys_read s4 (length name) = Some (True, name, s5)"
    and s5: "plain_stream s5" "rest_of s5 = replicate p CHR 0x00 @ d @ tail"
    and pos: "TellRd s5 = TellRd s + length (enc_gt_header t)"
    by (rule read_gt_header [OF t td s r])
  define s6 where "s6 = (if LlamaCppFileVersion_value v \<ge> LlamaCppFileVersion_value FV_GGJT_V1 \<and> TellRd s5 mod 32 \<noteq> 0
    then snd (SeekRd s5 (TellRd s5 + (32 - TellRd s5 mod 32)) SEEK_WAY_ABS) else s5)"
  have s6: "plain_stream s6" "rest_of s6 = d @ tail" "TellRd s6 = TellRd s5 + p"
    using skip_to_data [OF s5(1), of v "d @ tail"] s5(2) p pos unfolding s6_def by simp_all
  obtain s7 where s7: "ReadTensor (FS_Read sys_read) fresh (ToElementType (int ty)) (int ?cx) (int ?cy) s6
      = Some (True, matrix_tensor ty ?cx ?cy d, s7)" "plain_stream s7" "rest_of s7 = tail"
    "TellRd s7 = TellRd s6 + length d"
    unfolding elem loaded [symmetric]
    by (rule fstream.parsesE [OF fstream.parses_ReadTensor [OF ok(3,4) bytes_d ok(7) fresh] s6(1,2)])
  let ?spec = "new_TensorSpec\<lparr>ts_dims := int (length ne), ts_data_type := int ty, ts_ne := [int ?cx, int ?cy, 0],
    ts_id := ls_tensor_id ls, ts_name := name, ts_offset_in_file := of_nat (TellRd s6)\<rparr>"
  have calc: "LlamaCpp_CalcTensorSize ?spec (LlamaCppFileVersion_value v) = of_nat (length d)"
    using CalcTensorSize_ok [OF t [unfolded td], of ?spec] td by simp
  have spec: "?spec\<lparr>ts_size := of_nat (length d)\<rparr> = spec"
    using s6(3) pos td by (simp add: spec_def gt_spec_def)
  have fields: "ts_size spec = of_nat (length d)" "ts_data_type spec = int ty" "ts_ne spec = [int ?cx, int ?cy, 0]"
    using td by (simp_all add: spec_def gt_spec_def)
  have skip: "(if 2 \<le> LlamaCppFileVersion_value v \<and> 0 < TellRd s5 mod 32
    then snd (SeekRd s5 (TellRd s5 + (32 - TellRd s5 mod 32)) SEEK_WAY_ABS) else s5) = s6" by (simp add: s6_def)
  have seek: "SeekRd s7 (TellRd s6 + length d) SEEK_WAY_ABS = (True, s7)"
    using seek_here [OF s7(2)] s7(4) by simp
  have len: "unat (of_nat (length d) :: u32) = length d" using ok(7) by (subst unat_of_nat) simp
  have ty: "to_i32 ty = int ty" "int ty \<in> {0, 1, 2, 3, 6, 7, 8}" using ok(5) by auto
  have dims: "\<not> (length ne < 1 \<or> length ne > 2 \<or> length name > 255)" using ok(1,2) by auto
  show ?thesis
  proof (rule that)
    show "plain_stream s7" "rest_of s7 = tail" "TellRd s7 = TellRd s + length (enc_gt_header t) + p + length (snd t)"
      using s7 s6(3) pos td by simp_all
    show "LlamaCpp_ReadTensors_loop sys_read fresh (LlamaCppFileVersion_value v) file_length ls table tensor_map s
      = LlamaCpp_ReadTensors_loop sys_read fresh (LlamaCppFileVersion_value v) file_length (after_tensor t ls)
          (snd (TST_Add table spec)) (omap_put (fst (TST_Add table spec)) (Some (gt_tensor t)) tensor_map) s7"
      using assms(6) hdr s7(1) dims ty ext(1,3,4) calc spec fields skip seek len td
      by (subst LlamaCpp_ReadTensors_loop.simps) (simp add: Let_def after_tensor_def gt_tensor_def split: prod.splits, use ok(5) in auto)
  qed
qed

end

section \<open>Whole files\<close>

primrec gt_specs :: "LlamaCppFileVersion \<Rightarrow> nat \<Rightarrow> int \<Rightarrow> ggml_tensor list \<Rightarrow> TensorSpec list" where
  "gt_specs v pos i [] = []"
| "gt_specs v pos i (t # ts) =
     (let h = length (enc_gt_header t); p = gt_padding v (pos + h)
      in gt_spec i (pos + h + p) t # gt_specs v (pos + h + p + length (snd t)) (i + 1) ts)"

definition gt_name :: "ggml_tensor \<Rightarrow> string" where "gt_name t = fst (fst t)"

lemma gt_header_pos: "0 < length (enc_gt_header t)"
  by (simp add: enc_gt_header_def split: prod.splits del: length_greater_0_conv)

context regular_file
begin

lemma ReadTensors_loop_ok:
  assumes "list_all (gt_ok v) ts" and fresh: "\<forall>k. length (fresh k) = k"
    and "plain_stream s" "TellRd s = pos" "rest_of s = enc_tensors v pos ts"
    and "distinct (map gt_name ts)" "\<forall>t \<in> set ts. omap_find (name2idx table) (gt_name t) = None"
  shows "\<exists>s' table'. LlamaCpp_ReadTensors_loop sys_read fresh (LlamaCppFileVersion_value v) (pos + length (enc_tensors v pos ts))
        ls table m s
      = Some (True, (table', put_from (int (length (tensor_array_of table))) (map (gt_tensor) ts) m), s')
    \<and> tensor_array_of table' = tensor_array_of table @ gt_specs v pos (ls_tensor_id ls) ts"
  using assms(1,3-7)
proof (induction ts arbitrary: s pos ls table m)
  case Nil
  then show ?case by (subst LlamaCpp_ReadTensors_loop.simps) (simp add: plain_stream_def)
next
  case (Cons t ts)
  define h where "h = length (enc_gt_header t)"
  define p where "p = gt_padding v (pos + h)"
  define spec where "spec = gt_spec (ls_tensor_id ls) (pos + h + p) t"
  let ?tail = "enc_tensors v (pos + h + p + length (snd t)) ts"
  have bytes: "rest_of s = enc_gt_header t @ replicate p CHR 0x00 @ snd t @ ?tail"
    using Cons.prems(4) by (simp add: Let_def h_def p_def)
  have len: "pos + length (enc_tensors v pos (t # ts)) = pos + h + p + length (snd t) + length ?tail"
    by (simp add: Let_def h_def p_def)
  have less: "TellRd s < pos + length (enc_tensors v pos (t # ts))"
    using gt_header_pos [of t] Cons.prems(3) unfolding len by (simp add: h_def)
  obtain s' where s': "plain_stream s'" "rest_of s' = ?tail" "TellRd s' = pos + h + p + length (snd t)"
    "LlamaCpp_ReadTensors_loop sys_read fresh (LlamaCppFileVersion_value v) (pos + length (enc_tensors v pos (t # ts))) ls table m s
      = LlamaCpp_ReadTensors_loop sys_read fresh (LlamaCppFileVersion_value v) (pos + length (enc_tensors v pos (t # ts)))
          (after_tensor t ls) (snd (TST_Add table spec)) (omap_put (fst (TST_Add table spec)) (Some (gt_tensor t)) m) s'"
    by (rule ReadTensors_step [of v t fresh s p ?tail "pos + length (enc_tensors v pos (t # ts))" ls table m])
      (use Cons.prems(1-3) fresh bytes less in \<open>auto simp: p_def h_def spec_def\<close>)
  have name: "ts_name spec = gt_name t" by (simp add: spec_def gt_spec_def gt_name_def split: prod.splits)
  have add: "fst (TST_Add table spec) = int (length (tensor_array_of table))"
    "tensor_array_of (snd (TST_Add table spec)) = tensor_array_of table @ [spec]"
    "name2idx (snd (TST_Add table spec)) = omap_put (gt_name t) (int (length (tensor_array_of table))) (name2idx table)"
    using Cons.prems(6) name by (simp_all add: TST_Add_def Let_def)
  have unknown: "\<forall>t' \<in> set ts. omap_find (name2idx (snd (TST_Add table spec))) (gt_name t') = None"
    using Cons.prems(5,6) add(3) by (auto simp: omap_find_put image_iff)
  have id: "ls_tensor_id (after_tensor t ls) = ls_tensor_id ls + 1" by (simp add: after_tensor_def split: prod.splits)
  have ok: "list_all (gt_ok v) ts" "distinct (map gt_name ts)" using Cons.prems(1,5) by simp_all
  obtain s'' table' where ih: "LlamaCpp_ReadTensors_loop sys_read fresh (LlamaCppFileVersion_value v)
        (pos + h + p + length (snd t) + length ?tail) (after_tensor t ls) (snd (TST_Add table spec))
        (omap_put (fst (TST_Add table spec)) (Some (gt_tensor t)) m) s'
      = Some (True, (table', put_from (int (length (tensor_array_of (snd (TST_Add table spec))))) (map (gt_tensor) ts)
          (omap_put (fst (TST_Add table spec)) (Some (gt_tensor t)) m)), s'')"
    "tensor_array_of table' = tensor_array_of (snd (TST_Add table spec))
      @ gt_specs v (pos + h + p + length (snd t)) (ls_tensor_id (after_tensor t ls)) ts"
    using Cons.IH [OF ok(1) s'(1,3,2) ok(2) unknown] by blast
  have specs: "gt_specs v pos (ls_tensor_id ls) (t # ts) = spec # gt_specs v (pos + h + p + length (snd t)) (ls_tensor_id ls + 1) ts"
    by (simp add: Let_def h_def p_def spec_def)
  have "LlamaCpp_ReadTensors_loop sys_read fresh (LlamaCppFileVersion_value v) (pos + length (enc_tensors v pos (t # ts))) ls table m s
      = Some (True, (table', put_from (int (length (tensor_array_of table))) (map (gt_tensor) (t # ts)) m), s'')"
    using s'(4) ih(1) add(1,2) unfolding len by (simp add: add.commute)
  then show ?case using ih(2) add(2) id unfolding specs by simp
qed

end

text \<open>The numbers of the header behind the vocabulary size.\<close>

record ggml_numbers =
  gn_embd :: nat
  gn_mult :: nat
  gn_heads :: nat
  gn_layers :: nat
  gn_rot :: nat
  gn_ftype :: nat

definition numbers_ok :: "ggml_numbers \<Rightarrow> bool" where
  "numbers_ok g \<longleftrightarrow> list_all (\<lambda>k. k < 2 ^ 31) [gn_embd g, gn_mult g, gn_heads g, gn_layers g, gn_rot g, gn_ftype g]"

definition has_scores :: "LlamaCppFileVersion \<Rightarrow> bool" where
  "has_scores v \<longleftrightarrow> v \<noteq> FV_GGML"

lemma has_scores_value: "has_scores v \<longleftrightarrow> LlamaCppFileVersion_value v \<ge> LlamaCppFileVersion_value FV_GGMF_V1"
  by (cases v) (simp_all add: has_scores_def)

definition enc_front :: "LlamaCppFileVersion \<Rightarrow> ggml_numbers \<Rightarrow> token_desc list \<Rightarrow> string" where
  "enc_front v g toks = enc_magic v
     @ enc_hparams (length toks) (gn_embd g) (gn_mult g) (gn_heads g) (gn_layers g) (gn_rot g) (gn_ftype g)
     @ concat (map (enc_token (has_scores v)) toks)"

definition enc_ggml :: "LlamaCppFileVersion \<Rightarrow> ggml_numbers \<Rightarrow> token_desc list \<Rightarrow> ggml_tensor list \<Rightarrow> string" where
  "enc_ggml v g toks ts = enc_front v g toks @ enc_tensors v (length (enc_front v g toks)) ts"

lemma enc_magic_Cons: "\<exists>b bs. enc_magic v = b # bs \<and> b \<notin> {CHR 0xFE, CHR 0xFF, CHR 0xEF}"
proof -
  have cons: "bytes_le 4 k = char_of k # bytes_le 3 (k div 256)" for k
    using bytes_le.simps(2) [of 3 k] by simp
  have "char_of GGML_MAGIC = CHR ''l''" "char_of GGMF_MAGIC = CHR ''f''" "char_of GGJT_MAGIC = CHR ''t''"
    by (simp_all add: GGML_MAGIC_def GGMF_MAGIC_def GGJT_MAGIC_def char_of_def bit_0)
  then show ?thesis by (cases v) (simp_all add: enc_magic_def cons)
qed

context regular_file
begin

lemma LoadModel_GGML_ok:
  assumes "list_all token_ok toks" "length toks < 2 ^ 31" "numbers_ok g" "list_all (gt_ok v) ts" "distinct (map gt_name ts)"
    and fresh: "\<forall>k. length (fresh k) = k" and model: "tm_tensor_spec_table model = empty_specs"
  shows "\<exists>vocab table. LoadModel_GGML sys_read fresh model (Some (enc_ggml v g toks ts))
      = Some (True, model\<lparr>tm_hyper_params := (tm_hyper_params model)\<lparr>hp_vocab_size := int (length toks),
            hp_embd_dims := int (gn_embd g), hp_decoder_heads := int (gn_heads g), hp_decoder_layers := int (gn_layers g),
            hp_decoder_kv_heads := int (gn_heads g)\<rparr>,
          tm_vocabulary := vocab, tm_tensor_spec_table := table,
          tm_tensor_map := put_from 0 (map (gt_tensor) ts) (tm_tensor_map model)\<rparr>)
    \<and> token_array vocab = map (desc_token (has_scores v) toks) [0..<length toks]
    \<and> tensor_array_of table = gt_specs v (length (enc_front v g toks)) 0 ts"
proof -
  let ?hp = "enc_hparams (length toks) (gn_embd g) (gn_mult g) (gn_heads g) (gn_layers g) (gn_rot g) (gn_ftype g)"
  let ?toks = "concat (map (enc_token (has_scores v)) toks)" and ?pos = "length (enc_front v g toks)"
  let ?h = "(tm_hyper_params model)\<lparr>hp_vocab_size := int (length toks), hp_embd_dims := int (gn_embd g),
    hp_decoder_heads := int (gn_heads g), hp_decoder_layers := int (gn_layers g)\<rparr>"
  have nums: "list_all (\<lambda>k. k < 2 ^ 31) [length toks, gn_embd g, gn_mult g, gn_heads g, gn_layers g, gn_rot g, gn_ftype g]"
    using assms(2,3) by (simp add: numbers_ok_def)
  obtain b bs where b: "enc_magic v = b # bs" "b \<notin> {CHR 0xFE, CHR 0xFF, CHR 0xEF}" using enc_magic_Cons by blast
  then have f: "enc_ggml v g toks ts = b # bs @ ?hp @ ?toks @ enc_tensors v ?pos ts"
    by (simp add: enc_ggml_def enc_front_def)
  obtain s0 where s0: "OpenForRead sys_read new_FileStream (Some (enc_ggml v g toks ts)) True = Some (True, s0)" "plain_stream s0"
    "fs_file s0 = enc_ggml v g toks ts" "fs_offset_rd s0 = 0"
    using OpenForRead_plain [OF f b(2)] by auto
  have r: "rest_of s0 = enc_magic v @ ?hp @ ?toks @ enc_tensors v ?pos ts" using s0(3,4) f b(1) by simp
  obtain s1 where s1: "LlamaCpp_ReadMagic (FS_Read sys_read) 0 s0 = Some (True, LlamaCppFileVersion_value v, s1)" "plain_stream s1"
    "rest_of s1 = ?hp @ ?toks @ enc_tensors v ?pos ts" "TellRd s1 = TellRd s0 + length (enc_magic v)"
    by (rule fstream.parsesE [OF fstream.parses_magic s0(2) r])
  obtain s2 where s2: "LlamaCpp_ReadHyperParams (FS_Read sys_read) (tm_hyper_params model) s1 = Some (True, ?h, s2)" "plain_stream s2"
    "rest_of s2 = ?toks @ enc_tensors v ?pos ts" "TellRd s2 = TellRd s1 + length ?hp"
    by (rule fstream.parsesE [OF fstream.parses_hparams [OF nums] s1(2,3)])
  obtain vocab where voc: "fstream.parses (ReadVocabulary_Std (FS_Read sys_read) fresh (has_scores v) (int (length toks)) (tm_vocabulary model))
      ?toks vocab" "token_array vocab = map (desc_token (has_scores v) toks) [0..<length toks]"
    using fstream.parses_vocabulary [OF assms(1) refl] by blast
  obtain s3 where s3: "ReadVocabulary_Std (FS_Read sys_read) fresh (has_scores v) (int (length toks)) (tm_vocabulary model) s2
      = Some (True, vocab, s3)" "plain_stream s3" "rest_of s3 = enc_tensors v ?pos ts" "TellRd s3 = TellRd s2 + length ?toks"
    by (rule fstream.parsesE [OF voc(1) s2(2,3)])
  have pos: "TellRd s3 = ?pos" using s0(4) s1(4) s2(4) s3(4) by (simp add: enc_front_def TellRd_def)
  let ?ls = "\<lparr>ls_dims = 0, ls_name_len = 0, ls_data_type = 0, ls_buf = fresh 256, ls_tensor_id = 0\<rparr>"
  have known: "\<forall>t \<in> set ts. omap_find (name2idx empty_specs) (gt_name t) = None" by (simp add: empty_specs_def)
  have len: "?pos + length (enc_tensors v ?pos ts) = length (enc_ggml v g toks ts)" by (simp add: enc_ggml_def)
  obtain s4 table where s4: "LlamaCpp_ReadTensors_loop sys_read fresh (LlamaCppFileVersion_value v) (length (enc_ggml v g toks ts)) ?ls
        empty_specs (tm_tensor_map model) s3
      = Some (True, (table, put_from (int (length (tensor_array_of empty_specs))) (map (gt_tensor) ts) (tm_tensor_map model)), s4)"
    "tensor_array_of table = tensor_array_of empty_specs @ gt_specs v ?pos (ls_tensor_id ?ls) ts"
    using ReadTensors_loop_ok [OF assms(4) fresh s3(2) pos s3(3) assms(5) known, of ?ls "tm_tensor_map model"] unfolding len by blast
  show ?thesis
    using s0(1) s1(1) s2(1) s3(1) s4 voc(2) model
    by (intro exI [of _ vocab] exI [of _ table])
      (simp add: LoadModel_GGML_def LlamaCpp_ReadTensors_def and_read_def has_scores_value empty_specs_def Let_def)
qed

end

section \<open>Properties\<close>

text \<open>
  C37. A well-formed GGML, GGMF or GGJT file loads: the loop over the tensors ends at the end of the
  file with every tensor at its place (from GGJT on behind padding), and the tokens, the
  specifications and the hyper-parameters are those of the file: the sizes of the vocabulary and
  the embeddings, the numbers of heads (also that of the key-value heads) and layers; the other
  numbers of the header are not stored. Tensors are those whose element type the engine has and
  whose rows fill whole blocks.
\<close>

theorem LoadModel_GGML_reads:
  assumes "regular_file sys_read" "\<forall>k. length (fresh k) = k" "list_all token_ok toks" "length toks < 2 ^ 31" "numbers_ok g"
    "list_all (gt_ok v) ts" "distinct (map gt_name ts)" "tm_tensor_spec_table model = empty_specs"
  shows "\<exists>model'. LoadModel_GGML sys_read fresh model (Some (enc_ggml v g toks ts)) = Some (True, model')
    \<and> tm_hyper_params model' = (tm_hyper_params model)\<lparr>hp_vocab_size := int (length toks), hp_embd_dims := int (gn_embd g),
        hp_decoder_heads := int (gn_heads g), hp_decoder_kv_heads := int (gn_heads g), hp_decoder_layers := int (gn_layers g)\<rparr>
    \<and> token_array (tm_vocabulary model') = map (desc_token (has_scores v) toks) [0..<length toks]
    \<and> tensor_array_of (tm_tensor_spec_table model') = gt_specs v (length (enc_front v g toks)) 0 ts
    \<and> (\<forall>i < length ts. omap_find (tm_tensor_map model') (int i) = Some (Some (gt_tensor (ts ! i))))"
proof -
  obtain vocab table where "LoadModel_GGML sys_read fresh model (Some (enc_ggml v g toks ts))
      = Some (True, model\<lparr>tm_hyper_params := (tm_hyper_params model)\<lparr>hp_vocab_size := int (length toks),
            hp_embd_dims := int (gn_embd g), hp_decoder_heads := int (gn_heads g), hp_decoder_layers := int (gn_layers g),
            hp_decoder_kv_heads := int (gn_heads g)\<rparr>,
          tm_vocabulary := vocab, tm_tensor_spec_table := table,
          tm_tensor_map := put_from 0 (map (gt_tensor) ts) (tm_tensor_map model)\<rparr>)"
    "token_array vocab = map (desc_token (has_scores v) toks) [0..<length toks]"
    "tensor_array_of table = gt_specs v (length (enc_front v g toks)) 0 ts"
    using regular_file.LoadModel_GGML_ok [OF assms(1,3-7,2,8)] by blast
  then show ?thesis by (simp add: find_put_from)
qed

definition small_numbers :: ggml_numbers where
  "small_numbers = \<lparr>gn_embd = 1, gn_mult = 1, gn_heads = 1, gn_layers = 1, gn_rot = 1, gn_ftype = 0\<rparr>"

definition two_tensors :: "ggml_tensor list" where
  "two_tensors = [((''x'', [1], 0), ''wxyz''), ((''y'', [1, 2], 1), ''abcd'')]"

theorem LoadModel_GGML_reads_witness:
  "\<exists>model'. LoadModel_GGML full_read (\<lambda>n. replicate n CHR 0x00)
      \<lparr>tm_hyper_params = default_hparams, tm_vocabulary = new_StdVocabulary, tm_tensor_spec_table = empty_specs, tm_tensor_map = []\<rparr>
      (Some (enc_ggml FV_GGJT_V3 small_numbers [(''a'', 0), (''b'', 1)] two_tensors)) = Some (True, model')
    \<and> hp_vocab_size (tm_hyper_params model') = 2
    \<and> omap_find (tm_tensor_map model') 1 = Some (Some (gt_tensor ((''y'', [1, 2], 1), ''abcd'')))"
proof -
  let ?model = "\<lparr>tm_hyper_params = default_hparams, tm_vocabulary = new_StdVocabulary, tm_tensor_spec_table = empty_specs, tm_tensor_map = []\<rparr>"
  let ?toks = "[(''a'', 0), (''b'', 1)] :: token_desc list"
  have "list_all token_ok ?toks" "length ?toks < 2 ^ 31" "numbers_ok small_numbers" "distinct (map gt_name two_tensors)"
    by (simp_all add: token_ok_def numbers_ok_def small_numbers_def two_tensors_def gt_name_def)
  moreover have "list_all (gt_ok FV_GGJT_V3) two_tensors"
    by (simp add: two_tensors_def gt_ok_def gt_cx_def gt_cy_def ggml_capacity_def ggml_bytes_def ggml_type_def)
  ultimately obtain model' where m: "LoadModel_GGML full_read (\<lambda>n. replicate n CHR 0x00) ?model
      (Some (enc_ggml FV_GGJT_V3 small_numbers ?toks two_tensors)) = Some (True, model')"
    "hp_vocab_size (tm_hyper_params model') = 2"
    "\<forall>i < length two_tensors. omap_find (tm_tensor_map model') (int i) = Some (Some (gt_tensor (two_tensors ! i)))"
    using LoadModel_GGML_reads [OF full.regular_file_axioms, of "\<lambda>n. replicate n CHR 0x00" ?toks small_numbers FV_GGJT_V3 two_tensors ?model]
    by auto
  then show ?thesis using spec [OF m(3), of 1] by (simp add: two_tensors_def)
qed

end
