(* ===== verification/PickleReader.thy ===== *)
theory PickleReader
  imports ByteStream CppString
begin

text \<open>
  The reader of pickle streams (src/src/common/pickle_reader.h and .cc) over a file stream: opcodes,
  their categories and arguments, the sections of an archive, and the search for a section. Opcodes
  are byte values. A failed read is a value \<open>False\<close>; \<open>None\<close> stands for undefined behaviour or a loop
  that does not end; \<open>fresh n\<close> is the content of an uninitialised array.
\<close>

section \<open>Data\<close>

datatype PickleOpcat =
    OC_Unknown | OC_Proto | OC_Stop | OC_EmptyCollection | OC_PushInt | OC_PushLong | OC_PushFloat | OC_PushString
  | OC_PushBool | OC_PushNone | OC_Global | OC_TupleX | OC_Mark | OC_Put | OC_Get | OC_Pop | OC_Dup | OC_Append
  | OC_SetItems | OC_Persid | OC_NewObj | OC_Reduce | OC_Build

text \<open>The values of the enumeration order the keys of maps.\<close>

definition opcat_value :: "PickleOpcat \<Rightarrow> nat" where
  "opcat_value cat = (case cat of
       OC_Unknown \<Rightarrow> 0 | OC_Proto \<Rightarrow> 1 | OC_Stop \<Rightarrow> 2 | OC_EmptyCollection \<Rightarrow> 3 | OC_PushInt \<Rightarrow> 4 | OC_PushLong \<Rightarrow> 5
     | OC_PushFloat \<Rightarrow> 6 | OC_PushString \<Rightarrow> 7 | OC_PushBool \<Rightarrow> 8 | OC_PushNone \<Rightarrow> 9 | OC_Global \<Rightarrow> 10 | OC_TupleX \<Rightarrow> 11
     | OC_Mark \<Rightarrow> 12 | OC_Put \<Rightarrow> 13 | OC_Get \<Rightarrow> 14 | OC_Pop \<Rightarrow> 15 | OC_Dup \<Rightarrow> 16 | OC_Append \<Rightarrow> 17 | OC_SetItems \<Rightarrow> 18
     | OC_Persid \<Rightarrow> 19 | OC_NewObj \<Rightarrow> 20 | OC_Reduce \<Rightarrow> 21 | OC_Build \<Rightarrow> 22)"

lemma inj_opcat_value: "inj opcat_value"
  by (rule injI) (simp add: opcat_value_def split: PickleOpcat.splits)

instantiation PickleOpcat :: linorder
begin

definition less_eq_PickleOpcat :: "PickleOpcat \<Rightarrow> PickleOpcat \<Rightarrow> bool" where
  "less_eq_PickleOpcat a b \<longleftrightarrow> opcat_value a \<le> opcat_value b"

definition less_PickleOpcat :: "PickleOpcat \<Rightarrow> PickleOpcat \<Rightarrow> bool" where
  "less_PickleOpcat a b \<longleftrightarrow> opcat_value a < opcat_value b"

instance
  by standard (auto simp: less_eq_PickleOpcat_def less_PickleOpcat_def dest: injD [OF inj_opcat_value])

end

datatype OpargType = OA_Int | OA_Float | OA_Str

record PickleOparg =
  pa_t :: OpargType
  pa_nv :: int
  pa_str :: "string option"

record PickleOperation =
  po_code :: nat
  po_cat :: PickleOpcat
  po_arg_num :: int
  po_arg1 :: PickleOparg
  po_arg2 :: PickleOparg

definition new_PickleOparg :: PickleOparg where
  "new_PickleOparg = \<lparr>pa_t = OA_Int, pa_nv = 0, pa_str = None\<rparr>"

definition new_PickleOperation :: PickleOperation where
  "new_PickleOperation = \<lparr>po_code = 0, po_cat = OC_Unknown, po_arg_num = 0, po_arg1 = new_PickleOparg, po_arg2 = new_PickleOparg\<rparr>"

definition SetInt :: "int \<Rightarrow> PickleOparg \<Rightarrow> PickleOparg" where
  "SetInt v a = a\<lparr>pa_t := OA_Int, pa_nv := v\<rparr>"

text \<open>
  The argument points to a copy of the string in the string heap, which its users read as a C string.
\<close>

definition SetString :: "string \<Rightarrow> PickleOparg \<Rightarrow> PickleOparg" where
  "SetString v a = a\<lparr>pa_t := OA_Str, pa_str := Some (c_str v)\<rparr>"

text \<open>\<open>Clear\<close> leaves the arguments.\<close>

definition Oper_Clear :: "PickleOperation \<Rightarrow> PickleOperation" where
  "Oper_Clear opr = opr\<lparr>po_code := 0, po_cat := OC_Unknown, po_arg_num := 0\<rparr>"

section \<open>Opcodes\<close>

definition BuildOpcodeMap :: "(nat, string) omap" where
  "BuildOpcodeMap = omap_of
     [(0x28, ''Mark''), (0x29, ''EmptyTuple''), (0x2E, ''Stop''), (0x5D, ''EmptyList''), (0x7D, ''EmptyDict''),
      (0x30, ''Pop''), (0x31, ''PopMark''), (0x32, ''Dup''), (0x46, ''DecFloat''), (0x47, ''BinFloat''), (0x49, ''DecInt''),
      (0x4A, ''BinInt''), (0x4B, ''BinInt1''), (0x4C, ''DecLong''), (0x4D, ''BinInt2''), (0x4E, ''None''), (0x50, ''Persid''),
      (0x51, ''BinPersid''), (0x52, ''Reduce''), (0x53, ''TextString''), (0x54, ''BinString''), (0x55, ''ShortBinString''),
      (0x56, ''RawUnicode''), (0x58, ''BinUnicode''), (0x61, ''Append''), (0x62, ''Build''), (0x63, ''Global''), (0x64, ''Dict''),
      (0x65, ''Appends''), (0x67, ''Get''), (0x68, ''BinGet''), (0x69, ''Inst''), (0x6A, ''LongBinGet''), (0x6C, ''List''),
      (0x6F, ''Obj''), (0x70, ''Put''), (0x71, ''BinPut''), (0x72, ''LongBinPut''), (0x73, ''SetItem''), (0x74, ''Tuple''),
      (0x75, ''SetItems''), (0x80, ''Proto''), (0x81, ''NewObj''), (0x82, ''Ext1''), (0x83, ''Ext2''), (0x84, ''Ext4''),
      (0x85, ''Tuple1''), (0x86, ''Tuple2''), (0x87, ''Tuple3''), (0x88, ''NewTrue''), (0x89, ''NewFalse''), (0x8A, ''Long1''),
      (0x8B, ''Long4'')]"

definition OpcodeToName :: "nat \<Rightarrow> string" where
  "OpcodeToName opcode = (case omap_find BuildOpcodeMap opcode of Some name \<Rightarrow> name | None \<Rightarrow> ''Unknown'')"

definition BuildOpcatMap :: "(PickleOpcat, string) omap" where
  "BuildOpcatMap = omap_of
     [(OC_Proto, ''Proto''), (OC_Stop, ''Stop''), (OC_EmptyCollection, ''EmptyCollection''), (OC_PushInt, ''PushInt''),
      (OC_PushLong, ''PushLong''), (OC_PushFloat, ''PushFloat''), (OC_PushString, ''PushString''), (OC_PushBool, ''PushBool''),
      (OC_PushNone, ''PushNone''), (OC_Global, ''Global''), (OC_TupleX, ''TupleX''), (OC_Mark, ''Mark''), (OC_Put, ''Put''),
      (OC_Get, ''Get''), (OC_Pop, ''Pop''), (OC_Dup, ''Dup''), (OC_Append, ''Append''), (OC_SetItems, ''SetItems''),
      (OC_Persid, ''Persid''), (OC_NewObj, ''NewObj''), (OC_Reduce, ''Reduce''), (OC_Build, ''Build'')]"

definition OpcatToName :: "PickleOpcat \<Rightarrow> string" where
  "OpcatToName cat = (case omap_find BuildOpcatMap cat of Some name \<Rightarrow> name | None \<Rightarrow> ''Unknown'')"

definition GetOpcat :: "nat \<Rightarrow> PickleOpcat" where
  "GetOpcat opcode =
     (if opcode = 0x80 then OC_Proto
      else if opcode = 0x2E then OC_Stop
      else if opcode = 0x28 then OC_Mark
      else if opcode \<in> {0x29, 0x5D, 0x7D} then OC_EmptyCollection
      else if opcode \<in> {0x70, 0x71, 0x72} then OC_Put
      else if opcode \<in> {0x67, 0x68, 0x6A} then OC_Get
      else if opcode \<in> {0x30, 0x31} then OC_Pop
      else if opcode = 0x32 then OC_Dup
      else if opcode \<in> {0x49, 0x4A, 0x4B, 0x4D} then OC_PushInt
      else if opcode \<in> {0x8A, 0x8B} then OC_PushLong
      else if opcode \<in> {0x46, 0x47} then OC_PushFloat
      else if opcode \<in> {0x53, 0x54, 0x55, 0x56, 0x58} then OC_PushString
      else if opcode \<in> {0x88, 0x89} then OC_PushBool
      else if opcode = 0x4E then OC_PushNone
      else if opcode = 0x63 then OC_Global
      else if opcode \<in> {0x74, 0x85, 0x86, 0x87} then OC_TupleX
      else if opcode \<in> {0x73, 0x75} then OC_SetItems
      else if opcode = 0x81 then OC_NewObj
      else if opcode \<in> {0x61, 0x65} then OC_Append
      else if opcode = 0x52 then OC_Reduce
      else if opcode \<in> {0x50, 0x51} then OC_Persid
      else if opcode = 0x62 then OC_Build
      else OC_Unknown)"

section \<open>Arguments\<close>

definition ReadPutGetArg :: "sys_read \<Rightarrow> nat \<Rightarrow> FileStream \<Rightarrow> (bool \<times> int \<times> FileStream) option" where
  "ReadPutGetArg sys_read opcode s =
     (if opcode \<in> {0x71, 0x68} then do { (ret, v8, s) \<leftarrow> Read_le (FS_Read sys_read) 1 0 s; Some (ret, int v8, s) }
      else if opcode \<in> {0x72, 0x6A} then do { (ret, k, s) \<leftarrow> Read_le (FS_Read sys_read) 4 0 s; Some (ret, to_i32 k, s) }
      else if opcode \<in> {0x70, 0x67} then do { (ret, str, s) \<leftarrow> GetLine sys_read s (CHR 0x0A); Some (ret, atoi (c_str str), s) }
      else Some (False, 0, s))"

definition ReadInt :: "sys_read \<Rightarrow> nat \<Rightarrow> FileStream \<Rightarrow> (bool \<times> int \<times> FileStream) option" where
  "ReadInt sys_read opcode s =
     (if opcode = 0x4A then do { (ret, k, s) \<leftarrow> Read_le (FS_Read sys_read) 4 0 s; Some (ret, to_i32 k, s) }
      else if opcode = 0x4B then do { (ret, k, s) \<leftarrow> Read_le (FS_Read sys_read) 1 0 s; Some (ret, if ret then int k else 0, s) }
      else if opcode = 0x4D then do { (ret, k, s) \<leftarrow> Read_le (FS_Read sys_read) 2 0 s; Some (ret, if ret then int k else 0, s) }
      else Some (False, 0, s))"

text \<open>The bytes of a long number are skipped; the number stays 0.\<close>

definition ReadLong :: "sys_read \<Rightarrow> nat \<Rightarrow> FileStream \<Rightarrow> (bool \<times> int \<times> FileStream) option" where
  "ReadLong sys_read opcode s =
     (if opcode = 0x8A then do { (ret, v8, s) \<leftarrow> Read_le (FS_Read sys_read) 1 0 s;
        if ret then do { (ret, _, s) \<leftarrow> FS_Read sys_read s v8; Some (ret, 0, s) } else Some (False, 0, s) }
      else if opcode = 0x8B then do { (ret, v32, s) \<leftarrow> Read_le (FS_Read sys_read) 4 0 s; Some (False, 0, s) }
      else Some (False, 0, s))"

definition ReadString32 :: "sys_read \<Rightarrow> FileStream \<Rightarrow> (bool \<times> string \<times> FileStream) option" where
  "ReadString32 sys_read s =
     do { (ret, len, s) \<leftarrow> Read_le (FS_Read sys_read) 4 0 s;
          if \<not> ret then Some (False, [], s)
          else if len > 0 then do { (ret, got, s) \<leftarrow> FS_Read sys_read s len; Some (ret, if ret then got else [], s) }
          else Some (True, [], s) }"

definition ReadStringArg :: "sys_read \<Rightarrow> nat \<Rightarrow> PickleOparg \<Rightarrow> FileStream \<Rightarrow> (bool \<times> PickleOparg \<times> FileStream) option" where
  "ReadStringArg sys_read opcode arg s =
     (if opcode = 0x58 then do { (ret, str, s) \<leftarrow> ReadString32 sys_read s; Some (ret, if ret then SetString str arg else arg, s) }
      else Some (False, arg, s))"

definition ReadGlobalArgs :: "sys_read \<Rightarrow> PickleOperation \<Rightarrow> FileStream \<Rightarrow> (bool \<times> PickleOperation \<times> FileStream) option" where
  "ReadGlobalArgs sys_read opr s =
     do { (ret, str, s) \<leftarrow> GetLine sys_read s (CHR 0x0A);
          if \<not> ret then Some (False, opr, s)
          else do { let opr = opr\<lparr>po_arg1 := SetString str (po_arg1 opr)\<rparr>;
            (ret, str, s) \<leftarrow> GetLine sys_read s (CHR 0x0A);
            Some (ret, if ret then opr\<lparr>po_arg2 := SetString str (po_arg2 opr)\<rparr> else opr, s) } }"

definition ReadPersidArgs :: "sys_read \<Rightarrow> nat \<Rightarrow> PickleOperation \<Rightarrow> FileStream \<Rightarrow> (bool \<times> PickleOperation \<times> FileStream) option" where
  "ReadPersidArgs sys_read opcode opr s =
     (if opcode = 0x50 then do { (ret, str, s) \<leftarrow> GetLine sys_read s (CHR 0x0A);
        Some (ret, if ret then opr\<lparr>po_arg1 := SetString str (po_arg1 opr)\<rparr> else opr, s) }
      else Some (opcode = 0x51, opr, s))"

section \<open>Operations\<close>

text \<open>
  The arguments of an operation whose opcode and category are set. The result of \<open>ReadPutGetArg\<close> is
  not tested. An operation of another category shows the next bytes and fails.
\<close>

definition read_args :: "sys_read \<Rightarrow> PickleOperation \<Rightarrow> FileStream \<Rightarrow> (bool \<times> PickleOperation \<times> FileStream) option" where
  "read_args sys_read opr s =
     (case po_cat opr of
        OC_Proto \<Rightarrow> do { (ret, u8, s) \<leftarrow> Read_le (FS_Read sys_read) 1 0 s;
          Some (ret, opr\<lparr>po_arg_num := 1, po_arg1 := SetInt (int u8) (po_arg1 opr)\<rparr>, s) }
      | OC_Stop \<Rightarrow> Some (True, opr, s)
      | OC_EmptyCollection \<Rightarrow> Some (True, opr, s)
      | OC_Mark \<Rightarrow> Some (True, opr, s)
      | OC_Put \<Rightarrow> do { (_, num, s) \<leftarrow> ReadPutGetArg sys_read (po_code opr) s;
          Some (True, opr\<lparr>po_arg_num := 1, po_arg1 := SetInt num (po_arg1 opr)\<rparr>, s) }
      | OC_Get \<Rightarrow> do { (_, num, s) \<leftarrow> ReadPutGetArg sys_read (po_code opr) s;
          Some (True, opr\<lparr>po_arg_num := 1, po_arg1 := SetInt num (po_arg1 opr)\<rparr>, s) }
      | OC_PushInt \<Rightarrow> do { (ret, num, s) \<leftarrow> ReadInt sys_read (po_code opr) s;
          Some (ret, opr\<lparr>po_arg_num := 1, po_arg1 := SetInt num (po_arg1 opr)\<rparr>, s) }
      | OC_PushLong \<Rightarrow> do { (ret, _, s) \<leftarrow> ReadLong sys_read (po_code opr) s; Some (ret, opr\<lparr>po_arg_num := 1\<rparr>, s) }
      | OC_PushString \<Rightarrow> do { (ret, arg, s) \<leftarrow> ReadStringArg sys_read (po_code opr) (po_arg1 opr) s;
          Some (ret, opr\<lparr>po_arg1 := arg, po_arg_num := 1\<rparr>, s) }
      | OC_PushBool \<Rightarrow> Some (True, opr, s)
      | OC_PushNone \<Rightarrow> Some (True, opr, s)
      | OC_Global \<Rightarrow> do { (ret, opr, s) \<leftarrow> ReadGlobalArgs sys_read opr s; Some (ret, opr\<lparr>po_arg_num := 2\<rparr>, s) }
      | OC_TupleX \<Rightarrow> Some (True, opr, s)
      | OC_SetItems \<Rightarrow> Some (True, opr, s)
      | OC_NewObj \<Rightarrow> Some (True, opr, s)
      | OC_Append \<Rightarrow> Some (True, opr, s)
      | OC_Reduce \<Rightarrow> Some (True, opr, s)
      | OC_Persid \<Rightarrow> do { (ret, opr, s) \<leftarrow> ReadPersidArgs sys_read (po_code opr) opr s;
          Some (ret, opr\<lparr>po_arg_num := (if po_code opr = 0x50 then 1 else 0)\<rparr>, s) }
      | OC_Build \<Rightarrow> Some (True, opr, s)
      | _ \<Rightarrow> do { (_, got, s) \<leftarrow> FS_Read sys_read s 32; Some (False, opr, s) })"

text \<open>
  One operation into the object that holds the operation read before: where the new operation has no
  arguments, the arguments of the earlier one stay.
\<close>

definition ReadOperation :: "sys_read \<Rightarrow> PickleOperation \<Rightarrow> FileStream \<Rightarrow> (bool \<times> PickleOperation \<times> FileStream) option" where
  "ReadOperation sys_read opr s =
     do { (ret, code, s) \<leftarrow> Read_le (FS_Read sys_read) 1 0 s;
          if \<not> ret then Some (False, (Oper_Clear opr)\<lparr>po_code := code\<rparr>, s)
          else read_args sys_read ((Oper_Clear opr)\<lparr>po_code := code, po_cat := GetOpcat code\<rparr>) s }"

definition section_header_key :: string where
  "section_header_key = map char_of [0x50, 0x4B, 0x03, 0x04, 0x00, 0x00, 0x08, 0x08, 0, 0, 0, 0, 0, 0, 0, 0 :: nat]"

definition section_end_key :: string where
  "section_end_key = map char_of [0x50, 0x4B, 0x07, 0x08 :: nat]"

text \<open>
  The operations up to a \<open>Stop\<close> that ends a section (or is followed by a zero byte). The four bytes
  behind a \<open>Stop\<close> are read and given back.
\<close>

partial_function (option) Pickle_Read_loop :: "sys_read \<Rightarrow> (nat \<Rightarrow> string) \<Rightarrow> PickleOperation \<Rightarrow> PickleOperation list \<Rightarrow> FileStream
    \<Rightarrow> (bool \<times> PickleOperation list \<times> FileStream) option" where
  "Pickle_Read_loop sys_read fresh opr opr_list s =
     do { (ret, opr, s) \<leftarrow> ReadOperation sys_read opr s;
          if \<not> ret then Some (False, opr_list, s)
          else let opr_list = opr_list @ [opr]
          in if po_code opr \<noteq> 0x2E then Pickle_Read_loop sys_read fresh opr opr_list s
          else do { (ret, got, s') \<leftarrow> FS_Read sys_read s 4;
            let buf = got @ drop (length got) (take 4 (fresh 5));
            let s' = snd (SeekRd s' (TellRd s) SEEK_WAY_ABS);
            if \<not> ret \<or> buf = section_end_key \<or> take 1 buf = [CHR 0x00] then Some (ret, opr_list, s')
            else Pickle_Read_loop sys_read fresh opr opr_list s' } }"

declare Pickle_Read_loop.simps [code]

definition Pickle_Read :: "sys_read \<Rightarrow> (nat \<Rightarrow> string) \<Rightarrow> FileStream \<Rightarrow> (bool \<times> PickleOperation list \<times> FileStream) option" where
  "Pickle_Read sys_read fresh s = Pickle_Read_loop sys_read fresh new_PickleOperation [] s"

section \<open>Sections\<close>

text \<open>
  The comparison of the bytes behind a first matching byte. A read that fails leaves the character
  that was read before.
\<close>

fun match_key :: "sys_read \<Rightarrow> string \<Rightarrow> char \<Rightarrow> FileStream \<Rightarrow> (bool \<times> char \<times> FileStream) option" where
  "match_key sys_read [] cur s = Some (True, cur, s)"
| "match_key sys_read (k # ks) cur s =
     do { (_, got, s) \<leftarrow> FS_Read sys_read s 1;
          let cur = (case got of [] \<Rightarrow> cur | c # _ \<Rightarrow> c);
          if cur \<noteq> k then Some (False, cur, s) else match_key sys_read ks cur s }"

partial_function (option) SeekByKey_loop :: "sys_read \<Rightarrow> char \<Rightarrow> string \<Rightarrow> char \<Rightarrow> FileStream \<Rightarrow> (bool \<times> FileStream) option" where
  "SeekByKey_loop sys_read ch0 ks cur s =
     do { (ret, got, s) \<leftarrow> FS_Read sys_read s 1;
          let cur = (case got of [] \<Rightarrow> cur | c # _ \<Rightarrow> c);
          if \<not> ret then Some (True, s)
          else if cur \<noteq> ch0 then SeekByKey_loop sys_read ch0 ks cur s
          else do { (is_same, cur, s') \<leftarrow> match_key sys_read ks cur s;
            if is_same then Some (True, s')
            else SeekByKey_loop sys_read ch0 ks cur (snd (SeekRd s' (TellRd s) SEEK_WAY_ABS)) } }"

declare SeekByKey_loop.simps [code]

definition SeekByKey :: "sys_read \<Rightarrow> string \<Rightarrow> FileStream \<Rightarrow> (bool \<times> FileStream) option" where
  "SeekByKey sys_read key s =
     (case key of [] \<Rightarrow> Some (False, s) | ch0 # ks \<Rightarrow> SeekByKey_loop sys_read ch0 ks (CHR '' '') s)"

text \<open>
  The header of a section: its name, and whether it could be read. With \<open>find_first\<close> the header is
  searched for; otherwise a stream without a header is left where it is.
\<close>

definition read_section_name :: "sys_read \<Rightarrow> (nat \<Rightarrow> string) \<Rightarrow> bool \<Rightarrow> FileStream \<Rightarrow> (bool \<times> string \<times> FileStream) option" where
  "read_section_name sys_read fresh ret s =
     do { (ret, len1, s) \<leftarrow> (if ret then Read_le (FS_Read sys_read) 2 0 s else Some (False, 0, s));
          (ret, len2, s) \<leftarrow> (if ret then Read_le (FS_Read sys_read) 2 0 s else Some (False, 0, s));
          if ret \<and> len1 \<ge> 255 then Some (False, [], s)
          else do { (ret, got, s) \<leftarrow> (if ret then FS_Read sys_read s len1 else Some (False, [], s));
            if len1 > 255 then None
            else let name = c_str (take len1 (got @ drop (length got) (fresh 256)))
            in if ret then let (ret, s) = SeekRd s (TellRd s + len2) SEEK_WAY_ABS in Some (ret, name, s)
               else Some (False, name, s) } }"

definition ReadSectionHeader :: "sys_read \<Rightarrow> (nat \<Rightarrow> string) \<Rightarrow> bool \<Rightarrow> FileStream \<Rightarrow> (bool \<times> string \<times> FileStream) option" where
  "ReadSectionHeader sys_read fresh find_first s =
     (if find_first then do { (ret, s) \<leftarrow> SeekByKey sys_read section_header_key s;
        if \<not> ret then Some (False, [], s)
        else let (ret, s) = SeekRd s (TellRd s + 10) SEEK_WAY_ABS in read_section_name sys_read fresh ret s }
      else do { (_, got, s') \<leftarrow> FS_Read sys_read s 16;
        let buf = got @ drop (length got) (take 16 (fresh 17));
        if buf = section_header_key
        then let (ret, s') = SeekRd s' (TellRd s + 26) SEEK_WAY_ABS in read_section_name sys_read fresh ret s'
        else Some (True, [], snd (SeekRd s' (TellRd s) SEEK_WAY_ABS)) })"

end
