(* ===== verification/PickleModel.thy ===== *)
theory PickleModel
  imports PickleReader NetworkStructure
begin

text \<open>
  The header of a PyTorch model file (src/src/transformer/model_reader.cc, \<open>Pickle_ReadHeader\<close> and
  \<open>Pickle_HandleSectionName\<close>): the operations of the pickle are not executed; a state machine picks
  the names, element types, sizes and sections of the tensors from their order. \<open>None\<close> stands for
  undefined behaviour: a null string or an index behind an array.
\<close>

section \<open>Sections of tensor data\<close>

definition MAX_TENSORS_PER_DATA_SECTION :: nat where
  "MAX_TENSORS_PER_DATA_SECTION = 5"

text \<open>The elements of \<open>tensor_id_arr\<close> that were not written are \<open>None\<close>.\<close>

record StrAndCount =
  sc_str :: string
  sc_count :: nat
  sc_tensor_id_arr :: "int option list"

definition new_StrAndCount :: "string \<Rightarrow> nat \<Rightarrow> StrAndCount" where
  "new_StrAndCount s c = \<lparr>sc_str = s, sc_count = c, sc_tensor_id_arr = replicate MAX_TENSORS_PER_DATA_SECTION None\<rparr>"

text \<open>
  The tensor is the element \<open>i\<close> of the table. Several tensors may share a section; the sixth one is
  written behind the array.
\<close>

definition Pickle_HandleSectionName :: "(string, StrAndCount) omap \<Rightarrow> nat \<Rightarrow> TensorSpecTable \<Rightarrow> string
    \<Rightarrow> ((string, StrAndCount) omap \<times> TensorSpecTable) option" where
  "Pickle_HandleSectionName section_map i table section_name =
     (let tensor = tensor_array_of table ! i; tensor_id = TST_GetIndex table (ts_name tensor)
      in case omap_find section_map section_name of
           None \<Rightarrow> let snc = new_StrAndCount (ts_name tensor) 1
             in Some (omap_put section_name (snc\<lparr>sc_tensor_id_arr := (sc_tensor_id_arr snc)[0 := Some tensor_id]\<rparr>) section_map, table)
         | Some snc \<Rightarrow>
             if sc_count snc \<ge> MAX_TENSORS_PER_DATA_SECTION then None
             else let snc = snc\<lparr>sc_tensor_id_arr := (sc_tensor_id_arr snc)[sc_count snc := Some tensor_id], sc_count := sc_count snc + 1\<rparr>
               in Some (omap_put section_name snc section_map,
                    table\<lparr>tensor_array_of := (tensor_array_of table)[i := tensor\<lparr>ts_data_source := TST_GetIndex table (sc_str snc)\<rparr>]\<rparr>))"

section \<open>The state machine\<close>

text \<open>The local variables of the loop over the operations, the tensor table and the section map.\<close>

record PickleHeader =
  ph_warning_count :: int
  ph_tensor :: TensorSpec
  ph_storage :: string
  ph_tensor_section_name :: string
  ph_data_type :: ElementType
  ph_local_data_type :: ElementType
  ph_section_map :: "(int, string) omap"
  ph_pushed_data_types :: "(int, ElementType) omap"
  ph_has_collections :: bool
  ph_need_storage :: bool
  ph_put_get_count :: int
  ph_table :: TensorSpecTable
  ph_sections :: "(string, StrAndCount) omap"

definition new_PickleHeader :: "TensorSpecTable \<Rightarrow> PickleHeader" where
  "new_PickleHeader table = \<lparr>ph_warning_count = 0, ph_tensor = new_TensorSpec, ph_storage = [], ph_tensor_section_name = [],
     ph_data_type = ET_F16, ph_local_data_type = ET_F16, ph_section_map = [], ph_pushed_data_types = [],
     ph_has_collections = False, ph_need_storage = False, ph_put_get_count = 0, ph_table = table, ph_sections = []\<rparr>"

definition pickle_data_types :: "(string, ElementType) omap" where
  "pickle_data_types = nocase_table [(''FloatStorage'', ET_F32), (''HalfStorage'', ET_F16), (''BFloat16Storage'', ET_BF16)]"

text \<open>
  The position in the list of operations is given by the operations before it, the last one first,
  and those behind it.
\<close>

definition next_put :: "PickleOperation list \<Rightarrow> int option" where
  "next_put rest = (case rest of next_opr # _ \<Rightarrow> if po_cat next_opr = OC_Put then Some (pa_nv (po_arg1 next_opr)) else None | [] \<Rightarrow> None)"

definition prev_is :: "PickleOperation list \<Rightarrow> PickleOpcat \<Rightarrow> bool" where
  "prev_is prevs cat = (case prevs of prev_opr # _ \<Rightarrow> po_cat prev_opr = cat | [] \<Rightarrow> False)"

definition header_count :: "PickleOperation list \<Rightarrow> PickleOperation \<Rightarrow> PickleHeader \<Rightarrow> PickleHeader" where
  "header_count prevs opr st =
     (let st = (if po_cat opr = OC_Mark \<and> prev_is prevs OC_Mark then st\<lparr>ph_put_get_count := 0\<rparr> else st)
      in if po_cat opr = OC_Put \<or> po_cat opr = OC_Get then st\<lparr>ph_put_get_count := ph_put_get_count st + 1\<rparr> else st)"

text \<open>Strings: the result tells whether the loop ends.\<close>

definition header_string :: "PickleOperation \<Rightarrow> PickleOperation list \<Rightarrow> PickleHeader \<Rightarrow> (bool \<times> PickleHeader) option" where
  "header_string opr rest st =
     (if po_cat opr \<noteq> OC_PushString then Some (False, st)
      else do { str \<leftarrow> pa_str (po_arg1 opr);
        if CaseCmp_eq str ''_metadata'' then Some (True, st)
        else let st = (if ts_name (ph_tensor st) = [] then st\<lparr>ph_tensor := (ph_tensor st)\<lparr>ts_name := str\<rparr>\<rparr>
                   else if str \<noteq> [] \<and> is_digit (hd str)
                   then let st = st\<lparr>ph_tensor_section_name := str\<rparr>
                     in case next_put rest of
                          Some k \<Rightarrow> if ph_put_get_count st = 2 then st\<lparr>ph_section_map := omap_put k str (ph_section_map st)\<rparr> else st
                        | None \<Rightarrow> st
                   else st);
                 st = (if ph_need_storage st then st\<lparr>ph_storage := str\<rparr> else st)
          in Some (False, st\<lparr>ph_need_storage := CaseCmp_eq str ''storage''\<rparr>) })"

definition header_global :: "PickleOperation \<Rightarrow> PickleOperation list \<Rightarrow> PickleHeader \<Rightarrow> PickleHeader option" where
  "header_global opr rest st =
     (if po_code opr = 0x63 \<and> po_arg_num opr = 2
      then do { str1 \<leftarrow> pa_str (po_arg1 opr);
        st \<leftarrow> (if CaseCmp_eq str1 ''collections'' then Some (st\<lparr>ph_has_collections := True\<rparr>)
          else if CaseCmp_eq str1 ''torch''
          then do { str2 \<leftarrow> pa_str (po_arg2 opr);
            Some (case nocase_find pickle_data_types str2 of
                None \<Rightarrow> st
              | Some t \<Rightarrow>
                  let st = st\<lparr>ph_local_data_type := t\<rparr>;
                      st = (if ph_need_storage st then st\<lparr>ph_data_type := t\<rparr> else st)
                  in case next_put rest of
                       Some k \<Rightarrow> st\<lparr>ph_pushed_data_types := omap_put k (ph_local_data_type st) (ph_pushed_data_types st)\<rparr>
                     | None \<Rightarrow> st) }
          else Some st);
        Some (st\<lparr>ph_need_storage := False\<rparr>) }
      else Some st)"

definition header_get :: "PickleOperation \<Rightarrow> PickleHeader \<Rightarrow> PickleHeader" where
  "header_get opr st =
     (if po_cat opr = OC_Get
      then let k = pa_nv (po_arg1 opr);
               st = (case omap_find (ph_pushed_data_types st) k of Some t \<Rightarrow> st\<lparr>ph_local_data_type := t\<rparr> | None \<Rightarrow> st)
           in if ph_put_get_count st = 3
              then case omap_find (ph_section_map st) k of Some sect \<Rightarrow> st\<lparr>ph_tensor_section_name := sect\<rparr> | None \<Rightarrow> st
              else st
      else st)"

text \<open>Tuples of numbers: the size of the storage first, then the shape with the innermost dimension first.\<close>

definition header_tuple :: "PickleOperation list \<Rightarrow> PickleOperation \<Rightarrow> PickleHeader \<Rightarrow> PickleHeader" where
  "header_tuple prevs opr st =
     (if po_cat opr = OC_TupleX \<and> prev_is prevs OC_PushInt
      then let t = ph_tensor st; nv = (\<lambda>i. pa_nv (po_arg1 (prevs ! i)))
        in if ts_size t = 0 then st\<lparr>ph_tensor := t\<lparr>ts_size := of_int (nv 0)\<rparr>\<rparr>
           else if ts_dims t = 0
           then let t = t\<lparr>ts_dims := 1, ts_ne := (ts_ne t)[0 := nv 0]\<rparr>;
                    t = (if length prevs \<ge> 2 \<and> po_code opr = 0x86
                      then let t = t\<lparr>ts_ne := (ts_ne t)[1 := nv 1], ts_dims := ts_dims t + 1\<rparr>
                        in if length prevs \<ge> 3 \<and> po_cat (prevs ! 2) = OC_PushInt \<and> po_arg_num (prevs ! 2) \<ge> 1
                           then t\<lparr>ts_offset_in_data_source := nv 2, ts_has_start_offset := True\<rparr> else t
                      else t)
                in st\<lparr>ph_tensor := t\<rparr>
           else st
      else st)"

text \<open>The end of a tensor: it enters the table.\<close>

definition tensor_elements :: "TensorSpec \<Rightarrow> u32" where
  "tensor_elements t = fold (\<lambda>n size. size * of_int n) (take (nat (ts_dims t)) (ts_ne t)) 1"

definition header_emit :: "PickleOperation \<Rightarrow> PickleHeader \<Rightarrow> PickleHeader option" where
  "header_emit opr st =
     (if po_code opr = 0x29 \<or> po_code opr = 0x89
      then do { st \<leftarrow> (if ts_size (ph_tensor st) > 0
          then do { let t = (ph_tensor st)\<lparr>ts_data_type := ElementType_value (ph_local_data_type st)\<rparr>;
            let size = tensor_elements t;
            let st = (if size \<noteq> ts_size t \<and> \<not> ts_has_start_offset t \<or> size > ts_size t
                      then st\<lparr>ph_warning_count := ph_warning_count st + 1\<rparr> else st);
            let (new_tensor_idx, table) = TST_Add (ph_table st) t;
            let st = st\<lparr>ph_table := table\<rparr>;
            if ph_tensor_section_name st \<noteq> [] \<and> new_tensor_idx \<ge> 0
            then if nat new_tensor_idx \<ge> length (tensor_array_of table) then None
              else do { (sections, table) \<leftarrow> Pickle_HandleSectionName (ph_sections st) (nat new_tensor_idx) table (ph_tensor_section_name st);
                Some (st\<lparr>ph_sections := sections, ph_table := table, ph_tensor_section_name := []\<rparr>) }
            else Some st }
          else Some st);
        Some (st\<lparr>ph_tensor := new_TensorSpec, ph_local_data_type := ph_data_type st\<rparr>) }
      else Some st)"

definition header_step :: "PickleOperation list \<Rightarrow> PickleOperation \<Rightarrow> PickleOperation list \<Rightarrow> PickleHeader
    \<Rightarrow> (bool \<times> PickleHeader) option" where
  "header_step prevs opr rest st =
     do { (stop, st) \<leftarrow> header_string opr rest (header_count prevs opr st);
          if stop then Some (True, st)
          else do { st \<leftarrow> header_global opr rest st;
            st \<leftarrow> header_emit opr (header_tuple prevs opr (header_get opr st));
            Some (False, st) } }"

primrec header_loop :: "PickleOperation list \<Rightarrow> PickleOperation list \<Rightarrow> PickleHeader \<Rightarrow> PickleHeader option" where
  "header_loop prevs [] st = Some st"
| "header_loop prevs (opr # rest) st =
     do { (stop, st) \<leftarrow> header_step prevs opr rest st;
          if stop then Some st else header_loop (opr # prevs) rest st }"

section \<open>Reading the header\<close>

definition Pickle_ReadHeader :: "sys_read \<Rightarrow> (nat \<Rightarrow> string) \<Rightarrow> TensorSpecTable \<Rightarrow> FileStream
    \<Rightarrow> (bool \<times> (TensorSpecTable \<times> (string, StrAndCount) omap) \<times> FileStream) option" where
  "Pickle_ReadHeader sys_read fresh table s =
     do { (ret, section_name, s) \<leftarrow> ReadSectionHeader sys_read fresh False s;
          if \<not> ret then Some (False, (table, []), s)
          else do { (ret, opr_list, s) \<leftarrow> Pickle_Read sys_read fresh s;
            if \<not> ret then Some (False, (table, []), s)
            else do { st \<leftarrow> header_loop [] opr_list (new_PickleHeader table);
              Some (ret, (ph_table st, ph_sections st), s) } } }"

end
