(* ===== verification/PickleFormat.thy ===== *)
theory PickleFormat
  imports PickleReader
begin

text \<open>
  The bytes of pickle streams, and the theorems that the reader of theory \<open>PickleReader\<close> yields the
  operations that the bytes describe.
\<close>

section \<open>Operations as bytes\<close>

datatype pickle_op =
    P_Proto nat
  | P_Plain nat
  | P_Memo8 nat nat
  | P_Memo32 nat nat
  | P_MemoLine nat string
  | P_Int nat
  | P_Int1 nat
  | P_Int2 nat
  | P_Long string
  | P_Str string
  | P_Global string string
  | P_Persid string

text \<open>Opcodes without arguments in the stream, with their categories; the code of \<open>Stop\<close> is one of them.\<close>

definition plain_codes :: "(nat \<times> PickleOpcat) list" where
  "plain_codes =
    [(0x28, OC_Mark), (0x29, OC_EmptyCollection), (0x2E, OC_Stop), (0x4E, OC_PushNone), (0x51, OC_Persid),
     (0x52, OC_Reduce), (0x5D, OC_EmptyCollection), (0x61, OC_Append), (0x62, OC_Build), (0x65, OC_Append),
     (0x73, OC_SetItems), (0x74, OC_TupleX), (0x75, OC_SetItems), (0x7D, OC_EmptyCollection), (0x81, OC_NewObj),
     (0x85, OC_TupleX), (0x86, OC_TupleX), (0x87, OC_TupleX), (0x88, OC_PushBool), (0x89, OC_PushBool)]"

definition plain_code :: "nat \<Rightarrow> bool" where
  "plain_code code \<longleftrightarrow> code \<in> fst ` set plain_codes"

definition line_ok :: "string \<Rightarrow> bool" where
  "line_ok str \<longleftrightarrow> CHR 0x0A \<notin> set str \<and> (str = [] \<or> last str \<noteq> CHR 0x0D)"

fun op_valid :: "pickle_op \<Rightarrow> bool" where
  "op_valid (P_Proto v) = (v < 256)"
| "op_valid (P_Plain code) = plain_code code"
| "op_valid (P_Memo8 code k) = (code \<in> {0x71, 0x68} \<and> k < 256)"
| "op_valid (P_Memo32 code k) = (code \<in> {0x72, 0x6A} \<and> k < 2 ^ 32)"
| "op_valid (P_MemoLine code str) = (code \<in> {0x70, 0x67} \<and> line_ok str)"
| "op_valid (P_Int k) = (k < 2 ^ 32)"
| "op_valid (P_Int1 k) = (k < 256)"
| "op_valid (P_Int2 k) = (k < 2 ^ 16)"
| "op_valid (P_Long bs) = (length bs < 256)"
| "op_valid (P_Str str) = (length str < 2 ^ 31)"
| "op_valid (P_Global m n) = (line_ok m \<and> line_ok n)"
| "op_valid (P_Persid str) = line_ok str"

fun op_code :: "pickle_op \<Rightarrow> nat" where
  "op_code (P_Proto v) = 0x80"
| "op_code (P_Plain code) = code"
| "op_code (P_Memo8 code k) = code"
| "op_code (P_Memo32 code k) = code"
| "op_code (P_MemoLine code str) = code"
| "op_code (P_Int k) = 0x4A"
| "op_code (P_Int1 k) = 0x4B"
| "op_code (P_Int2 k) = 0x4D"
| "op_code (P_Long bs) = 0x8A"
| "op_code (P_Str str) = 0x58"
| "op_code (P_Global m n) = 0x63"
| "op_code (P_Persid str) = 0x50"

text \<open>The categories, as the format gives them (compare \<open>GetOpcat\<close>, which finds them from the codes).\<close>

fun op_category :: "pickle_op \<Rightarrow> PickleOpcat" where
  "op_category (P_Proto v) = OC_Proto"
| "op_category (P_Plain code) = (case map_of plain_codes code of Some cat \<Rightarrow> cat | None \<Rightarrow> OC_Unknown)"
| "op_category (P_Memo8 code k) = (if code = 0x71 then OC_Put else OC_Get)"
| "op_category (P_Memo32 code k) = (if code = 0x72 then OC_Put else OC_Get)"
| "op_category (P_MemoLine code str) = (if code = 0x70 then OC_Put else OC_Get)"
| "op_category (P_Int k) = OC_PushInt"
| "op_category (P_Int1 k) = OC_PushInt"
| "op_category (P_Int2 k) = OC_PushInt"
| "op_category (P_Long bs) = OC_PushLong"
| "op_category (P_Str str) = OC_PushString"
| "op_category (P_Global m n) = OC_Global"
| "op_category (P_Persid str) = OC_Persid"

lemma GetOpcat_category: "op_valid d \<Longrightarrow> GetOpcat (op_code d) = op_category d"
  by (cases d) (auto simp: GetOpcat_def plain_code_def plain_codes_def)

fun arg_bytes :: "pickle_op \<Rightarrow> string" where
  "arg_bytes (P_Proto v) = bytes_le 1 v"
| "arg_bytes (P_Plain code) = []"
| "arg_bytes (P_Memo8 code k) = bytes_le 1 k"
| "arg_bytes (P_Memo32 code k) = bytes_le 4 k"
| "arg_bytes (P_MemoLine code str) = str @ [CHR 0x0A]"
| "arg_bytes (P_Int k) = bytes_le 4 k"
| "arg_bytes (P_Int1 k) = bytes_le 1 k"
| "arg_bytes (P_Int2 k) = bytes_le 2 k"
| "arg_bytes (P_Long bs) = bytes_le 1 (length bs) @ bs"
| "arg_bytes (P_Str str) = bytes_le 4 (length str) @ str"
| "arg_bytes (P_Global m n) = (m @ [CHR 0x0A]) @ n @ [CHR 0x0A]"
| "arg_bytes (P_Persid str) = str @ [CHR 0x0A]"

definition op_bytes :: "pickle_op \<Rightarrow> string" where
  "op_bytes d = bytes_le 1 (op_code d) @ arg_bytes d"

lemma plain_code_cat:
  "plain_code code \<Longrightarrow> code = 0x51 \<or> GetOpcat code \<in> {OC_Stop, OC_EmptyCollection, OC_Mark, OC_PushBool, OC_PushNone,
     OC_TupleX, OC_SetItems, OC_NewObj, OC_Append, OC_Reduce, OC_Build}"
  by (auto simp: plain_code_def plain_codes_def GetOpcat_def)

text \<open>
  What the arguments of an operation become. An operation starts from the arguments of the one
  before it, and a long number is skipped: its operation keeps the argument it starts from.
\<close>

fun set_args :: "pickle_op \<Rightarrow> PickleOperation \<Rightarrow> PickleOperation" where
  "set_args (P_Proto v) opr = opr\<lparr>po_arg_num := 1, po_arg1 := SetInt (int v) (po_arg1 opr)\<rparr>"
| "set_args (P_Plain code) opr = opr"
| "set_args (P_Memo8 code k) opr = opr\<lparr>po_arg_num := 1, po_arg1 := SetInt (int k) (po_arg1 opr)\<rparr>"
| "set_args (P_Memo32 code k) opr = opr\<lparr>po_arg_num := 1, po_arg1 := SetInt (to_i32 k) (po_arg1 opr)\<rparr>"
| "set_args (P_MemoLine code str) opr = opr\<lparr>po_arg_num := 1, po_arg1 := SetInt (atoi (c_str str)) (po_arg1 opr)\<rparr>"
| "set_args (P_Int k) opr = opr\<lparr>po_arg_num := 1, po_arg1 := SetInt (to_i32 k) (po_arg1 opr)\<rparr>"
| "set_args (P_Int1 k) opr = opr\<lparr>po_arg_num := 1, po_arg1 := SetInt (int k) (po_arg1 opr)\<rparr>"
| "set_args (P_Int2 k) opr = opr\<lparr>po_arg_num := 1, po_arg1 := SetInt (int k) (po_arg1 opr)\<rparr>"
| "set_args (P_Long bs) opr = opr\<lparr>po_arg_num := 1\<rparr>"
| "set_args (P_Str str) opr = opr\<lparr>po_arg1 := SetString str (po_arg1 opr), po_arg_num := 1\<rparr>"
| "set_args (P_Global m n) opr = opr\<lparr>po_arg1 := SetString m (po_arg1 opr), po_arg2 := SetString n (po_arg2 opr), po_arg_num := 2\<rparr>"
| "set_args (P_Persid str) opr = opr\<lparr>po_arg1 := SetString str (po_arg1 opr), po_arg_num := 1\<rparr>"

definition op_value :: "PickleOperation \<Rightarrow> pickle_op \<Rightarrow> PickleOperation" where
  "op_value opr d = set_args d (opr\<lparr>po_code := op_code d, po_cat := op_category d, po_arg_num := 0\<rparr>)"

text \<open>The operations one after the other: each starts from the arguments of the one before.\<close>

fun op_values :: "PickleOperation \<Rightarrow> pickle_op list \<Rightarrow> PickleOperation list" where
  "op_values opr [] = []"
| "op_values opr (d # ds) = op_value opr d # op_values (op_value opr d) ds"

section \<open>Reading an operation\<close>

context regular_file
begin

lemma parses_line:
  assumes "line_ok str"
  shows "fstream.parses (\<lambda>s. GetLine sys_read s (CHR 0x0A)) (str @ [CHR 0x0A]) str"
proof (rule fstream.parsesI)
  fix s tail
  assume s: "plain_stream s" "rest_of s = (str @ [CHR 0x0A]) @ tail"
  have "\<forall>c \<in> set str. c \<noteq> CHR 0x0A" using assms by (auto simp: line_ok_def)
  then have str: "takeWhile (\<lambda>c. c \<noteq> CHR 0x0A) (str @ CHR 0x0A # tail) = str" "strip_cr (CHR 0x0A) str = str"
    using assms by (simp add: takeWhile_append2) (use assms in \<open>auto simp: line_ok_def strip_cr_def split: if_splits\<close>)
  have ok: "rd_ok s" using s(1) by (simp add: plain_stream_def)
  obtain ok line n s' where s': "next_line (CHR 0x0A) (rest_of s) = (ok, line, n)"
      "GetLine sys_read s (CHR 0x0A) = Some (ok, line, s')" "rd_ok s'" "rd_view s' = rd_view s" "fs_offset_rd s' = fs_offset_rd s + n"
    using GetLine_ok [OF \<open>rd_ok s\<close>] by blast
  have n: "ok" "line = str" "n = length str + 1" using s'(1) s(2) str by (auto simp: next_line_def)
  have "length (rest_of s) = length str + 1 + length tail" using s(2) by simp
  then have le: "fs_offset_rd s' \<le> length (fs_file s)" using s'(5) n(3) by simp
  have "rest_of s' = drop n (rest_of s)" using s'(4,5) by (simp add: rd_view_def add.commute)
  then have "rest_of s' = tail" using s(2) n(3) by simp
  then show "\<exists>s'. GetLine sys_read s (CHR 0x0A) = Some (True, str, s') \<and> plain_stream s' \<and> rest_of s' = tail
      \<and> TellRd s' = TellRd s + length (str @ [CHR 0x0A])"
    using s s' n le by (auto simp: plain_stream_def rd_view_def TellRd_def)
qed

lemma parses_read1: "k < 256 \<Longrightarrow> fstream.parses (Read_le (FS_Read sys_read) 1 0) (bytes_le 1 k) k"
  using fstream.parses_le [of 1 k 0] by simp

lemma parses_read2: "k < 2 ^ 16 \<Longrightarrow> fstream.parses (Read_le (FS_Read sys_read) 2 0) (bytes_le 2 k) k"
  using fstream.parses_le [of 2 k 0] by simp

lemma parses_read4: "k < 2 ^ 32 \<Longrightarrow> fstream.parses (Read_le (FS_Read sys_read) 4 0) (bytes_le 4 k) k"
  using fstream.parses_le [of 4 k 0] by simp

lemma parses_ReadLong:
  assumes "length bs < 256"
  shows "fstream.parses (ReadLong sys_read 0x8A) (bytes_le 1 (length bs) @ bs) 0"
proof -
  have "fstream.parses (\<lambda>s. do { (ret, _, s) \<leftarrow> FS_Read sys_read s (length bs); Some (ret, 0 :: int, s) }) bs 0"
    using fstream.parses_map [OF fstream.parses_rd [of bs], where f = "\<lambda>_ _. 0"] assms by simp
  then show ?thesis
    using fstream.parses_bind [OF parses_read1 [OF assms],
        where q = "\<lambda>ret v s. if ret then do { (ret, _, s) \<leftarrow> FS_Read sys_read s v; Some (ret, 0, s) } else Some (False, 0, s)"]
    by (simp add: ReadLong_def [abs_def])
qed

lemma parses_ReadString32:
  assumes "length str < 2 ^ 31"
  shows "fstream.parses (ReadString32 sys_read) (bytes_le 4 (length str) @ str) str"
proof -
  let ?q = "\<lambda>ret len s. if \<not> ret then Some (False, [], s)
      else if len > 0 then do { (ret, got, s) \<leftarrow> FS_Read sys_read s len; Some (ret, if ret then got else [], s) } else Some (True, [], s)"
  have "fstream.parses (?q True (length str)) str str"
    using fstream.parses_map [OF fstream.parses_rd [OF assms], where f = "\<lambda>ret got. if ret then got else []"]
      fstream.parses_return [of "[]"] by (cases "str = []") auto
  then show ?thesis
    using fstream.parses_bind [OF parses_read4, where q = ?q] assms by (simp add: ReadString32_def [abs_def])
qed

lemma parses_ReadGlobalArgs:
  assumes "line_ok m" "line_ok n"
  shows "fstream.parses (ReadGlobalArgs sys_read opr) ((m @ [CHR 0x0A]) @ n @ [CHR 0x0A])
    (opr\<lparr>po_arg1 := SetString m (po_arg1 opr), po_arg2 := SetString n (po_arg2 opr)\<rparr>)"
proof -
  let ?set1 = "\<lambda>str. opr\<lparr>po_arg1 := SetString str (po_arg1 opr)\<rparr>"
  let ?q = "\<lambda>ret str s. if \<not> ret then Some (False, opr, s)
      else do { let opr = ?set1 str; (ret, str, s) \<leftarrow> GetLine sys_read s (CHR 0x0A);
            Some (ret, if ret then opr\<lparr>po_arg2 := SetString str (po_arg2 opr)\<rparr> else opr, s) }"
  have "fstream.parses (?q True m) (n @ [CHR 0x0A]) (opr\<lparr>po_arg1 := SetString m (po_arg1 opr), po_arg2 := SetString n (po_arg2 opr)\<rparr>)"
    using fstream.parses_map [OF parses_line [OF assms(2)],
        where f = "\<lambda>ret str. if ret then (?set1 m)\<lparr>po_arg2 := SetString str (po_arg2 (?set1 m))\<rparr> else ?set1 m"]
    by (simp add: Let_def)
  then show ?thesis
    using fstream.parses_bind [OF parses_line [OF assms(1)], where q = ?q] by (simp add: ReadGlobalArgs_def [abs_def] Let_def)
qed

lemma parses_args:
  assumes "op_valid d" "po_code opr = op_code d" "po_cat opr = GetOpcat (op_code d)" "po_arg_num opr = 0"
  shows "fstream.parses (read_args sys_read opr) (arg_bytes d) (set_args d opr)"
proof -
  note defs = read_args_def [abs_def] GetOpcat_def
  let ?set_int = "\<lambda>num. opr\<lparr>po_arg_num := 1, po_arg1 := SetInt num (po_arg1 opr)\<rparr>"
  have keep: "opr\<lparr>po_arg_num := 0\<rparr> = opr" using assms(4) by simp
  show ?thesis
  proof (cases d)
    case (P_Proto v)
    then show ?thesis
      using fstream.parses_map [OF parses_read1, where f = "\<lambda>_ v. set_args (P_Proto v) opr"] assms by (simp add: defs)
  next
    case (P_Plain code)
    then show ?thesis
      using assms(1-3) fstream.parses_return plain_code_cat [of code]
      by (auto simp: read_args_def [abs_def] ReadPersidArgs_def GetOpcat_def [of "0x51"] keep)
  next
    case (P_Memo8 code k)
    then have "k < 256" and code: "code = 0x71 \<or> code = 0x68" using assms(1) by auto
    then show ?thesis
      using fstream.parses_map_any [OF fstream.parses_map [OF parses_read1 [OF \<open>k < 256\<close>], of "\<lambda>_. int"], where f = ?set_int]
        assms(2,3) P_Memo8 by (elim disjE) (simp_all add: defs ReadPutGetArg_def)
  next
    case (P_Memo32 code k)
    then have "k < 2 ^ 32" and code: "code = 0x72 \<or> code = 0x6A" using assms(1) by auto
    then show ?thesis
      using fstream.parses_map_any [OF fstream.parses_map [OF parses_read4 [OF \<open>k < 2 ^ 32\<close>], of "\<lambda>_. to_i32"], where f = ?set_int]
        assms(2,3) P_Memo32 by (elim disjE) (simp_all add: defs ReadPutGetArg_def)
  next
    case (P_MemoLine code str)
    then have "line_ok str" and code: "code = 0x70 \<or> code = 0x67" using assms(1) by auto
    then show ?thesis
      using fstream.parses_map_any [OF fstream.parses_map [OF parses_line [OF \<open>line_ok str\<close>], of "\<lambda>_ str. atoi (c_str str)"],
          where f = ?set_int]
        assms(2,3) P_MemoLine by (elim disjE) (simp_all add: defs ReadPutGetArg_def)
  next
    case (P_Int k)
    then show ?thesis
      using fstream.parses_map [OF fstream.parses_map [OF parses_read4, of k "\<lambda>_. to_i32"], where f = "\<lambda>_. ?set_int"]
        assms by (simp add: defs ReadInt_def)
  next
    case (P_Int1 k)
    then show ?thesis
      using fstream.parses_map [OF fstream.parses_map [OF parses_read1, of k "\<lambda>ret v. if ret then int v else 0"], where f = "\<lambda>_. ?set_int"]
        assms by (simp add: defs ReadInt_def)
  next
    case (P_Int2 k)
    then show ?thesis
      using fstream.parses_map [OF fstream.parses_map [OF parses_read2, of k "\<lambda>ret v. if ret then int v else 0"], where f = "\<lambda>_. ?set_int"]
        assms by (simp add: defs ReadInt_def)
  next
    case (P_Long bs)
    then show ?thesis
      using fstream.parses_map [OF parses_ReadLong, of bs "\<lambda>_ _. opr\<lparr>po_arg_num := 1\<rparr>"] assms by (simp add: defs)
  next
    case (P_Str str)
    then show ?thesis
      using fstream.parses_map [OF fstream.parses_map [OF parses_ReadString32, of str "\<lambda>ret str. if ret then SetString str (po_arg1 opr) else po_arg1 opr"],
          where f = "\<lambda>_ arg. opr\<lparr>po_arg1 := arg, po_arg_num := 1\<rparr>"]
        assms by (simp add: defs ReadStringArg_def)
  next
    case (P_Global m n)
    then show ?thesis
      using fstream.parses_map [OF parses_ReadGlobalArgs, of m n opr "\<lambda>_ opr. opr\<lparr>po_arg_num := 2\<rparr>"] assms by (simp add: defs)
  next
    case (P_Persid str)
    then show ?thesis
      using fstream.parses_map [OF fstream.parses_map [OF parses_line, of str "\<lambda>ret str. if ret then opr\<lparr>po_arg1 := SetString str (po_arg1 opr)\<rparr> else opr"],
          where f = "\<lambda>_ opr. opr\<lparr>po_arg_num := (if po_code opr = 0x50 then 1 else 0)\<rparr>"]
        assms by (simp add: defs ReadPersidArgs_def)
  qed
qed

lemma parses_ReadOperation:
  assumes "op_valid d" "op_code d < 256"
  shows "fstream.parses (ReadOperation sys_read opr) (op_bytes d) (op_value opr d)"
proof -
  let ?opr = "opr\<lparr>po_code := op_code d, po_cat := GetOpcat (op_code d), po_arg_num := 0\<rparr>"
  let ?q = "\<lambda>ret code s. if \<not> ret then Some (False, (Oper_Clear opr)\<lparr>po_code := code\<rparr>, s)
      else read_args sys_read ((Oper_Clear opr)\<lparr>po_code := code, po_cat := GetOpcat code\<rparr>) s"
  have opr: "(Oper_Clear opr)\<lparr>po_code := op_code d, po_cat := GetOpcat (op_code d)\<rparr> = ?opr" by (simp add: Oper_Clear_def)
  have "fstream.parses (read_args sys_read ?opr) (arg_bytes d) (set_args d ?opr)"
    by (rule parses_args [OF assms(1)]) simp_all
  then have "fstream.parses (?q True (op_code d)) (arg_bytes d) (op_value opr d)"
    unfolding op_value_def GetOpcat_category [OF assms(1), symmetric] by (simp add: opr)
  then show ?thesis
    using fstream.parses_bind [OF parses_read1 [OF assms(2)], where q = ?q] by (simp add: ReadOperation_def [abs_def] op_bytes_def)
qed

end

section \<open>Reading the operations of a section\<close>

abbreviation ops_bytes :: "pickle_op list \<Rightarrow> string" where
  "ops_bytes ds \<equiv> concat (map op_bytes ds)"

text \<open>Behind the last \<open>Stop\<close> the section ends; behind an earlier one the bytes do not look like that.\<close>

definition section_ends :: "string \<Rightarrow> bool" where
  "section_ends bs \<longleftrightarrow> take 4 bs = section_end_key \<or> take 1 bs = [CHR 0x00]"

fun pickle_ok :: "pickle_op list \<Rightarrow> string \<Rightarrow> bool" where
  "pickle_ok [] tail = False"
| "pickle_ok (d # ds) tail \<longleftrightarrow> op_valid d \<and>
     (if d = P_Plain 0x2E
      then 4 \<le> length (ops_bytes ds @ tail) \<and> (if ds = [] then section_ends tail else \<not> section_ends (ops_bytes ds @ tail) \<and> pickle_ok ds tail)
      else pickle_ok ds tail)"

lemma op_code_byte: "op_valid d \<Longrightarrow> op_code d < 256"
  by (cases d) (auto simp: plain_code_def plain_codes_def)

lemma op_code_Stop: "op_valid d \<Longrightarrow> op_code d = 0x2E \<longleftrightarrow> d = P_Plain 0x2E"
  by (cases d) auto

lemma po_code_op_value [simp]: "po_code (op_value opr d) = op_code d"
  by (cases d) (simp_all add: op_value_def)

context regular_file
begin

lemma Pickle_Read_loop_ok:
  assumes "pickle_ok ds tail" "plain_stream s" "rest_of s = ops_bytes ds @ tail"
  shows "\<exists>s'. Pickle_Read_loop sys_read fresh opr opr_list s = Some (True, opr_list @ op_values opr ds, s')
    \<and> plain_stream s' \<and> rest_of s' = tail"
  using assms
proof (induction ds arbitrary: opr opr_list s)
  case (Cons d ds)
  have d: "op_valid d" "op_code d < 256" using Cons.prems(1) op_code_byte by auto
  obtain s1 where s1: "ReadOperation sys_read opr s = Some (True, op_value opr d, s1)" "plain_stream s1"
      "rest_of s1 = ops_bytes ds @ tail"
    by (rule fstream.parsesE [OF parses_ReadOperation [OF d] Cons.prems(2), of "ops_bytes ds @ tail" opr]) (use Cons.prems(3) in auto)
  let ?list = "opr_list @ [op_value opr d]"
  show ?case
  proof (cases "d = P_Plain 0x2E")
    case False
    then have "pickle_ok ds tail" using Cons.prems(1) by simp
    from Cons.IH [OF this s1(2,3), of "op_value opr d" ?list] show ?thesis
      using s1(1) False d(1) by (subst Pickle_Read_loop.simps) (simp add: op_code_Stop)
  next
    case True
    obtain s2 s3 where s2: "FS_Read sys_read s1 4 = Some (4 \<le> length (rest_of s1), take 4 (rest_of s1), s2)"
        "SeekRd s2 (TellRd s1) SEEK_WAY_ABS = (True, s3)" "plain_stream s3" "fs_file s3 = fs_file s1" "fs_offset_rd s3 = fs_offset_rd s1"
      using read_ahead [OF s1(2), of 4] by auto
    have len: "4 \<le> length (rest_of s1)" using Cons.prems(1) s1(3) True by simp
    have rest3: "rest_of s3 = ops_bytes ds @ tail" using s2(4,5) s1(3) by simp
    have step: "Pickle_Read_loop sys_read fresh opr opr_list s =
        (if section_ends (rest_of s1) then Some (True, ?list, s3) else Pickle_Read_loop sys_read fresh (op_value opr d) ?list s3)"
      using s1(1) s2(1,2) len True by (subst Pickle_Read_loop.simps) (simp add: section_ends_def Let_def min_def)
    show ?thesis
    proof (cases "ds = []")
      case True
      then show ?thesis using step Cons.prems(1) \<open>d = P_Plain 0x2E\<close> s1(3) s2(3) rest3 by simp
    next
      case False
      then have "pickle_ok ds tail" "\<not> section_ends (rest_of s1)" using Cons.prems(1) \<open>d = P_Plain 0x2E\<close> s1(3) by auto
      then show ?thesis using Cons.IH [OF _ s2(3) rest3, of "op_value opr d" ?list] step by simp
    qed
  qed
qed simp

end

text \<open>
  C40. The operations of a pickle section are read back: whatever operations the bytes describe, in
  pickles one behind the other up to the \<open>Stop\<close> that ends the section, the reader yields them with
  their opcodes, their categories (those of the format, given by the operation, not by the code) and
  their arguments, and leaves the stream behind this \<open>Stop\<close>. An operation without arguments keeps
  the arguments of the one before, and so does a long number, whose bytes are skipped.
\<close>

theorem Pickle_Read_ops:
  assumes "regular_file sys_read" "plain_stream s" "rest_of s = ops_bytes ds @ tail" "pickle_ok ds tail"
  shows "\<exists>s'. Pickle_Read sys_read fresh s = Some (True, op_values new_PickleOperation ds, s') \<and> plain_stream s' \<and> rest_of s' = tail"
  using regular_file.Pickle_Read_loop_ok [OF assms(1,4,2,3), of fresh new_PickleOperation "[]"] by (simp add: Pickle_Read_def)

text \<open>Two pickles in one section: the first \<open>Stop\<close> is followed by the start of the second.\<close>

definition two_pickles :: "pickle_op list" where
  "two_pickles = [P_Proto 2, P_Int1 7, P_Plain 0x2E, P_Proto 2, P_Plain 0x7D, P_Memo8 0x71 0, P_Str ''w'', P_Global ''torch'' ''HalfStorage'',
     P_Int 0xFFFFFFFF, P_Plain 0x2E]"

lemma two_pickles_ok: "pickle_ok two_pickles section_end_key"
  by (simp add: two_pickles_def section_ends_def op_bytes_def section_end_key_def plain_code_def plain_codes_def line_ok_def char_of_def bit_0)

theorem Pickle_Read_ops_witness:
  "\<exists>s'. Pickle_Read full_read (\<lambda>n. replicate n CHR 0x00)
      (snd (Open_read new_FileStream (Some (ops_bytes two_pickles @ section_end_key))))
    = Some (True, op_values new_PickleOperation two_pickles, s')"
proof -
  obtain s where s: "Open_read new_FileStream (Some (ops_bytes two_pickles @ section_end_key)) = (True, s)" "plain_stream s"
      "fs_file s = ops_bytes two_pickles @ section_end_key" "fs_offset_rd s = 0"
    using Open_read_plain by blast
  then have "rest_of s = ops_bytes two_pickles @ section_end_key" by simp
  from Pickle_Read_ops [OF full.regular_file_axioms s(2) this two_pickles_ok]
  show ?thesis using s(1) by auto
qed

section \<open>Finding and reading the header of a section\<close>

context regular_file
begin

lemma match_key_ok:
  assumes "plain_stream s" "length ks \<le> length (rest_of s)"
  shows "\<exists>cur' s'. match_key sys_read ks cur s = Some (prefix ks (rest_of s), cur', s') \<and> plain_stream s' \<and> fs_file s' = fs_file s
    \<and> (prefix ks (rest_of s) \<longrightarrow> fs_offset_rd s' = fs_offset_rd s + length ks)"
  using assms
proof (induction ks arbitrary: cur s)
  case (Cons k ks)
  obtain c r where r: "rest_of s = c # r" using Cons.prems(2) by (cases "rest_of s") auto
  obtain s1 where s1: "FS_Read sys_read s 1 = Some (True, [c], s1)" "plain_stream s1" "fs_file s1 = fs_file s"
      "fs_offset_rd s1 = fs_offset_rd s + 1"
    using FS_Read_plain [OF Cons.prems(1), of 1] r by auto
  have r1: "rest_of s1 = r" using s1(3,4) r by (metis drop_Suc_Cons drop_0 drop_drop add.commute plus_1_eq_Suc)
  show ?case
  proof (cases "c = k")
    case True
    have "length ks \<le> length r" using Cons.prems(2) r by (metis Suc_le_mono length_Cons)
    then have "length ks \<le> length (rest_of s1)" using r1 by simp
    from Cons.IH [OF s1(2) this, of c] show ?thesis using True s1 r r1 by simp
  next
    case False
    then show ?thesis using s1 r by simp
  qed
qed simp

lemma SeekByKey_loop_ok:
  assumes "plain_stream s" "rest_of s = pre @ (ch0 # ks) @ tail"
    and "\<And>j. j < length pre \<Longrightarrow> \<not> prefix (ch0 # ks) (drop j (pre @ (ch0 # ks) @ tail))"
  shows "\<exists>s'. SeekByKey_loop sys_read ch0 ks cur s = Some (True, s') \<and> plain_stream s' \<and> fs_file s' = fs_file s
    \<and> fs_offset_rd s' = fs_offset_rd s + length pre + length (ch0 # ks)"
  using assms
proof (induction pre arbitrary: s cur)
  case Nil
  obtain s1 where s1: "FS_Read sys_read s 1 = Some (True, [ch0], s1)" "plain_stream s1" "fs_file s1 = fs_file s"
      "fs_offset_rd s1 = fs_offset_rd s + 1"
    using FS_Read_plain [OF Nil.prems(1), of 1] Nil.prems(2) by auto
  have r1: "rest_of s1 = ks @ tail" using s1(3,4) Nil.prems(2) by (metis append_Cons append_Nil drop_Suc_Cons drop_0 drop_drop add.commute plus_1_eq_Suc)
  have "length ks \<le> length (rest_of s1)" "prefix ks (rest_of s1)" using r1 by simp_all
  then obtain cur' s2 where "match_key sys_read ks ch0 s1 = Some (True, cur', s2)" "plain_stream s2" "fs_file s2 = fs_file s1"
      "fs_offset_rd s2 = fs_offset_rd s1 + length ks"
    using match_key_ok [OF s1(2), of ks ch0] by auto
  then show ?case using s1 by (subst SeekByKey_loop.simps) simp
next
  case (Cons c pre)
  obtain s1 where s1: "FS_Read sys_read s 1 = Some (True, [c], s1)" "plain_stream s1" "fs_file s1 = fs_file s"
      "fs_offset_rd s1 = fs_offset_rd s + 1"
    using FS_Read_plain [OF Cons.prems(1), of 1] Cons.prems(2) by auto
  have r1: "rest_of s1 = pre @ (ch0 # ks) @ tail" using s1(3,4) Cons.prems(2)
    by (metis append_Cons drop_Suc_Cons drop_0 drop_drop add.commute plus_1_eq_Suc)
  have none: "\<not> prefix (ch0 # ks) (drop j (pre @ (ch0 # ks) @ tail))" if "j < length pre" for j
    using Cons.prems(3) [of "Suc j"] that by simp
  show ?case
  proof (cases "c = ch0")
    case False
    then show ?thesis using Cons.IH [OF s1(2) r1 none, of c] s1 by (subst SeekByKey_loop.simps) auto
  next
    case True
    then have no: "\<not> prefix ks (rest_of s1)" using Cons.prems(3) [of 0] r1 by simp
    have "length ks \<le> length (rest_of s1)" using r1 by simp
    from match_key_ok [OF s1(2) this, of c]
    obtain cur' s2 where s2: "match_key sys_read ks c s1 = Some (False, cur', s2)" "plain_stream s2" "fs_file s2 = fs_file s1"
      using no by auto
    let ?s3 = "s2\<lparr>fs_offset_rd := TellRd s1\<rparr>"
    have "TellRd s1 \<le> length (fs_file s2)" using s1(2) s2(3) by (simp add: plain_stream_def TellRd_def)
    then have s3: "SeekRd s2 (TellRd s1) SEEK_WAY_ABS = (True, ?s3)" "plain_stream ?s3" using SeekRd_plain [OF s2(2)] by auto
    have r3: "rest_of ?s3 = pre @ (ch0 # ks) @ tail" using r1 s2(3) by (simp add: TellRd_def)
    show ?thesis using Cons.IH [OF s3(2) r3 none, of cur'] s1 s2 s3(1) True
      by (subst SeekByKey_loop.simps) (auto simp: TellRd_def)
  qed
qed

lemma SeekByKey_finds:
  assumes "plain_stream s" "rest_of s = pre @ key @ tail" "key \<noteq> []"
    and "\<And>j. j < length pre \<Longrightarrow> \<not> prefix key (drop j (pre @ key @ tail))"
  shows "\<exists>s'. SeekByKey sys_read key s = Some (True, s') \<and> plain_stream s' \<and> fs_file s' = fs_file s
    \<and> fs_offset_rd s' = fs_offset_rd s + length pre + length key"
proof (cases key)
  case (Cons ch0 ks)
  then show ?thesis
    using SeekByKey_loop_ok [OF assms(1) _ assms(4) [unfolded Cons], of "CHR '' ''"] assms(2) by (simp add: SeekByKey_def)
qed (use assms(3) in simp)

lemma SeekRd_skip:
  assumes "plain_stream s" "rest_of s = xs @ tail" "n = length xs"
  obtains s' where "SeekRd s (TellRd s + n) SEEK_WAY_ABS = (True, s')" "plain_stream s'" "rest_of s' = tail"
proof -
  have "length (rest_of s) = n + length tail" using assms(2,3) by simp
  then have "TellRd s + n \<le> length (fs_file s)" using assms(1) by (auto simp: TellRd_def plain_stream_def)
  moreover have "drop (TellRd s + n) (fs_file s) = drop n (rest_of s)" by (simp add: TellRd_def add.commute)
  ultimately show ?thesis using that SeekRd_plain [OF assms(1)] assms(2,3) by simp
qed

lemma read_section_name_ok:
  assumes "plain_stream s" "rest_of s = bytes_le 2 (length name) @ bytes_le 2 (length extra) @ name @ extra @ tail"
    and "length name < 255" "length extra < 2 ^ 16"
  shows "\<exists>s'. read_section_name sys_read fresh True s = Some (True, c_str name, s') \<and> plain_stream s' \<and> rest_of s' = tail"
proof -
  have n: "length name < 2 ^ 16" "length name < 2 ^ 31" using assms(3) by simp_all
  obtain s1 where s1: "Read_le (FS_Read sys_read) 2 0 s = Some (True, length name, s1)" "plain_stream s1"
      "rest_of s1 = bytes_le 2 (length extra) @ name @ extra @ tail"
    by (rule fstream.parsesE [OF parses_read2 [OF n(1)] assms(1,2)])
  obtain s2 where s2: "Read_le (FS_Read sys_read) 2 0 s1 = Some (True, length extra, s2)" "plain_stream s2"
      "rest_of s2 = name @ extra @ tail"
    by (rule fstream.parsesE [OF parses_read2 [OF assms(4)] s1(2,3)])
  obtain s3 where s3: "FS_Read sys_read s2 (length name) = Some (True, name, s3)" "plain_stream s3" "rest_of s3 = extra @ tail"
    by (rule fstream.parsesE [OF fstream.parses_rd [OF n(2)] s2(2,3)])
  obtain s4 where "SeekRd s3 (TellRd s3 + length extra) SEEK_WAY_ABS = (True, s4)" "plain_stream s4" "rest_of s4 = tail"
    by (rule SeekRd_skip [OF s3(2,3) refl])
  then show ?thesis using s1(1) s2(1) s3(1) assms(3) by (simp add: read_section_name_def Let_def)
qed

end

text \<open>
  The bytes of a section header: the key, ten bytes of sizes and checksums, the lengths of the name
  and of the extra field, and these two.
\<close>

definition header_bytes :: "string \<Rightarrow> string \<Rightarrow> string \<Rightarrow> string" where
  "header_bytes ten name extra =
     section_header_key @ ten @ bytes_le 2 (length name) @ bytes_le 2 (length extra) @ name @ extra"

lemma section_header_key_length [simp]: "length section_header_key = 16" "section_header_key \<noteq> []"
  by (simp_all add: section_header_key_def)

context regular_file
begin

lemma ReadSectionHeader_find:
  assumes "plain_stream s" "length ten = 10" "length name < 255" "length extra < 2 ^ 16"
    and "rest_of s = pre @ header_bytes ten name extra @ tail"
    and "\<And>j. j < length pre \<Longrightarrow> \<not> prefix section_header_key (drop j (rest_of s))"
  shows "\<exists>s'. ReadSectionHeader sys_read fresh True s = Some (True, c_str name, s') \<and> plain_stream s' \<and> rest_of s' = tail"
proof -
  let ?names = "bytes_le 2 (length name) @ bytes_le 2 (length extra) @ name @ extra @ tail"
  have r: "rest_of s = pre @ section_header_key @ ten @ ?names" using assms(5) by (simp add: header_bytes_def)
  obtain s1 where s1: "SeekByKey sys_read section_header_key s = Some (True, s1)" "plain_stream s1" "fs_file s1 = fs_file s"
      "fs_offset_rd s1 = fs_offset_rd s + length pre + 16"
    using SeekByKey_finds [OF assms(1) r] assms(6) r by auto
  have "rest_of s1 = drop (length pre + 16) (rest_of s)" using s1(3,4) by (simp add: ac_simps)
  then have "rest_of s1 = ten @ ?names" using r by simp
  then obtain s2 where s2: "SeekRd s1 (TellRd s1 + 10) SEEK_WAY_ABS = (True, s2)" "plain_stream s2" "rest_of s2 = ?names"
    using SeekRd_skip [OF s1(2) _ assms(2) [symmetric]] by blast
  from read_section_name_ok [OF s2(2,3) assms(3,4), of fresh] s1(1) s2(1) show ?thesis by (simp add: ReadSectionHeader_def)
qed

lemma ReadSectionHeader_here:
  assumes "plain_stream s" "length ten = 10" "length name < 255" "length extra < 2 ^ 16"
    and "rest_of s = header_bytes ten name extra @ tail"
  shows "\<exists>s'. ReadSectionHeader sys_read fresh False s = Some (True, c_str name, s') \<and> plain_stream s' \<and> rest_of s' = tail"
proof -
  let ?names = "bytes_le 2 (length name) @ bytes_le 2 (length extra) @ name @ extra @ tail"
  have r: "rest_of s = (section_header_key @ ten) @ ?names" using assms(5) by (simp add: header_bytes_def)
  have len: "16 \<le> length (rest_of s)" "take 16 (rest_of s) = section_header_key" unfolding r by simp_all
  obtain s1 where s1: "FS_Read sys_read s 16 = Some (True, section_header_key, s1)" "plain_stream s1" "fs_file s1 = fs_file s"
    using FS_Read_plain [OF assms(1), of 16] len by auto
  let ?s2 = "s1\<lparr>fs_offset_rd := TellRd s + 26\<rparr>"
  have "length (rest_of s) \<ge> 26" unfolding r using assms(2) by simp
  then have "TellRd s + 26 \<le> length (fs_file s1)" using s1(3) by (simp add: TellRd_def)
  then have s2: "SeekRd s1 (TellRd s + 26) SEEK_WAY_ABS = (True, ?s2)" "plain_stream ?s2" using SeekRd_plain [OF s1(2)] by auto
  have "rest_of ?s2 = drop 26 (rest_of s)" using s1(3) by (simp add: TellRd_def add.commute)
  then have "rest_of ?s2 = ?names" unfolding r using assms(2) by simp
  from read_section_name_ok [OF s2(2) this assms(3,4), of fresh] s1(1) s2(1) show ?thesis by (simp add: ReadSectionHeader_def)
qed

lemma ReadSectionHeader_none:
  assumes "plain_stream s" "16 \<le> length (rest_of s)" "\<not> prefix section_header_key (rest_of s)"
  shows "\<exists>s'. ReadSectionHeader sys_read fresh False s = Some (True, [], s') \<and> plain_stream s' \<and> rest_of s' = rest_of s"
proof -
  obtain s1 s2 where s1: "FS_Read sys_read s 16 = Some (True, take 16 (rest_of s), s1)"
      "SeekRd s1 (TellRd s) SEEK_WAY_ABS = (True, s2)" "plain_stream s2" "fs_file s2 = fs_file s" "fs_offset_rd s2 = fs_offset_rd s"
    using read_ahead [OF assms(1), of 16] assms(2) by auto
  have "take 16 (rest_of s) \<noteq> section_header_key" using assms(3) by (metis take_is_prefix)
  then show ?thesis using s1 assms(2) by (simp add: ReadSectionHeader_def)
qed

end

text \<open>
  Reading a section header. When the next header is searched for, bytes that hold no key are
  skipped and the stream is left at the data of the next section; otherwise the header is read only
  where the stream starts with the key, and a stream without it stays where it is.
\<close>

lemma ReadSectionHeader_reads:
  assumes "regular_file sys_read" "plain_stream s" "length ten = 10" "length name < 255" "length extra < 2 ^ 16"
  shows "(rest_of s = pre @ header_bytes ten name extra @ tail \<and> (find_first \<or> pre = [])
      \<and> (\<forall>j < length pre. \<not> prefix section_header_key (drop j (rest_of s)))
      \<longrightarrow> (\<exists>s'. ReadSectionHeader sys_read fresh find_first s = Some (True, c_str name, s') \<and> plain_stream s' \<and> rest_of s' = tail))
    \<and> (16 \<le> length (rest_of s) \<and> \<not> prefix section_header_key (rest_of s)
      \<longrightarrow> (\<exists>s'. ReadSectionHeader sys_read fresh False s = Some (True, [], s') \<and> plain_stream s' \<and> rest_of s' = rest_of s))"
proof (intro conjI impI; elim conjE)
  assume r: "rest_of s = pre @ header_bytes ten name extra @ tail" and "find_first \<or> pre = []"
    and none: "\<forall>j < length pre. \<not> prefix section_header_key (drop j (rest_of s))"
  then show "\<exists>s'. ReadSectionHeader sys_read fresh find_first s = Some (True, c_str name, s') \<and> plain_stream s' \<and> rest_of s' = tail"
  proof (cases find_first)
    case True
    have "\<exists>s'. ReadSectionHeader sys_read fresh True s = Some (True, c_str name, s') \<and> plain_stream s' \<and> rest_of s' = tail"
      by (rule regular_file.ReadSectionHeader_find [OF assms r]) (use none in blast)
    then show ?thesis using True by simp
  next
    case False
    then have "rest_of s = header_bytes ten name extra @ tail" using r \<open>find_first \<or> pre = []\<close> by simp
    from regular_file.ReadSectionHeader_here [OF assms this, of fresh] show ?thesis using False by simp
  qed
qed (rule regular_file.ReadSectionHeader_none [OF assms(1,2)])

lemma ReadSectionHeader_reads_witness:
  "\<exists>s'. ReadSectionHeader full_read (\<lambda>n. replicate n CHR 0x00) True
      (snd (Open_read new_FileStream (Some (''junk'' @ header_bytes (replicate 10 CHR 0x00) ''archive/data.pkl'' ''FB'' @ ''data''))))
    = Some (True, ''archive/data.pkl'', s') \<and> rest_of s' = ''data''"
proof -
  let ?file = "''junk'' @ header_bytes (replicate 10 CHR 0x00) ''archive/data.pkl'' ''FB'' @ ''data''"
  obtain s where s: "Open_read new_FileStream (Some ?file) = (True, s)" "plain_stream s" "fs_file s = ?file" "fs_offset_rd s = 0"
    using Open_read_plain by blast
  then have r: "rest_of s = ?file" by simp
  obtain ks where key: "section_header_key = CHR ''P'' # ks" by (simp add: section_header_key_def char_of_def bit_0)
  have "\<forall>j < length ''junk''. \<not> prefix section_header_key (drop j (rest_of s))"
    unfolding r key by (auto simp: less_Suc_eq)
  from ReadSectionHeader_reads [OF full.regular_file_axioms s(2), of "replicate 10 CHR 0x00" "''archive/data.pkl''" "''FB''" "''junk''" "''data''" True "\<lambda>n. replicate n CHR 0x00"] this r
  show ?thesis using s(1) by (auto simp: c_str_def)
qed

end
