(* ===== verification/PickleModelFormat.thy ===== *)
theory PickleModelFormat
  imports PickleModel PickleFormat
begin

text \<open>
  The pickle of a state dictionary as PyTorch writes it, and the theorem that the header reader of
  theory \<open>PickleModel\<close> finds its tensors.
\<close>

section \<open>Tensors as operations\<close>

text \<open>
  A pickler stores every string and global it writes in the memo and fetches it from there when it
  occurs again.
\<close>

datatype 'a memoized = Fresh 'a nat | Again nat

definition put_op :: "nat \<Rightarrow> pickle_op" where
  "put_op m = (if m < 256 then P_Memo8 0x71 m else P_Memo32 0x72 m)"

definition get_op :: "nat \<Rightarrow> pickle_op" where
  "get_op m = (if m < 256 then P_Memo8 0x68 m else P_Memo32 0x6A m)"

definition int_op :: "nat \<Rightarrow> pickle_op" where
  "int_op k = (if k < 256 then P_Int1 k else if k < 2 ^ 16 then P_Int2 k else P_Int k)"

fun str_ops :: "string memoized \<Rightarrow> pickle_op list" where
  "str_ops (Fresh str m) = [P_Str str, put_op m]"
| "str_ops (Again m) = [get_op m]"

fun global_ops :: "(string \<times> string) memoized \<Rightarrow> pickle_op list" where
  "global_ops (Fresh (md, nm) m) = [P_Global md nm, put_op m]"
| "global_ops (Again m) = [get_op m]"

record entry =
  en_name :: string
  en_name_memo :: nat
  en_rebuild :: "(string \<times> string) memoized"
  en_storage_word :: "string memoized"
  en_etype :: ElementType
  en_type :: "(string \<times> string) memoized"
  en_section :: string
  en_section_memo :: nat
  en_device :: "string memoized"
  en_size :: nat
  en_offset :: nat
  en_shape :: "nat list"
  en_strides :: "nat list"
  en_memos :: "nat list"
  en_hooks :: "(string \<times> string) memoized"

text \<open>The opcode of a tuple of one or two numbers.\<close>

definition tuple_code :: "nat list \<Rightarrow> nat" where
  "tuple_code xs = (if length xs = 1 then 0x85 else 0x86)"

definition head_ops :: "entry \<Rightarrow> pickle_op list" where
  "head_ops e = [P_Str (en_name e), put_op (en_name_memo e)] @ global_ops (en_rebuild e) @ [P_Plain 0x28, P_Plain 0x28]"

definition storage_ops :: "entry \<Rightarrow> pickle_op list" where
  "storage_ops e = str_ops (en_storage_word e) @ global_ops (en_type e) @ [P_Str (en_section e), put_op (en_section_memo e)]
     @ str_ops (en_device e) @ [int_op (en_size e), P_Plain 0x74, put_op (en_memos e ! 0), P_Plain 0x51]"

definition shape_ops :: "entry \<Rightarrow> pickle_op list" where
  "shape_ops e = [int_op (en_offset e)] @ map int_op (en_shape e) @ [P_Plain (tuple_code (en_shape e)), put_op (en_memos e ! 1)]
     @ map int_op (en_strides e) @ [P_Plain (tuple_code (en_strides e)), put_op (en_memos e ! 2), P_Plain 0x89]"

definition rest_ops :: "entry \<Rightarrow> pickle_op list" where
  "rest_ops e = global_ops (en_hooks e) @ [P_Plain 0x29, P_Plain 0x52, put_op (en_memos e ! 3), P_Plain 0x74, put_op (en_memos e ! 4),
     P_Plain 0x52, put_op (en_memos e ! 5)]"

definition entry_ops :: "entry \<Rightarrow> pickle_op list" where
  "entry_ops e = head_ops e @ storage_ops e @ shape_ops e @ rest_ops e"

section \<open>Values of operations\<close>

lemma po_cat_op_value [simp]: "po_cat (op_value opr d) = op_category d"
  by (cases d) (simp_all add: op_value_def)

lemma cat_put [simp]: "op_category (put_op m) = OC_Put"
  by (simp add: put_op_def)

lemma cat_get [simp]: "op_category (get_op m) = OC_Get"
  by (simp add: get_op_def)

lemma cat_int [simp]: "op_category (int_op k) = OC_PushInt"
  by (simp add: int_op_def)

lemma code_quiet [simp]:
  "op_code (put_op m) \<notin> {0x63, 0x29, 0x89, 0x86}" "op_code (get_op m) \<notin> {0x63, 0x29, 0x89, 0x86}"
  "op_code (int_op k) \<notin> {0x63, 0x29, 0x89, 0x86}"
  by (simp_all add: put_op_def get_op_def int_op_def)

lemma nv_put [simp]: "m < 2 ^ 31 \<Longrightarrow> pa_nv (po_arg1 (op_value opr (put_op m))) = int m"
  by (simp add: put_op_def op_value_def SetInt_def)

lemma nv_get [simp]: "m < 2 ^ 31 \<Longrightarrow> pa_nv (po_arg1 (op_value opr (get_op m))) = int m"
  by (simp add: get_op_def op_value_def SetInt_def)

lemma nv_int [simp]: "k < 2 ^ 31 \<Longrightarrow> pa_nv (po_arg1 (op_value opr (int_op k))) = int k"
  by (simp add: int_op_def op_value_def SetInt_def)

lemma num_int [simp]: "po_arg_num (op_value opr (int_op k)) = 1"
  by (simp add: int_op_def op_value_def)

lemma str_value [simp]: "pa_str (po_arg1 (op_value opr (P_Str str))) = Some (c_str str)"
  by (simp add: op_value_def SetString_def)

lemma global_value [simp]: "pa_str (po_arg1 (op_value opr (P_Global md nm))) = Some (c_str md)"
  "pa_str (po_arg2 (op_value opr (P_Global md nm))) = Some (c_str nm)" "po_arg_num (op_value opr (P_Global md nm)) = 2"
  by (simp_all add: op_value_def SetString_def)

lemma op_values_append: "op_values opr (ds @ es) = op_values opr ds @ op_values (foldl op_value opr ds) es"
  by (induction ds arbitrary: opr) auto

section \<open>Steps\<close>

lemma plain_categories [simp]:
  "map_of plain_codes 0x28 = Some OC_Mark" "map_of plain_codes 0x51 = Some OC_Persid" "map_of plain_codes 0x52 = Some OC_Reduce"
  "map_of plain_codes 0x7D = Some OC_EmptyCollection" "map_of plain_codes 0x75 = Some OC_SetItems"
  "map_of plain_codes 0x2E = Some OC_Stop" "map_of plain_codes 0x74 = Some OC_TupleX" "map_of plain_codes 0x85 = Some OC_TupleX"
  "map_of plain_codes 0x86 = Some OC_TupleX" "map_of plain_codes 0x29 = Some OC_EmptyCollection"
  "map_of plain_codes 0x89 = Some OC_PushBool"
  by (simp_all add: plain_codes_def)

text \<open>The parts of a step that an operation does not concern.\<close>

lemma header_skip:
  "po_cat opr \<notin> {OC_Mark, OC_Put, OC_Get} \<Longrightarrow> header_count prevs opr st = st"
  "po_cat opr \<noteq> OC_PushString \<Longrightarrow> header_string opr rest st = Some (False, st)"
  "po_code opr \<noteq> 0x63 \<Longrightarrow> header_global opr rest st = Some st"
  "po_cat opr \<noteq> OC_Get \<Longrightarrow> header_get opr st = st"
  "po_cat opr \<noteq> OC_TupleX \<Longrightarrow> header_tuple prevs opr st = st"
  "po_code opr \<noteq> 0x29 \<Longrightarrow> po_code opr \<noteq> 0x89 \<Longrightarrow> header_emit opr st = Some st"
  by (simp_all add: header_count_def header_string_def header_global_def header_get_def header_tuple_def header_emit_def)

lemma step_put [simp]:
  "header_step prevs (op_value opr (put_op m)) rest st = Some (False, st\<lparr>ph_put_get_count := ph_put_get_count st + 1\<rparr>)"
  using code_quiet(1) [of m] by (simp add: header_step_def header_skip header_count_def)

lemma step_int [simp]: "header_step prevs (op_value opr (int_op k)) rest st = Some (False, st)"
  using code_quiet(3) [of k] by (simp add: header_step_def header_skip)

lemma step_get [simp]:
  "header_step prevs (op_value opr (get_op m)) rest st
    = Some (False, header_get (op_value opr (get_op m)) (st\<lparr>ph_put_get_count := ph_put_get_count st + 1\<rparr>))"
  using code_quiet(2) [of m] by (simp add: header_step_def header_skip header_count_def)

lemma header_get_keeps [simp]:
  "ph_tensor (header_get opr st) = ph_tensor st" "ph_table (header_get opr st) = ph_table st"
  "ph_sections (header_get opr st) = ph_sections st" "ph_pushed_data_types (header_get opr st) = ph_pushed_data_types st"
  "ph_put_get_count (header_get opr st) = ph_put_get_count st"
  by (auto simp: header_get_def Let_def split: option.splits)

lemma step_mark [simp]:
  "header_step prevs (op_value opr (P_Plain 0x28)) rest st
    = Some (False, if prev_is prevs OC_Mark then st\<lparr>ph_put_get_count := 0\<rparr> else st)"
  by (simp add: header_step_def header_skip header_count_def)

lemma step_quiet [simp]:
  "header_step prevs (op_value opr (P_Plain 0x51)) rest st = Some (False, st)"
  "header_step prevs (op_value opr (P_Plain 0x52)) rest st = Some (False, st)"
  "header_step prevs (op_value opr (P_Plain 0x7D)) rest st = Some (False, st)"
  "header_step prevs (op_value opr (P_Plain 0x75)) rest st = Some (False, st)"
  "header_step prevs (op_value opr (P_Plain 0x2E)) rest st = Some (False, st)"
  "header_step prevs (op_value opr (P_Proto v)) rest st = Some (False, st)"
  by (simp_all add: header_step_def header_skip)

lemma step_tuple [simp]:
  "header_step prevs (op_value opr (P_Plain 0x74)) rest st = Some (False, header_tuple prevs (op_value opr (P_Plain 0x74)) st)"
  "header_step prevs (op_value opr (P_Plain 0x85)) rest st = Some (False, header_tuple prevs (op_value opr (P_Plain 0x85)) st)"
  "header_step prevs (op_value opr (P_Plain 0x86)) rest st = Some (False, header_tuple prevs (op_value opr (P_Plain 0x86)) st)"
  by (simp_all add: header_step_def header_skip)

lemma step_str [simp]:
  "header_step prevs (op_value opr (P_Str str)) rest st = header_string (op_value opr (P_Str str)) rest st"
  by (cases "header_string (op_value opr (P_Str str)) rest st") (auto simp: header_step_def header_skip)

lemma step_global [simp]:
  "header_step prevs (op_value opr (P_Global md nm)) rest st
    = map_option (Pair False) (header_global (op_value opr (P_Global md nm)) rest st)"
  by (cases "header_global (op_value opr (P_Global md nm)) rest st") (simp_all add: header_step_def header_skip)

lemma step_emit [simp]:
  "header_step prevs (op_value opr (P_Plain 0x29)) rest st
    = map_option (Pair False) (header_emit (op_value opr (P_Plain 0x29)) st)"
  "header_step prevs (op_value opr (P_Plain 0x89)) rest st
    = map_option (Pair False) (header_emit (op_value opr (P_Plain 0x89)) st)"
  by (cases "header_emit (op_value opr (P_Plain 0x29)) st"; simp add: header_step_def header_skip)
    (cases "header_emit (op_value opr (P_Plain 0x89)) st"; simp add: header_step_def header_skip)

lemma next_put_put [simp]: "m < 2 ^ 31 \<Longrightarrow> next_put (op_value opr (put_op m) # rest) = Some (int m)"
  by (simp add: next_put_def)

lemma prev_is_op [simp]: "prev_is (op_value opr d # prevs) cat \<longleftrightarrow> op_category d = cat"
  by (simp add: prev_is_def)

section \<open>Entries that can be written\<close>

definition written :: "'a \<Rightarrow> 'a memoized \<Rightarrow> bool" where
  "written v x = (case x of Fresh y m \<Rightarrow> y = v \<and> m < 2 ^ 31 | Again m \<Rightarrow> m < 2 ^ 31)"

fun storage_name :: "ElementType \<Rightarrow> string" where
  "storage_name ET_F32 = ''FloatStorage''"
| "storage_name ET_BF16 = ''BFloat16Storage''"
| "storage_name _ = ''HalfStorage''"

definition name_ok :: "string \<Rightarrow> bool" where
  "name_ok str \<longleftrightarrow> str \<noteq> [] \<and> CHR 0x00 \<notin> set str \<and> length str < 2 ^ 31 \<and> \<not> CaseCmp_eq str ''_metadata''"

text \<open>
  \<open>types\<close> are the element types in the memo. The device string must not look like a section, and its
  place in the memo not be that of an element type.
\<close>

definition types_after :: "entry \<Rightarrow> (nat \<rightharpoonup> ElementType) \<Rightarrow> (nat \<rightharpoonup> ElementType)" where
  "types_after e types = (case en_type e of Fresh _ m \<Rightarrow> types(m \<mapsto> en_etype e) | Again m \<Rightarrow> types)"

definition entry_ok :: "(nat \<rightharpoonup> ElementType) \<Rightarrow> entry \<Rightarrow> bool" where
  "entry_ok types e \<longleftrightarrow> name_ok (en_name e) \<and> en_name_memo e < 2 ^ 31
     \<and> written (''torch._utils'', ''_rebuild_tensor_v2'') (en_rebuild e) \<and> written ''storage'' (en_storage_word e)
     \<and> en_etype e \<in> {ET_F32, ET_F16, ET_BF16} \<and> written (''torch'', storage_name (en_etype e)) (en_type e)
     \<and> (case en_type e of Again m \<Rightarrow> types m = Some (en_etype e) | _ \<Rightarrow> True)
     \<and> name_ok (en_section e) \<and> is_digit (hd (en_section e)) \<and> en_section_memo e < 2 ^ 31
     \<and> (case en_device e of Fresh str m \<Rightarrow> name_ok str \<and> \<not> is_digit (hd str) \<and> m < 2 ^ 31
          | Again m \<Rightarrow> m < 2 ^ 31 \<and> types_after e types m = None)
     \<and> 0 < en_size e \<and> en_size e < 2 ^ 31 \<and> en_offset e < 2 ^ 31
     \<and> length (en_shape e) \<in> {1, 2} \<and> (\<forall>k \<in> set (en_shape e). k < 2 ^ 31)
     \<and> length (en_strides e) = length (en_shape e) \<and> (\<forall>k \<in> set (en_strides e). k < 2 ^ 31)
     \<and> length (en_memos e) = 6 \<and> (\<forall>m \<in> set (en_memos e). m < 2 ^ 31)
     \<and> written (''collections'', ''OrderedDict'') (en_hooks e)"

fun entries_ok :: "(nat \<rightharpoonup> ElementType) \<Rightarrow> entry list \<Rightarrow> bool" where
  "entries_ok types [] = True"
| "entries_ok types (e # es) \<longleftrightarrow> entry_ok types e \<and> entries_ok (types_after e types) es"

text \<open>
  The specification of a tensor: the shape with the innermost dimension first; the offset in the
  storage is taken from tensors of two dimensions only.
\<close>

definition entry_spec :: "entry \<Rightarrow> TensorSpec" where
  "entry_spec e = (let t = new_TensorSpec\<lparr>ts_name := en_name e, ts_dims := int (length (en_shape e)),
       ts_ne := map int (rev (en_shape e)) @ replicate (3 - length (en_shape e)) 0, ts_size := of_nat (en_size e),
       ts_data_type := ElementType_value (en_etype e)\<rparr>
     in if length (en_shape e) = 2 then t\<lparr>ts_offset_in_data_source := int (en_offset e), ts_has_start_offset := True\<rparr> else t)"

section \<open>Runs of the state machine\<close>

text \<open>
  \<open>hoare P ds Q\<close>: wherever the operations \<open>ds\<close> occur in the list, the machine takes a state with \<open>P\<close>
  over them to a state with \<open>Q\<close>.
\<close>

definition runs :: "PickleOperation \<Rightarrow> pickle_op list \<Rightarrow> PickleHeader \<Rightarrow> PickleHeader \<Rightarrow> bool" where
  "runs opr ds st st' \<longleftrightarrow> (\<forall>prevs rest. header_loop prevs (op_values opr ds @ rest) st = header_loop (rev (op_values opr ds) @ prevs) rest st')"

definition hoare :: "(PickleHeader \<Rightarrow> bool) \<Rightarrow> pickle_op list \<Rightarrow> (PickleHeader \<Rightarrow> bool) \<Rightarrow> bool" where
  "hoare P ds Q \<longleftrightarrow> (\<forall>opr st. P st \<longrightarrow> (\<exists>st'. runs opr ds st st' \<and> Q st'))"

lemma hoareI: "(\<And>opr st. P st \<Longrightarrow> \<exists>st'. runs opr ds st st' \<and> Q st') \<Longrightarrow> hoare P ds Q"
  by (simp add: hoare_def)

lemma runs_append: "runs opr ds st st1 \<Longrightarrow> runs (foldl op_value opr ds) es st1 st2 \<Longrightarrow> runs opr (ds @ es) st st2"
  by (simp add: runs_def op_values_append)

lemma hoare_append [intro]: "hoare P ds Q \<Longrightarrow> hoare Q es R \<Longrightarrow> hoare P (ds @ es) R"
  unfolding hoare_def using runs_append by meson

lemma hoare_Cons: "hoare P [d] Q \<Longrightarrow> hoare Q es R \<Longrightarrow> hoare P (d # es) R"
  using hoare_append [of P "[d]" Q es R] by simp

lemma hoare_Nil: "hoare P [] P"
  by (auto simp: hoare_def runs_def)

lemma hoare_op:
  assumes "\<And>opr st. P st \<Longrightarrow> \<exists>st'. (\<forall>prevs rest. header_step prevs (op_value opr d) rest st = Some (False, st')) \<and> Q st'"
  shows "hoare P [d] Q"
proof (rule hoareI)
  fix opr st
  assume "P st"
  then obtain st' where "\<forall>prevs rest. header_step prevs (op_value opr d) rest st = Some (False, st')" "Q st'" using assms by blast
  then show "\<exists>st'. runs opr [d] st st' \<and> Q st'" by (auto simp: runs_def)
qed

text \<open>An operation whose step looks at the operation behind it.\<close>

lemma hoare_op2:
  assumes "\<And>opr st. P st \<Longrightarrow> \<exists>st'. (\<forall>prevs rest. header_step prevs (op_value opr d) (op_value (op_value opr d) d' # rest) st
      = Some (False, st')) \<and> Q st'"
    and "\<And>opr st. Q st \<Longrightarrow> \<exists>st'. (\<forall>prevs rest. header_step prevs (op_value opr d') rest st = Some (False, st')) \<and> R st'"
  shows "hoare P [d, d'] R"
proof (rule hoareI)
  fix opr st
  assume "P st"
  then obtain st1 where st1: "\<forall>prevs rest. header_step prevs (op_value opr d) (op_value (op_value opr d) d' # rest) st = Some (False, st1)" "Q st1"
    using assms(1) by blast
  then obtain st2 where "\<forall>prevs rest. header_step prevs (op_value (op_value opr d) d') rest st1 = Some (False, st2)" "R st2"
    using assms(2) by blast
  then show "\<exists>st'. runs opr [d, d'] st st' \<and> R st'" using st1 by (auto simp: runs_def)
qed

text \<open>What is known of a state: the tensor under construction, the tables, the types in the memo and the counter.\<close>

definition at :: "TensorSpec \<Rightarrow> TensorSpecTable \<Rightarrow> (string, StrAndCount) omap \<Rightarrow> (nat \<rightharpoonup> ElementType) \<Rightarrow> int \<Rightarrow> PickleHeader \<Rightarrow> bool" where
  "at t table sections types n st \<longleftrightarrow> ph_tensor st = t \<and> ph_table st = table \<and> ph_sections st = sections
     \<and> (\<forall>m. omap_find (ph_pushed_data_types st) (int m) = types m) \<and> ph_put_get_count st = n"

definition typed :: "ElementType \<Rightarrow> string \<Rightarrow> PickleHeader \<Rightarrow> bool" where
  "typed etype sect st \<longleftrightarrow> ph_local_data_type st = etype \<and> ph_tensor_section_name st = sect"

lemma at_update [simp]:
  "at t table sections types n (st\<lparr>ph_put_get_count := k\<rparr>) \<longleftrightarrow> k = n \<and> at t table sections types (ph_put_get_count st) st"
  "at t table sections types n (header_get opr st) = at t table sections types n st"
  "typed etype sect (st\<lparr>ph_put_get_count := k\<rparr>) = typed etype sect st"
  by (auto simp: at_def typed_def)

lemma name_ok_c_str: "name_ok str \<Longrightarrow> c_str str = str"
  by (auto simp: name_ok_def c_str_def takeWhile_eq_all_conv)

text \<open>The same without the counter.\<close>

definition near :: "TensorSpec \<Rightarrow> TensorSpecTable \<Rightarrow> (string, StrAndCount) omap \<Rightarrow> (nat \<rightharpoonup> ElementType) \<Rightarrow> PickleHeader \<Rightarrow> bool" where
  "near t table sections types st = at t table sections types (ph_put_get_count st) st"

lemma near_update [simp]:
  "near t table sections types (st\<lparr>ph_put_get_count := k\<rparr>) = near t table sections types st"
  "near t table sections types (header_get opr st) = near t table sections types st"
  by (auto simp: near_def at_def)

lemma at_near: "at t table sections types n st \<longleftrightarrow> near t table sections types st \<and> ph_put_get_count st = n"
  by (auto simp: near_def at_def)

section \<open>The parts of an entry\<close>

lemma nocase_words:
  "\<not> CaseCmp_eq ''torch._utils'' ''collections''" "\<not> CaseCmp_eq ''torch._utils'' ''torch''" "\<not> CaseCmp_eq ''torch'' ''collections''"
  "CaseCmp_eq ''torch'' ''torch''" "CaseCmp_eq ''collections'' ''collections''" "\<not> CaseCmp_eq ''storage'' ''_metadata''"
  by (simp_all add: CaseCmp_eq_def nocase_key_def to_lower_def)

lemma c_str_words [simp]:
  "c_str ''torch._utils'' = ''torch._utils''" "c_str ''torch'' = ''torch''" "c_str ''collections'' = ''collections''"
  "c_str ''storage'' = ''storage''" "c_str (storage_name t) = storage_name t"
  by (simp_all add: c_str_def) (cases t; simp)

lemma find_storage_types:
  "nocase_find pickle_data_types ''FloatStorage'' = Some ET_F32" "nocase_find pickle_data_types ''HalfStorage'' = Some ET_F16"
  "nocase_find pickle_data_types ''BFloat16Storage'' = Some ET_BF16"
  by code_simp+

lemma find_storage_name: "t \<in> {ET_F32, ET_F16, ET_BF16} \<Longrightarrow> nocase_find pickle_data_types (storage_name t) = Some t"
  by (auto simp: find_storage_types)

lemma hoare_put:
  assumes "\<And>st k. P (st\<lparr>ph_put_get_count := k\<rparr>) = P st"
  shows "hoare P [put_op m] P"
  by (rule hoare_op) (use assms in auto)

lemma hoare_name:
  assumes "name_ok str"
  shows "hoare (near new_TensorSpec table sections types) [P_Str str] (near (new_TensorSpec\<lparr>ts_name := str\<rparr>) table sections types)"
proof (rule hoare_op)
  fix opr st
  assume st: "near new_TensorSpec table sections types st"
  let ?st = "st\<lparr>ph_tensor := (ph_tensor st)\<lparr>ts_name := str\<rparr>, ph_storage := if ph_need_storage st then str else ph_storage st,
      ph_need_storage := CaseCmp_eq str ''storage''\<rparr>"
  have "ts_name (ph_tensor st) = []" using st by (simp add: near_def at_def new_TensorSpec_def)
  then have "\<forall>prevs rest. header_step prevs (op_value opr (P_Str str)) rest st = Some (False, ?st)"
    using assms by (auto simp: header_string_def name_ok_c_str [OF assms] name_ok_def Let_def)
  moreover have "near (new_TensorSpec\<lparr>ts_name := str\<rparr>) table sections types ?st" using st by (auto simp: near_def at_def)
  ultimately show "\<exists>st'. (\<forall>prevs rest. header_step prevs (op_value opr (P_Str str)) rest st = Some (False, st'))
      \<and> near (new_TensorSpec\<lparr>ts_name := str\<rparr>) table sections types st'" by blast
qed

text \<open>Globals that are no element types.\<close>

lemma hoare_global_quiet:
  assumes "x \<in> {(''torch._utils'', ''_rebuild_tensor_v2''), (''collections'', ''OrderedDict'')}" "written x y"
  shows "hoare (near t table sections types) (global_ops y) (near t table sections types)"
proof (cases y)
  case (Fresh z m)
  have "hoare (near t table sections types) [P_Global (fst x) (snd x)] (near t table sections types)"
    by (rule hoare_op) (use assms(1) in \<open>auto simp: header_global_def near_def at_def nocase_words\<close>)
  then have "hoare (near t table sections types) ([P_Global (fst x) (snd x)] @ [put_op m]) (near t table sections types)"
    by (rule hoare_append) (rule hoare_put, simp)
  moreover have "global_ops y = [P_Global (fst x) (snd x), put_op m]" using assms(2) Fresh by (cases x) (simp add: written_def)
  ultimately show ?thesis by simp
next
  case (Again m)
  show ?thesis unfolding Again global_ops.simps by (rule hoare_op) auto
qed

lemma hoare_marks: "hoare (near t table sections types) [P_Plain 0x28, P_Plain 0x28] (at t table sections types 0)"
proof (rule hoareI)
  fix opr st
  assume st: "near t table sections types st"
  show "\<exists>st'. runs opr [P_Plain 0x28, P_Plain 0x28] st st' \<and> at t table sections types 0 st'"
  proof (intro exI conjI)
    show "runs opr [P_Plain 0x28, P_Plain 0x28] st (st\<lparr>ph_put_get_count := 0\<rparr>)"
      by (auto simp: runs_def)
  qed (use st in \<open>simp add: near_def\<close>)
qed

lemma hoare_head:
  assumes "entry_ok types e"
  shows "hoare (near new_TensorSpec table sections types) (head_ops e) (at (new_TensorSpec\<lparr>ts_name := en_name e\<rparr>) table sections types 0)"
proof -
  let ?N = "near (new_TensorSpec\<lparr>ts_name := en_name e\<rparr>) table sections types"
  have e: "name_ok (en_name e)" "written (''torch._utils'', ''_rebuild_tensor_v2'') (en_rebuild e)"
    using assms by (simp_all add: entry_ok_def)
  have name: "hoare (near new_TensorSpec table sections types) [P_Str (en_name e), put_op (en_name_memo e)] ?N"
    by (rule hoare_Cons [OF hoare_name [OF e(1)]]) (rule hoare_put, simp)
  have "hoare ?N (global_ops (en_rebuild e)) ?N" by (rule hoare_global_quiet [OF _ e(2)]) simp
  then show ?thesis unfolding head_ops_def using name hoare_marks by (blast intro: hoare_append)
qed

lemma hoare_bump:
  assumes "\<And>st k. P (st\<lparr>ph_put_get_count := k\<rparr>) = P st"
  shows "hoare (\<lambda>st. at t table sections types n st \<and> P st) [put_op m] (\<lambda>st. at t table sections types (n + 1) st \<and> P st)"
  by (rule hoare_op) (use assms in \<open>auto simp: at_near\<close>)

lemma hoare_storage_word:
  assumes "written ''storage'' x" "ts_name t \<noteq> []"
  shows "hoare (at t table sections types 0) (str_ops x) (at t table sections types 1)"
proof (cases x)
  case (Fresh y m)
  have "hoare (at t table sections types 0) [P_Str ''storage''] (at t table sections types 0)"
  proof (rule hoare_op)
    fix opr st
    assume st: "at t table sections types 0 st"
    let ?st = "st\<lparr>ph_storage := if ph_need_storage st then ''storage'' else ph_storage st, ph_need_storage := CaseCmp_eq ''storage'' ''storage''\<rparr>"
    have "ts_name (ph_tensor st) \<noteq> []" "\<not> is_digit (CHR ''s'')" using st assms(2) by (simp_all add: at_def is_digit_def)
    then have "\<forall>prevs rest. header_step prevs (op_value opr (P_Str ''storage'')) rest st = Some (False, ?st)"
      by (auto simp: header_string_def nocase_words Let_def)
    moreover have "at t table sections types 0 ?st" using st by (auto simp: at_def)
    ultimately show "\<exists>st'. (\<forall>prevs rest. header_step prevs (op_value opr (P_Str ''storage'')) rest st = Some (False, st'))
        \<and> at t table sections types 0 st'" by blast
  qed
  then have "hoare (at t table sections types 0) [P_Str ''storage'', put_op m] (at t table sections types 1)"
    using hoare_Cons hoare_bump [of "\<lambda>_. True" t table sections types 0 m] by simp
  then show ?thesis using assms(1) Fresh by (simp add: written_def)
next
  case (Again m)
  show ?thesis unfolding Again str_ops.simps by (rule hoare_op) (auto simp: at_near)
qed

lemma hoare_type:
  assumes "entry_ok types e"
  shows "hoare (at t table sections types 1) (global_ops (en_type e))
    (\<lambda>st. at t table sections (types_after e types) 2 st \<and> ph_local_data_type st = en_etype e)"
proof (cases "en_type e")
  case (Fresh y m)
  then have m: "m < 2 ^ 31" "y = (''torch'', storage_name (en_etype e))" and et: "en_etype e \<in> {ET_F32, ET_F16, ET_BF16}"
    using assms by (simp_all add: entry_ok_def written_def)
  have "hoare (at t table sections types 1) [P_Global ''torch'' (storage_name (en_etype e)), put_op m]
      (\<lambda>st. at t table sections (types_after e types) 2 st \<and> ph_local_data_type st = en_etype e)"
  proof (rule hoare_op2)
    fix opr st
    assume st: "at t table sections types 1 st"
    let ?st = "st\<lparr>ph_local_data_type := en_etype e, ph_data_type := if ph_need_storage st then en_etype e else ph_data_type st,
        ph_pushed_data_types := omap_put (int m) (en_etype e) (ph_pushed_data_types st), ph_need_storage := False\<rparr>"
    have "\<forall>prevs rest. header_step prevs (op_value opr (P_Global ''torch'' (storage_name (en_etype e))))
        (op_value (op_value opr (P_Global ''torch'' (storage_name (en_etype e)))) (put_op m) # rest) st = Some (False, ?st)"
      using m(1) by (auto simp: header_global_def nocase_words find_storage_name [OF et] Let_def)
    moreover have "at t table sections (types_after e types) 1 ?st" using st Fresh by (auto simp: at_def types_after_def omap_find_put)
    ultimately show "\<exists>st'. (\<forall>prevs rest. header_step prevs (op_value opr (P_Global ''torch'' (storage_name (en_etype e))))
        (op_value (op_value opr (P_Global ''torch'' (storage_name (en_etype e)))) (put_op m) # rest) st = Some (False, st'))
        \<and> (at t table sections (types_after e types) 1 st' \<and> ph_local_data_type st' = en_etype e)" by fastforce
  qed (auto simp: at_near)
  then show ?thesis using Fresh m(2) by simp
next
  case (Again m)
  then have m: "m < 2 ^ 31" "types m = Some (en_etype e)" using assms by (simp_all add: entry_ok_def written_def)
  show ?thesis unfolding Again global_ops.simps
  proof (rule hoare_op)
    fix opr st
    assume st: "at t table sections types 1 st"
    let ?st = "header_get (op_value opr (get_op m)) (st\<lparr>ph_put_get_count := ph_put_get_count st + 1\<rparr>)"
    have "omap_find (ph_pushed_data_types st) (int m) = Some (en_etype e)" using st m(2) by (simp add: at_def)
    then have "ph_local_data_type ?st = en_etype e" using st m(1) by (simp add: header_get_def at_def)
    moreover have "at t table sections (types_after e types) 2 ?st" using st Again by (simp add: at_near types_after_def)
    ultimately show "\<exists>st'. (\<forall>prevs rest. header_step prevs (op_value opr (get_op m)) rest st = Some (False, st'))
        \<and> (at t table sections (types_after e types) 2 st' \<and> ph_local_data_type st' = en_etype e)" by auto
  qed
qed

text \<open>From here on the element type and the section of the tensor are known.\<close>

definition known :: "TensorSpec \<Rightarrow> TensorSpecTable \<Rightarrow> (string, StrAndCount) omap \<Rightarrow> (nat \<rightharpoonup> ElementType) \<Rightarrow> entry \<Rightarrow> PickleHeader \<Rightarrow> bool" where
  "known t table sections types e st \<longleftrightarrow> near t table sections types st \<and> typed (en_etype e) (en_section e) st"

lemma known_update [simp]: "known t table sections types e (st\<lparr>ph_put_get_count := k\<rparr>) = known t table sections types e st"
  by (simp add: known_def)

lemma known_tensor: "known t table sections types e st \<Longrightarrow> ph_tensor st = t \<and> known t' table sections types e (st\<lparr>ph_tensor := t'\<rparr>)"
  by (auto simp: known_def near_def at_def typed_def)

lemma hoare_section:
  assumes "entry_ok types0 e" "ts_name t \<noteq> []"
  shows "hoare (\<lambda>st. at t table sections types 2 st \<and> ph_local_data_type st = en_etype e)
    [P_Str (en_section e), put_op (en_section_memo e)] (\<lambda>st. known t table sections types e st \<and> ph_put_get_count st = 3)"
proof -
  let ?s = "en_section e" and ?m = "en_section_memo e"
  have e: "name_ok ?s" "is_digit (hd ?s)" "?m < 2 ^ 31" using assms(1) by (simp_all add: entry_ok_def)
  show ?thesis
  proof (rule hoare_op2)
    fix opr st
    assume st: "at t table sections types 2 st \<and> ph_local_data_type st = en_etype e"
    let ?st = "st\<lparr>ph_tensor_section_name := ?s, ph_section_map := omap_put (int ?m) ?s (ph_section_map st),
        ph_storage := if ph_need_storage st then ?s else ph_storage st, ph_need_storage := CaseCmp_eq ?s ''storage''\<rparr>"
    have "ts_name (ph_tensor st) \<noteq> []" "ph_put_get_count st = 2" using st assms(2) by (simp_all add: at_def)
    then have "\<forall>prevs rest. header_step prevs (op_value opr (P_Str ?s)) (op_value (op_value opr (P_Str ?s)) (put_op ?m) # rest) st = Some (False, ?st)"
      using e by (auto simp: header_string_def name_ok_c_str name_ok_def Let_def)
    moreover have "known t table sections types e ?st \<and> ph_put_get_count ?st = 2" using st by (auto simp: known_def near_def at_def typed_def)
    ultimately show "\<exists>st'. (\<forall>prevs rest. header_step prevs (op_value opr (P_Str ?s)) (op_value (op_value opr (P_Str ?s)) (put_op ?m) # rest) st = Some (False, st'))
        \<and> (known t table sections types e st' \<and> ph_put_get_count st' = 2)" by blast
  qed auto
qed

lemma hoare_device:
  assumes "entry_ok types0 e" "types = types_after e types0" "ts_name t \<noteq> []"
  shows "hoare (\<lambda>st. known t table sections types e st \<and> ph_put_get_count st = 3) (str_ops (en_device e)) (known t table sections types e)"
proof (cases "en_device e")
  case (Fresh str m)
  then have e: "name_ok str" "\<not> is_digit (hd str)" using assms(1) by (simp_all add: entry_ok_def)
  have "hoare (known t table sections types e) [P_Str str] (known t table sections types e)"
  proof (rule hoare_op)
    fix opr st
    assume st: "known t table sections types e st"
    let ?st = "st\<lparr>ph_storage := if ph_need_storage st then str else ph_storage st, ph_need_storage := CaseCmp_eq str ''storage''\<rparr>"
    have "ts_name (ph_tensor st) \<noteq> []" using st assms(3) by (simp add: known_def near_def at_def)
    then have "\<forall>prevs rest. header_step prevs (op_value opr (P_Str str)) rest st = Some (False, ?st)"
      using e by (auto simp: header_string_def name_ok_c_str name_ok_def Let_def)
    moreover have "known t table sections types e ?st" using st by (auto simp: known_def near_def at_def typed_def)
    ultimately show "\<exists>st'. (\<forall>prevs rest. header_step prevs (op_value opr (P_Str str)) rest st = Some (False, st'))
        \<and> known t table sections types e st'" by blast
  qed
  then have "hoare (known t table sections types e) [P_Str str, put_op m] (known t table sections types e)"
    by (rule hoare_Cons) (rule hoare_put, simp)
  then show ?thesis using Fresh by (simp add: hoare_def)
next
  case (Again m)
  then have m: "m < 2 ^ 31" "types m = None" using assms(1,2) by (simp_all add: entry_ok_def)
  show ?thesis unfolding Again str_ops.simps
  proof (rule hoare_op)
    fix opr st
    assume st: "known t table sections types e st \<and> ph_put_get_count st = 3"
    then have "omap_find (ph_pushed_data_types st) (int m) = None" using m(2) by (simp add: known_def near_def at_def)
    then have "header_get (op_value opr (get_op m)) (st\<lparr>ph_put_get_count := ph_put_get_count st + 1\<rparr>) = st\<lparr>ph_put_get_count := 4\<rparr>"
      using st m(1) by (simp add: header_get_def)
    then show "\<exists>st'. (\<forall>prevs rest. header_step prevs (op_value opr (get_op m)) rest st = Some (False, st')) \<and> known t table sections types e st'"
      using st by auto
  qed
qed

lemma hoare_size:
  assumes "k < 2 ^ 31" "ts_size t = 0"
  shows "hoare (known t table sections types e) [int_op k, P_Plain 0x74, put_op m, P_Plain 0x51]
    (known (t\<lparr>ts_size := of_nat k\<rparr>) table sections types e)"
proof (rule hoareI)
  fix opr st
  assume st: "known t table sections types e st"
  let ?st = "st\<lparr>ph_tensor := t\<lparr>ts_size := of_nat k\<rparr>, ph_put_get_count := ph_put_get_count st + 1\<rparr>"
  have "runs opr [int_op k, P_Plain 0x74, put_op m, P_Plain 0x51] st ?st"
    using known_tensor [OF st] assms by (simp add: runs_def header_tuple_def)
  then show "\<exists>st'. runs opr [int_op k, P_Plain 0x74, put_op m, P_Plain 0x51] st st' \<and> known (t\<lparr>ts_size := of_nat k\<rparr>) table sections types e st'"
    using known_tensor [OF st, of "t\<lparr>ts_size := of_nat k\<rparr>"] by auto
qed

lemma known_runs:
  assumes "known t table sections types e st" "runs opr ds st (st\<lparr>ph_tensor := t', ph_put_get_count := n\<rparr>)"
  shows "\<exists>st'. runs opr ds st st' \<and> known t' table sections types e st'"
  using known_tensor [OF assms(1), of t'] assms(2) by auto

lemma hoare_shape1:
  assumes "d < 2 ^ 31" "ts_size t \<noteq> 0" "ts_dims t = 0"
  shows "hoare (known t table sections types e) [int_op off, int_op d, P_Plain 0x85, put_op m]
    (known (t\<lparr>ts_dims := 1, ts_ne := (ts_ne t)[0 := int d]\<rparr>) table sections types e)"
proof (rule hoareI)
  fix opr st
  assume st: "known t table sections types e st"
  show "\<exists>st'. runs opr [int_op off, int_op d, P_Plain 0x85, put_op m] st st'
      \<and> known (t\<lparr>ts_dims := 1, ts_ne := (ts_ne t)[0 := int d]\<rparr>) table sections types e st'"
    by (rule known_runs [OF st, where n = "ph_put_get_count st + 1"])
      (use known_tensor [OF st] assms in \<open>simp add: runs_def header_tuple_def Let_def\<close>)
qed

lemma hoare_shape2:
  assumes "off < 2 ^ 31" "a < 2 ^ 31" "b < 2 ^ 31" "ts_size t \<noteq> 0" "ts_dims t = 0"
  shows "hoare (known t table sections types e) [int_op off, int_op a, int_op b, P_Plain 0x86, put_op m]
    (known (t\<lparr>ts_ne := (ts_ne t)[0 := int b, 1 := int a], ts_dims := 2, ts_offset_in_data_source := int off,
       ts_has_start_offset := True\<rparr>) table sections types e)"
proof (rule hoareI)
  fix opr st
  assume st: "known t table sections types e st"
  let ?t = "t\<lparr>ts_ne := (ts_ne t)[0 := int b, 1 := int a], ts_dims := 2, ts_offset_in_data_source := int off, ts_has_start_offset := True\<rparr>"
  show "\<exists>st'. runs opr [int_op off, int_op a, int_op b, P_Plain 0x86, put_op m] st st' \<and> known ?t table sections types e st'"
    by (rule known_runs [OF st, where n = "ph_put_get_count st + 1"])
      (use known_tensor [OF st] assms in \<open>simp add: runs_def header_tuple_def Let_def\<close>)
qed

lemma tuple_known:
  assumes "known t table sections types e st" "ts_size t \<noteq> 0" "ts_dims t \<noteq> 0"
  shows "header_tuple prevs opr st = st"
  using assms known_tensor [OF assms(1)] by (auto simp: header_tuple_def Let_def)

lemma hoare_ints: "hoare P (map int_op ks) P"
proof (induction ks)
  case (Cons k ks)
  have "hoare P [int_op k] P" by (rule hoare_op) auto
  then show ?case using hoare_Cons Cons by simp
qed (simp add: hoare_Nil)

lemma hoare_strides:
  assumes "ts_size t \<noteq> 0" "ts_dims t \<noteq> 0"
  shows "hoare (known t table sections types e) (map int_op ks @ [P_Plain (tuple_code ks), put_op m]) (known t table sections types e)"
proof -
  have "hoare (known t table sections types e) [P_Plain (tuple_code ks)] (known t table sections types e)"
    by (rule hoare_op) (use tuple_known [OF _ assms] in \<open>auto simp: tuple_code_def\<close>)
  then have "hoare (known t table sections types e) [P_Plain (tuple_code ks), put_op m] (known t table sections types e)"
    by (rule hoare_Cons) (rule hoare_put, simp)
  then show ?thesis by (rule hoare_append [OF hoare_ints])
qed

text \<open>A tensor with a new name and a section of its own enters the tables.\<close>

definition section_of :: "TensorSpecTable \<Rightarrow> entry \<Rightarrow> StrAndCount" where
  "section_of table e = \<lparr>sc_str = en_name e, sc_count = 1,
     sc_tensor_id_arr = [Some (int (length (tensor_array_of table))), None, None, None, None]\<rparr>"

lemma hoare_emit:
  assumes "ts_name t = en_name e" "ts_size t \<noteq> 0" "en_section e \<noteq> []"
    and "omap_find (name2idx table) (en_name e) = None" "omap_find sections (en_section e) = None"
  shows "hoare (known t table sections types e) [P_Plain 0x89]
    (near new_TensorSpec (snd (TST_Add table (t\<lparr>ts_data_type := ElementType_value (en_etype e)\<rparr>)))
      (omap_put (en_section e) (section_of table e) sections) types)"
proof (rule hoare_op)
  fix opr st
  assume st: "known t table sections types e st"
  let ?t = "t\<lparr>ts_data_type := ElementType_value (en_etype e)\<rparr>" and ?i = "length (tensor_array_of table)"
  let ?table = "table\<lparr>tensor_array_of := tensor_array_of table @ [?t], name2idx := omap_put (en_name e) (int ?i) (name2idx table)\<rparr>"
  let ?sections = "omap_put (en_section e) (section_of table e) sections"
  have add: "TST_Add table ?t = (int ?i, ?table)" using assms(1,4) by (simp add: TST_Add_def Let_def)
  have handle: "Pickle_HandleSectionName sections ?i ?table (en_section e) = Some (?sections, ?table)"
    using assms(1,5) by (simp add: Pickle_HandleSectionName_def TST_GetIndex_def omap_find_put new_StrAndCount_def
        MAX_TENSORS_PER_DATA_SECTION_def section_of_def numeral_eq_Suc)
  have fields: "ph_tensor st = t" "ph_table st = table" "ph_sections st = sections" "ph_local_data_type st = en_etype e"
    "ph_tensor_section_name st = en_section e" using st by (simp_all add: known_def near_def at_def typed_def)
  have pos: "0 < ts_size t" using assms(2) by (simp add: word_neq_0_conv)
  have "\<exists>st'. header_emit (op_value opr (P_Plain 0x89)) st = Some st' \<and> near new_TensorSpec ?table ?sections types st'"
    using st fields pos assms(3) add handle by (auto simp: header_emit_def Let_def known_def near_def at_def)
  then show "\<exists>st'. (\<forall>prevs rest. header_step prevs (op_value opr (P_Plain 0x89)) rest st = Some (False, st'))
      \<and> near new_TensorSpec (snd (TST_Add table ?t)) ?sections types st'"
    by (auto simp: add)
qed

lemma hoare_rest:
  assumes "entry_ok types0 e"
  shows "hoare (near new_TensorSpec table sections types) (rest_ops e) (near new_TensorSpec table sections types)"
proof -
  let ?N = "near new_TensorSpec table sections types"
  have hooks: "hoare ?N (global_ops (en_hooks e)) ?N"
    using assms by (intro hoare_global_quiet [of "(''collections'', ''OrderedDict'')"]) (auto simp: entry_ok_def)
  have empty: "hoare ?N [P_Plain 0x29] ?N"
    by (rule hoare_op) (auto simp: header_emit_def near_def at_def new_TensorSpec_def)
  have reduce: "hoare ?N [P_Plain 0x52] ?N" by (rule hoare_op) auto
  have put: "hoare ?N [put_op m] ?N" for m by (rule hoare_put) simp
  have tuple: "hoare ?N [put_op m, P_Plain 0x74, put_op m'] ?N" for m m'
  proof (rule hoareI)
    fix opr st
    assume st: "?N st"
    have "runs opr [put_op m, P_Plain 0x74, put_op m'] st (st\<lparr>ph_put_get_count := 2 + ph_put_get_count st\<rparr>)"
      by (simp add: runs_def header_tuple_def)
    then show "\<exists>st'. runs opr [put_op m, P_Plain 0x74, put_op m'] st st' \<and> ?N st'" using st by auto
  qed
  have "hoare ?N ([P_Plain 0x29] @ [P_Plain 0x52] @ [put_op (en_memos e ! 3), P_Plain 0x74, put_op (en_memos e ! 4)]
      @ [P_Plain 0x52] @ [put_op (en_memos e ! 5)]) ?N"
    using empty reduce put tuple by (blast intro: hoare_append)
  then show ?thesis unfolding rest_ops_def using hooks by (simp add: hoare_append)
qed

lemma hoare_entry:
  assumes "entry_ok types e" "omap_find (name2idx table) (en_name e) = None" "omap_find sections (en_section e) = None"
  shows "hoare (near new_TensorSpec table sections types) (entry_ops e)
    (near new_TensorSpec (snd (TST_Add table (entry_spec e))) (omap_put (en_section e) (section_of table e) sections) (types_after e types))"
proof -
  let ?t = "new_TensorSpec\<lparr>ts_name := en_name e\<rparr>" and ?ty = "types_after e types"
  let ?u = "?t\<lparr>ts_size := of_nat (en_size e)\<rparr>"
  let ?w = "(entry_spec e)\<lparr>ts_data_type := 0\<rparr>"
  have e: "written ''storage'' (en_storage_word e)" "en_size e < 2 ^ 31" "0 < en_size e" "en_offset e < 2 ^ 31" "en_section e \<noteq> []"
    "en_name e \<noteq> []" "length (en_shape e) \<in> {1, 2}" "\<forall>k \<in> set (en_shape e). k < 2 ^ 31"
    using assms(1) by (simp_all add: entry_ok_def name_ok_def)
  have t: "ts_name ?t \<noteq> []" "ts_size ?t = 0" using e(6) by (simp_all add: new_TensorSpec_def)
  have size: "(of_nat (en_size e) :: u32) \<noteq> 0" using e(2,3) by (auto simp: word_of_nat_eq_0_iff dest: dvd_imp_le)
  have storage: "hoare (at ?t table sections types 0) (storage_ops e) (known ?u table sections ?ty e)"
    unfolding storage_ops_def
    by (rule hoare_append [OF hoare_storage_word [OF e(1) t(1)]] hoare_append [OF hoare_type [OF assms(1)]]
        hoare_append [OF hoare_section [OF assms(1) t(1)]] hoare_append [OF hoare_device [OF assms(1) refl t(1)]]
        hoare_size [OF e(2) t(2)])+
  have shape: "hoare (known ?u table sections ?ty e)
      ([int_op (en_offset e)] @ map int_op (en_shape e) @ [P_Plain (tuple_code (en_shape e)), put_op (en_memos e ! 1)])
      (known ?w table sections ?ty e)"
  proof (cases "length (en_shape e) = 1")
    case True
    then obtain d where d: "en_shape e = [d]" by (auto simp: length_Suc_conv)
    then show ?thesis
      using hoare_shape1 [of d ?u table sections ?ty e "en_offset e" "en_memos e ! 1"] size e(8)
      by (simp add: tuple_code_def entry_spec_def new_TensorSpec_def numeral_2_eq_2)
  next
    case False
    then obtain a b where d: "en_shape e = [a, b]" using e(7) by (auto simp: length_Suc_conv numeral_2_eq_2)
    then show ?thesis
      using hoare_shape2 [of "en_offset e" a b ?u table sections ?ty e "en_memos e ! 1"] size e(4,8)
      by (simp add: tuple_code_def entry_spec_def new_TensorSpec_def)
  qed
  have w: "ts_name ?w = en_name e" "ts_size ?w \<noteq> 0" "ts_dims ?w \<noteq> 0"
      "?w\<lparr>ts_data_type := ElementType_value (en_etype e)\<rparr> = entry_spec e"
    using size e(7) by (auto simp: entry_spec_def new_TensorSpec_def Let_def)
  have emit: "hoare (known ?w table sections ?ty e) (map int_op (en_strides e) @ [P_Plain (tuple_code (en_strides e)), put_op (en_memos e ! 2)] @ [P_Plain 0x89])
      (near new_TensorSpec (snd (TST_Add table (entry_spec e))) (omap_put (en_section e) (section_of table e) sections) ?ty)"
    using hoare_append [OF hoare_strides [OF w(2,3)] hoare_emit [OF w(1,2) e(5) assms(2,3)]] w(4) by simp
  have "hoare (known ?u table sections ?ty e) (shape_ops e)
      (near new_TensorSpec (snd (TST_Add table (entry_spec e))) (omap_put (en_section e) (section_of table e) sections) ?ty)"
    using hoare_append [OF shape emit] by (simp add: shape_ops_def)
  from hoare_append [OF hoare_head [OF assms(1)] hoare_append [OF storage hoare_append [OF this hoare_rest [OF assms(1)]]]]
  show ?thesis by (simp add: entry_ops_def)
qed

section \<open>State dictionaries\<close>

definition enter :: "entry \<Rightarrow> TensorSpecTable \<times> (string, StrAndCount) omap \<Rightarrow> TensorSpecTable \<times> (string, StrAndCount) omap" where
  "enter e = (\<lambda>(table, sections). (snd (TST_Add table (entry_spec e)), omap_put (en_section e) (section_of table e) sections))"

lemma entry_spec_name [simp]: "ts_name (entry_spec e) = en_name e"
  by (simp add: entry_spec_def Let_def)

lemma enter_find:
  "x \<noteq> en_name e \<Longrightarrow> omap_find (name2idx (fst (enter e p))) x = omap_find (name2idx (fst p)) x"
  "y \<noteq> en_section e \<Longrightarrow> omap_find (snd (enter e p)) y = omap_find (snd p) y"
  by (auto simp: enter_def TST_Add_def Let_def omap_find_put split: prod.splits option.splits)

lemma enter_new:
  assumes "omap_find (name2idx (fst p)) (en_name e) = None"
  shows "tensor_array_of (fst (enter e p)) = tensor_array_of (fst p) @ [entry_spec e]"
    "omap_find (name2idx (fst (enter e p))) (en_name e) = Some (int (length (tensor_array_of (fst p))))"
    "omap_find (snd (enter e p)) (en_section e) = Some (section_of (fst p) e)"
  using assms by (auto simp: enter_def TST_Add_def Let_def omap_find_put split: prod.splits option.splits)

lemma fold_enter_find:
  "x \<notin> en_name ` set es \<Longrightarrow> omap_find (name2idx (fst (fold enter es p))) x = omap_find (name2idx (fst p)) x"
  "y \<notin> en_section ` set es \<Longrightarrow> omap_find (snd (fold enter es p)) y = omap_find (snd p) y"
  by (induction es arbitrary: p) (auto simp: enter_find)

text \<open>The names and sections of the entries are new and pairwise distinct.\<close>

definition new_entries :: "entry list \<Rightarrow> TensorSpecTable \<times> (string, StrAndCount) omap \<Rightarrow> bool" where
  "new_entries es p \<longleftrightarrow> distinct (map en_name es) \<and> distinct (map en_section es)
     \<and> (\<forall>e \<in> set es. omap_find (name2idx (fst p)) (en_name e) = None \<and> omap_find (snd p) (en_section e) = None)"

lemma new_entries_Cons: "new_entries (e # es) p \<Longrightarrow> new_entries es (enter e p)"
  by (auto simp: new_entries_def) (metis enter_find imageI)+

lemma fold_enter:
  assumes "new_entries es p"
  shows "tensor_array_of (fst (fold enter es p)) = tensor_array_of (fst p) @ map entry_spec es
    \<and> (\<forall>i < length es. let k = int (length (tensor_array_of (fst p)) + i)
        in omap_find (name2idx (fst (fold enter es p))) (en_name (es ! i)) = Some k
        \<and> omap_find (snd (fold enter es p)) (en_section (es ! i))
            = Some \<lparr>sc_str = en_name (es ! i), sc_count = 1, sc_tensor_id_arr = [Some k, None, None, None, None]\<rparr>)"
  using assms
proof (induction es arbitrary: p)
  case (Cons e es)
  let ?p = "enter e p"
  have e: "omap_find (name2idx (fst p)) (en_name e) = None" "en_name e \<notin> en_name ` set es" "en_section e \<notin> en_section ` set es"
    using Cons.prems by (auto simp: new_entries_def)
  note new = enter_new [OF e(1)]
  note ih = Cons.IH [OF new_entries_Cons [OF Cons.prems]]
  show ?case
  proof (intro conjI allI impI)
    fix i
    assume i: "i < length (e # es)"
    show "let k = int (length (tensor_array_of (fst p)) + i)
        in omap_find (name2idx (fst (fold enter (e # es) p))) (en_name ((e # es) ! i)) = Some k
        \<and> omap_find (snd (fold enter (e # es) p)) (en_section ((e # es) ! i))
            = Some \<lparr>sc_str = en_name ((e # es) ! i), sc_count = 1, sc_tensor_id_arr = [Some k, None, None, None, None]\<rparr>"
    proof (cases i)
      case 0
      then show ?thesis using fold_enter_find [of _ es ?p] e(2,3) new by (simp add: section_of_def Let_def)
    next
      case (Suc j)
      then show ?thesis using ih i new(1) by (simp add: Let_def)
    qed
  qed (use ih new(1) in simp)
qed simp

lemma hoare_entries:
  assumes "entries_ok types es" "new_entries es p"
  shows "\<exists>types'. hoare (near new_TensorSpec (fst p) (snd p) types) (concat (map entry_ops es))
    (near new_TensorSpec (fst (fold enter es p)) (snd (fold enter es p)) types')"
  using assms
proof (induction es arbitrary: types p)
  case Nil
  then show ?case using hoare_Nil by auto
next
  case (Cons e es)
  have e: "entry_ok types e" "omap_find (name2idx (fst p)) (en_name e) = None" "omap_find (snd p) (en_section e) = None"
    using Cons.prems by (simp_all add: new_entries_def)
  have "enter e p = (snd (TST_Add (fst p) (entry_spec e)), omap_put (en_section e) (section_of (fst p) e) (snd p))"
    by (cases p) (simp add: enter_def)
  then have "hoare (near new_TensorSpec (fst p) (snd p) types) (entry_ops e)
      (near new_TensorSpec (fst (enter e p)) (snd (enter e p)) (types_after e types))"
    using hoare_entry [OF e] by simp
  then show ?case using Cons.IH [OF _ new_entries_Cons [OF Cons.prems(2)], of "types_after e types"] Cons.prems(1)
    by (auto intro: hoare_append)
qed

text \<open>A dictionary of tensors: its items are set behind the last of them.\<close>

definition dict_ops :: "nat \<Rightarrow> entry list \<Rightarrow> pickle_op list" where
  "dict_ops m es = [P_Proto 2, P_Plain 0x7D, put_op m, P_Plain 0x28] @ concat (map entry_ops es) @ [P_Plain 0x75]"

lemma hoare_dict:
  assumes "entries_ok Map.empty es" "new_entries es (table, [])"
  shows "\<exists>types'. hoare (\<lambda>st. st = new_PickleHeader table) (dict_ops m es @ [P_Plain 0x2E])
    (near new_TensorSpec (fst (fold enter es (table, []))) (snd (fold enter es (table, []))) types')"
proof -
  let ?N = "near new_TensorSpec table [] Map.empty"
  have start: "hoare (\<lambda>st. st = new_PickleHeader table) [P_Proto 2, P_Plain 0x7D, put_op m, P_Plain 0x28] ?N"
  proof (rule hoareI)
    fix opr st
    assume "st = new_PickleHeader table"
    moreover have "runs opr [P_Proto 2, P_Plain 0x7D, put_op m, P_Plain 0x28] st (st\<lparr>ph_put_get_count := ph_put_get_count st + 1\<rparr>)"
      by (simp add: runs_def)
    moreover have "?N (new_PickleHeader table)" by (simp add: near_def at_def new_PickleHeader_def)
    ultimately show "\<exists>st'. runs opr [P_Proto 2, P_Plain 0x7D, put_op m, P_Plain 0x28] st st' \<and> ?N st'" by (metis near_update(1))
  qed
  obtain types' where es: "hoare ?N (concat (map entry_ops es))
      (near new_TensorSpec (fst (fold enter es (table, []))) (snd (fold enter es (table, []))) types')"
    using hoare_entries [OF assms] by auto
  have "hoare P [P_Plain 0x75, P_Plain 0x2E] P" for P by (rule hoareI) (auto simp: runs_def)
  from hoare_append [OF start hoare_append [OF es this]] show ?thesis by (auto simp: dict_ops_def)
qed

section \<open>The bytes of a state dictionary\<close>

lemma pickle_ok_Stop:
  assumes "list_all op_valid ds" "P_Plain 0x2E \<notin> set ds" "4 \<le> length tail" "section_ends tail"
  shows "pickle_ok (ds @ [P_Plain 0x2E]) tail"
  using assms by (induction ds) (auto simp: plain_code_def plain_codes_def)

lemma op_valid_memo [simp]: "m < 2 ^ 31 \<Longrightarrow> op_valid (put_op m)" "m < 2 ^ 31 \<Longrightarrow> op_valid (get_op m)"
  "k < 2 ^ 31 \<Longrightarrow> op_valid (int_op k)"
  by (simp_all add: put_op_def get_op_def int_op_def)

lemma memo_not_Stop [simp]: "put_op m \<noteq> P_Plain c" "get_op m \<noteq> P_Plain c" "int_op k \<noteq> P_Plain c"
  by (simp_all add: put_op_def get_op_def int_op_def)

lemma plain_codes_ok [simp]: "plain_code 0x28" "plain_code 0x51" "plain_code 0x52" "plain_code 0x7D" "plain_code 0x75" "plain_code 0x74"
  "plain_code 0x85" "plain_code 0x86" "plain_code 0x29" "plain_code 0x89"
  by (simp_all add: plain_code_def plain_codes_def)

lemma line_ok_words [simp]: "line_ok ''torch._utils''" "line_ok ''_rebuild_tensor_v2''" "line_ok ''torch''" "line_ok (storage_name t)"
  "line_ok ''collections''" "line_ok ''OrderedDict''"
  by (simp_all add: line_ok_def) (cases t; simp)

definition sendable :: "pickle_op \<Rightarrow> bool" where
  "sendable d \<longleftrightarrow> op_valid d \<and> d \<noteq> P_Plain 0x2E"

lemma sendable_ops [simp]:
  "m < 2 ^ 31 \<Longrightarrow> sendable (put_op m)" "k < 2 ^ 31 \<Longrightarrow> sendable (int_op k)" "length str < 2 ^ 31 \<Longrightarrow> sendable (P_Str str)"
  "c \<in> {0x28, 0x51, 0x52, 0x7D, 0x75, 0x74, 0x85, 0x86, 0x29, 0x89} \<Longrightarrow> sendable (P_Plain c)"
  by (auto simp: sendable_def)

lemma sendable_global: "written (md, nm) x \<Longrightarrow> line_ok md \<Longrightarrow> line_ok nm \<Longrightarrow> list_all sendable (global_ops x)"
  by (cases x) (auto simp: written_def sendable_def)

lemma sendable_str:
  assumes "case x of Fresh str m \<Rightarrow> length str < 2 ^ 31 \<and> m < 2 ^ 31 | Again m \<Rightarrow> m < 2 ^ 31"
  shows "list_all sendable (str_ops x)"
  using assms by (cases x) (auto simp: sendable_def)

lemma sendable_entry:
  assumes "entry_ok types e"
  shows "list_all sendable (entry_ops e)"
proof -
  have memos: "en_memos e ! j < 2 ^ 31" if "j < 6" for j using assms that by (simp add: entry_ok_def)
  have w: "written (''torch._utils'', ''_rebuild_tensor_v2'') (en_rebuild e)" "written ''storage'' (en_storage_word e)"
      "written (''torch'', storage_name (en_etype e)) (en_type e)" "written (''collections'', ''OrderedDict'') (en_hooks e)"
      "case en_device e of Fresh str m \<Rightarrow> name_ok str \<and> \<not> is_digit (hd str) \<and> m < 2 ^ 31
        | Again m \<Rightarrow> m < 2 ^ 31 \<and> types_after e types m = None"
    using assms by (simp_all add: entry_ok_def)
  have "list_all sendable (global_ops (en_rebuild e))" "list_all sendable (global_ops (en_type e))" "list_all sendable (global_ops (en_hooks e))"
    using sendable_global [OF w(1)] sendable_global [OF w(3)] sendable_global [OF w(4)] by simp_all
  moreover have "list_all sendable (str_ops (en_storage_word e))"
    by (rule sendable_str) (use w(2) in \<open>cases "en_storage_word e"; simp add: written_def\<close>)
  moreover have "list_all sendable (str_ops (en_device e))"
    by (rule sendable_str) (use w(5) in \<open>cases "en_device e"; simp add: name_ok_def\<close>)
  moreover have "list_all sendable (map int_op (en_shape e))" "list_all sendable (map int_op (en_strides e))"
    using assms by (auto simp: entry_ok_def list_all_iff)
  moreover have "sendable (P_Plain (tuple_code ks))" for ks by (simp add: tuple_code_def)
  moreover have "sendable (put_op (en_name_memo e))" "sendable (put_op (en_section_memo e))" "sendable (int_op (en_size e))"
      "sendable (int_op (en_offset e))" "sendable (P_Str (en_name e))" "sendable (P_Str (en_section e))"
    using assms by (simp_all add: entry_ok_def name_ok_def)
  ultimately show ?thesis
    using memos by (simp add: entry_ops_def head_ops_def storage_ops_def shape_ops_def rest_ops_def)
qed

lemma dict_ok:
  assumes "entries_ok types es" "m < 2 ^ 31" "4 \<le> length tail" "section_ends tail"
  shows "pickle_ok (dict_ops m es @ [P_Plain 0x2E]) tail"
proof -
  have "list_all sendable (concat (map entry_ops es))"
    using assms(1) by (induction es arbitrary: types) (auto simp: sendable_entry)
  then have "list_all sendable (dict_ops m es)" using assms(2) by (simp add: dict_ops_def) (simp add: sendable_def)
  then show ?thesis using assms(3,4) by (intro pickle_ok_Stop) (auto simp: sendable_def list_all_iff)
qed

section \<open>Properties\<close>

text \<open>
  C3. The header of a PyTorch file is understood: for the pickle of a state dictionary with tensors of
  one or two dimensions, in which strings, functions and element types that occur again are fetched
  from the memo, the reader enters exactly these tensors into the table, in their order, with name,
  element type, size and shape; every section is mapped to its tensor, and the stream stands behind
  the pickle.
\<close>

theorem Pickle_ReadHeader_state_dict:
  assumes "regular_file sys_read" "plain_stream s"
    and "rest_of s = header_bytes ten name extra @ ops_bytes (dict_ops m es @ [P_Plain 0x2E]) @ tail"
    and "length ten = 10" "length name < 255" "length extra < 2 ^ 16" "m < 2 ^ 31"
    and "4 \<le> length tail" "section_ends tail" "entries_ok Map.empty es" "new_entries es (table, [])"
  shows "\<exists>table' sections s'. Pickle_ReadHeader sys_read fresh table s = Some (True, (table', sections), s')
    \<and> plain_stream s' \<and> rest_of s' = tail
    \<and> tensor_array_of table' = tensor_array_of table @ map entry_spec es
    \<and> (\<forall>i < length es. let k = int (length (tensor_array_of table) + i)
        in TST_GetIndex table' (en_name (es ! i)) = k
        \<and> omap_find sections (en_section (es ! i))
            = Some \<lparr>sc_str = en_name (es ! i), sc_count = 1, sc_tensor_id_arr = [Some k, None, None, None, None]\<rparr>)"
proof -
  let ?ops = "dict_ops m es @ [P_Plain 0x2E]" and ?p = "fold enter es (table, [])"
  obtain s1 where s1: "ReadSectionHeader sys_read fresh False s = Some (True, c_str name, s1)" "plain_stream s1"
      "rest_of s1 = ops_bytes ?ops @ tail"
    using regular_file.ReadSectionHeader_here [OF assms(1,2,4,5,6,3), of fresh] by blast
  obtain s2 where s2: "Pickle_Read sys_read fresh s1 = Some (True, op_values new_PickleOperation ?ops, s2)" "plain_stream s2" "rest_of s2 = tail"
    using regular_file.Pickle_Read_loop_ok [OF assms(1) dict_ok [OF assms(10,7,8,9)] s1(2,3), of fresh new_PickleOperation "[]"]
    by (auto simp: Pickle_Read_def)
  obtain types' st where st: "runs new_PickleOperation ?ops (new_PickleHeader table) st" "near new_TensorSpec (fst ?p) (snd ?p) types' st"
    using hoare_dict [OF assms(10,11), of m] unfolding hoare_def by blast
  have "header_loop [] (op_values new_PickleOperation ?ops) (new_PickleHeader table) = Some st"
    using st(1) [unfolded runs_def, rule_format, of "[]" "[]"] by simp
  then have "Pickle_ReadHeader sys_read fresh table s = Some (True, (fst ?p, snd ?p), s2)"
    using s1(1) s2(1) st(2) by (simp add: Pickle_ReadHeader_def near_def at_def)
  moreover obtain table' sections where "?p = (table', sections)" by fastforce
  ultimately show ?thesis using s2(2,3) fold_enter [OF assms(11)] by (simp add: Let_def TST_GetIndex_def)
qed

text \<open>Two tensors, the second written with what the first put into the memo.\<close>

definition two_entries :: "entry list" where
  "two_entries =
    [\<lparr>en_name = ''w'', en_name_memo = 1, en_rebuild = Fresh (''torch._utils'', ''_rebuild_tensor_v2'') 2,
       en_storage_word = Fresh ''storage'' 3, en_etype = ET_BF16, en_type = Fresh (''torch'', ''BFloat16Storage'') 4,
       en_section = ''0'', en_section_memo = 5, en_device = Fresh ''cpu'' 6, en_size = 6, en_offset = 0, en_shape = [2, 3],
       en_strides = [3, 1], en_memos = [7, 8, 9, 11, 12, 13], en_hooks = Fresh (''collections'', ''OrderedDict'') 10\<rparr>,
     \<lparr>en_name = ''b'', en_name_memo = 14, en_rebuild = Again 2, en_storage_word = Again 3, en_etype = ET_BF16, en_type = Again 4,
       en_section = ''1'', en_section_memo = 15, en_device = Again 6, en_size = 300, en_offset = 0, en_shape = [300],
       en_strides = [1], en_memos = [16, 17, 18, 19, 20, 21], en_hooks = Again 10\<rparr>]"

lemma two_entries_ok: "entries_ok Map.empty two_entries" "new_entries two_entries (\<lparr>tensor_array_of = [], name2idx = []\<rparr>, [])"
  by (simp_all add: two_entries_def entry_ok_def name_ok_def written_def types_after_def new_entries_def CaseCmp_eq_def nocase_key_def
      to_lower_def is_digit_def)

theorem Pickle_ReadHeader_state_dict_witness:
  "\<exists>table' sections s'. Pickle_ReadHeader full_read (\<lambda>n. replicate n CHR 0x00) \<lparr>tensor_array_of = [], name2idx = []\<rparr>
      (snd (Open_read new_FileStream (Some (header_bytes (replicate 10 CHR 0x00) ''archive/data.pkl'' ''FB''
        @ ops_bytes (dict_ops 0 two_entries @ [P_Plain 0x2E]) @ section_end_key))))
    = Some (True, (table', sections), s')
    \<and> map ts_name (tensor_array_of table') = [''w'', ''b''] \<and> map ts_ne (tensor_array_of table') = [[3, 2, 0], [300, 0, 0]]"
proof -
  let ?file = "header_bytes (replicate 10 CHR 0x00) ''archive/data.pkl'' ''FB'' @ ops_bytes (dict_ops 0 two_entries @ [P_Plain 0x2E]) @ section_end_key"
  let ?table = "\<lparr>tensor_array_of = [], name2idx = []\<rparr>"
  obtain s where s: "Open_read new_FileStream (Some ?file) = (True, s)" "plain_stream s" "fs_file s = ?file" "fs_offset_rd s = 0"
    using Open_read_plain by blast
  have r: "rest_of s = ?file" using s(3,4) by simp
  have key: "4 \<le> length section_end_key" "section_ends section_end_key" by (simp_all add: section_ends_def section_end_key_def)
  obtain table' sections s' where
      "Pickle_ReadHeader full_read (\<lambda>n. replicate n CHR 0x00) ?table s = Some (True, (table', sections), s')"
      "tensor_array_of table' = tensor_array_of ?table @ map entry_spec two_entries"
    using Pickle_ReadHeader_state_dict [OF full.regular_file_axioms s(2) r _ _ _ _ key two_entries_ok] by fastforce
  then show ?thesis using s(1) by (simp add: two_entries_def entry_spec_def new_TensorSpec_def Let_def numeral_eq_Suc)
qed

end
