(* ===== verification/Spec2Isabelle.thy ===== *)
theory Spec2Isabelle
  imports ConfigData NetworkStructure EngineRounds NGram LayerPartition EngineConfig LlamaCppFormat PickleModelFormat
begin

text \<open>
  A verification library of the inference engine for transformer models under src/.

  \<^bold>\<open>The program.\<close> A configuration file names models, devices and prompt templates. The engine loads
  the tensors of a model and renames them to its own names, places the layers on groups of devices,
  and serves queries: a query is built from a template and the user's text, tokenised, admitted to
  the table of query states and given a slot of the key-value cache. In every round the engine
  collects a batch of queries that fits a token budget, runs the network on it, samples a token per
  query and commits the tokens to the table, until a query meets an end token, its output limit or
  the end of the context.

  \<^bold>\<open>Theories and sources.\<close>
  \<^item> \<open>Prelude\<close>, \<open>StdMap\<close>: shared lemmas; \<open>std::map\<close> as a sorted association list, with its laws.
  \<^item> \<open>TensorCommon\<close> (src/src/tensor/tensor_common.*, src/src/common/quant_types.h): element types,
    block layouts, byte counts on 64-bit words, names and the case-insensitive maps.
  \<^item> \<open>ModelTypes\<close> (src/src/transformer/model.h): hyper-parameters and the model specification.
  \<^item> \<open>QueryTable\<close> (query_state_table.*): the table of query states, slots and batches, with an
    abstract specification of sessions as a locale and its interpretation on the table.
  \<^item> \<open>CppString\<close>, \<open>Utf8\<close>, \<open>ConfigData\<close> (src/3rd_party/sslib/string.cc, string_util.cc,
    config_data.*): string helpers, UTF-8 conversion, configuration files with macros.
  \<^item> \<open>Vocabulary\<close>, \<open>TokenTrie\<close>, \<open>Tokenizer\<close> (src/src/common/std_vocabulary.*, text_tokenizer.*,
    src/3rd_party/sslib/naive_trie.*): token table, trie, forward maximum matching, byte pair
    encoding.
  \<^item> \<open>NetworkStructure\<close> (network_structure.*): tensor names of the model families and renaming.
  \<^item> \<open>EngineInput\<close>, \<open>Engine\<close>, \<open>EngineRounds\<close> (inference_engine.*, inference_types.h,
    src/src/service/inferflow_service.cc): templates and prompts, admission, batches, rounds,
    commit, and the service loop.
  \<^item> \<open>TopK\<close>, \<open>Sampling\<close>, \<open>NGram\<close> (sampling_strategy.*, decoding_strategies.*,
    src/3rd_party/sslib/top_k_queue.*, random.cc): candidate pools, standard sampling, the n-gram
    memory of the contrastive strategies.
  \<^item> \<open>LayerPartition\<close> (network_builder.cc, inference_engine.cc): layer assignments and GPU workers.
  \<^item> \<open>EngineConfig\<close> (inference_engine.cc, model.cc, model_reader.cc): loading the configuration.
  \<^item> \<open>FileStream\<close>, \<open>ByteStream\<close> (src/3rd_party/sslib/binary_file_stream.*, binary_stream.h): buffered
    file streams with their read and write buffers, encryption, lines and seeking; typed reads. The
    locales \<open>regular_file\<close> and \<open>writable_file\<close> are what they rely on of the system calls, the locale
    \<open>byte_stream\<close> is what the format readers rely on of a stream; it is provided by file streams.
  \<^item> \<open>HostTensor\<close>, \<open>TokenBytes\<close> (src/src/tensor/host_tensor.*, model_reader.cc): allocating and reading
    a tensor; the byte-level alphabet of token strings.
  \<^item> \<open>Gguf\<close>, \<open>LlamaCpp\<close> (model_reader.cc, model_reader.h): the readers of GGUF files and of GGML, GGMF
    and GGJT files, with attributes, vocabularies, tensor tables and tensor data.
  \<^item> \<open>PickleReader\<close>, \<open>PickleModel\<close> (src/src/common/pickle_reader.*, src/3rd_party/sslib/stream_helper.cc,
    model_reader.cc): the operations of pickles, the sections of an archive, and the state machine
    that finds the tensors of a PyTorch file.
  \<^item> \<open>GgufFormat\<close>, \<open>LlamaCppFormat\<close>, \<open>PickleFormat\<close>, \<open>PickleModelFormat\<close>: the file formats as encoders,
    independent of the readers, and the proofs that the readers invert them. \<open>PickleModelFormat\<close>
    reasons about the state machine with Hoare triples over its operations.

  A class or struct is a record, an enumeration a datatype, a member function a function on the
  record. Operations that hold the engine's mutex are single steps; \<open>engine_reach\<close> and the reachable
  tables are inductive predicates over them. Failure values are \<open>option\<close> or sums: \<open>None\<close> stands for
  an access outside a container or for a loop that does not return, as the theories say; a result
  of false or a negative code is a value of its own.

  \<^bold>\<open>What the theorems show.\<close> Live queries never share a cache slot, the table refines the session
  specification, batches respect the budgets and never mix phases, and their rows do not overlap;
  the number of queries stays below the limit; the oldest query is served to its end. The candidate
  pool of any number of threads is the list of the best candidates, and the selected token is one of
  it. Both tokenisers are lossless or equal their reference segmentation, also through role
  markers; the decoder prefix spells the template. Byte counts do not wrap. Tensor names are
  translated instance by instance. A loaded configuration is ready to be placed and the workers
  created from it cover all layers once. Streams deliver the bytes of the file whatever their buffers
  hold and however the system call splits a read, and what was written reads back. Well-formed GGUF
  and GGML files load with every attribute, token and tensor; the operations of pickles are read back
  and the tensors of a state dictionary enter the table in their order. The theorems of kind error,
  and some others, show where the code does not do what it means to.

  \<^bold>\<open>Parameters and bounds.\<close> Weights of candidates are elements of any linearly ordered field: the
  theorems on sampling hold for exact arithmetic, and the exponential function, the sorting of equal
  weights and the random generator are arguments. The choice of a priority queue among equal
  elements is an argument of the byte pair encoding. The forward pass of the network, the copying of
  its output rows and the sampling of a row are arguments of the rounds. The system calls \<open>read\<close> and
  \<open>write\<close> are arguments of the streams, and the content of uninitialised arrays is an argument
  \<open>fresh\<close>, so that nothing is assumed of it. JSON documents are given by
  the values of the fields that are read. Loops that may not end are \<open>partial_function (option)\<close>
  without fuel, and their return is proved where it is claimed; the number of service rounds is a
  natural number, and the liveness theorem gives one that is enough.

  \<^bold>\<open>Not modelled.\<close> The CUDA kernels, the floating-point arithmetic of host tensors and quantisation,
  and device memory, because their meaning rests on floating-point rounding and the device runtime;
  sockets, threads and console output of the service and the tools; the parser of
  JSON files and the safetensors header that needs it; the tensor data of pickle files, which is
  converted to 16-bit floats, and the model writer; the strategies MinP, TFS, typical and Mirostat, which are
  floating-point formulas over the modelled pool; statistics and logging.
\<close>

end
